(* ===== verification/Prelude.thy ===== *)
theory Prelude
  imports Complex_Main "HOL-Library.AList" "HOL-Library.List_Lexorder"
    "HOL-Library.Char_ord" "HOL-Library.Product_Lexorder" "HOL-Library.While_Combinator"
begin

text \<open>
  Shared ground of the development: the Python constructs the engine uses, as HOL functions,
  with the lemmas every component needs about them.

  \<^item> \<open>outcome\<close>: what a call does - return, raise, or never return.
  \<^item> \<open>max_by\<close>, \<open>min_by\<close>: \<open>max(xs, key=f)\<close> and \<open>min(xs, key=f)\<close>, first extremum on ties.
  \<^item> dictionaries as association lists in insertion order (\<open>AList.update\<close> is \<open>d[k] = v\<close>).
  \<^item> \<open>tail_slice\<close>: the slice \<open>x[-k:]\<close>.
  \<^item> \<open>round_half_even\<close>, \<open>py_round\<close>: \<open>round(x)\<close> and \<open>round(x, n)\<close>.
  \<^item> \<open>split_on\<close>, \<open>join_with\<close>: \<open>s.split(c)\<close> and \<open>c.join(parts)\<close>.

  Python floats are idealised as real numbers: rounding errors of IEEE arithmetic are outside
  the model, NaN is \<open>None\<close> where the code can meet it.
\<close>

named_theorems bounds_intro \<open>bounds of the numeric helpers, for use as introduction rules\<close>
named_theorems member_dest \<open>membership of the result of a selection in its input\<close>

section \<open>Outcomes of a call\<close>

datatype exn = ValueError | IndexError | KeyError | HTTPException nat | OtherError string

datatype 'a outcome = Ret 'a | Raise exn | Hang

fun and_then :: "'a outcome \<Rightarrow> ('a \<Rightarrow> 'b outcome) \<Rightarrow> 'b outcome" where
  "and_then (Ret a) f = f a"
| "and_then (Raise e) f = Raise e"
| "and_then Hang f = Hang"

definition returned :: "'a option \<Rightarrow> 'a outcome" where
  "returned m = (case m of None \<Rightarrow> Hang | Some a \<Rightarrow> Ret a)"

lemma returned_simps [simp]: "returned None = Hang" "returned (Some a) = Ret a"
  by (simp_all add: returned_def)

lemma and_then_Ret_iff [simp]:
  "and_then m f = Ret b \<longleftrightarrow> (\<exists>a. m = Ret a \<and> f a = Ret b)"
  by (cases m) auto

lemma returned_Ret_iff [simp]: "returned m = Ret a \<longleftrightarrow> m = Some a"
  by (cases m) auto

section \<open>First maximum and first minimum by a key\<close>

fun max_by_from :: "('a \<Rightarrow> 'k::linorder) \<Rightarrow> 'a \<Rightarrow> 'a list \<Rightarrow> 'a" where
  "max_by_from f m [] = m"
| "max_by_from f m (x # xs) = max_by_from f (if f m < f x then x else m) xs"

fun max_by :: "('a \<Rightarrow> 'k::linorder) \<Rightarrow> 'a list \<Rightarrow> 'a option" where
  "max_by f [] = None"
| "max_by f (x # xs) = Some (max_by_from f x xs)"

fun min_by_from :: "('a \<Rightarrow> 'k::linorder) \<Rightarrow> 'a \<Rightarrow> 'a list \<Rightarrow> 'a" where
  "min_by_from f m [] = m"
| "min_by_from f m (x # xs) = min_by_from f (if f x < f m then x else m) xs"

fun min_by :: "('a \<Rightarrow> 'k::linorder) \<Rightarrow> 'a list \<Rightarrow> 'a option" where
  "min_by f [] = None"
| "min_by f (x # xs) = Some (min_by_from f x xs)"

lemma max_by_from_mem: "max_by_from f m xs \<in> insert m (set xs)"
proof (induction xs arbitrary: m)
  case (Cons x xs)
  have "max_by_from f (if f m < f x then x else m) xs \<in> insert (if f m < f x then x else m) (set xs)"
    by (rule Cons.IH)
  then show ?case by (auto split: if_splits)
qed simp

lemma max_by_from_ge: "\<forall>y \<in> insert m (set xs). f y \<le> f (max_by_from f m xs)"
proof (induction xs arbitrary: m)
  case (Cons x xs)
  from Cons.IH [of "if f m < f x then x else m"] show ?case
    by (auto split: if_splits)
qed simp

lemma min_by_from_mem: "min_by_from f m xs \<in> insert m (set xs)"
proof (induction xs arbitrary: m)
  case (Cons x xs)
  have "min_by_from f (if f x < f m then x else m) xs \<in> insert (if f x < f m then x else m) (set xs)"
    by (rule Cons.IH)
  then show ?case by (auto split: if_splits)
qed simp

lemma min_by_from_le: "\<forall>y \<in> insert m (set xs). f (min_by_from f m xs) \<le> f y"
proof (induction xs arbitrary: m)
  case (Cons x xs)
  from Cons.IH [of "if f x < f m then x else m"] show ?case
    by (auto split: if_splits)
qed simp

lemma max_by_mem [member_dest]: "max_by f xs = Some m \<Longrightarrow> m \<in> set xs"
  using max_by_from_mem by (cases xs) fastforce+

lemma max_by_ge: "max_by f xs = Some m \<Longrightarrow> x \<in> set xs \<Longrightarrow> f x \<le> f m"
  using max_by_from_ge by (cases xs) fastforce+

lemma min_by_mem [member_dest]: "min_by f xs = Some m \<Longrightarrow> m \<in> set xs"
  using min_by_from_mem by (cases xs) fastforce+

lemma min_by_le: "min_by f xs = Some m \<Longrightarrow> x \<in> set xs \<Longrightarrow> f m \<le> f x"
  using min_by_from_le by (cases xs) fastforce+

lemma max_by_None_iff [simp]: "max_by f xs = None \<longleftrightarrow> xs = []"
  by (cases xs) auto

lemma min_by_None_iff [simp]: "min_by f xs = None \<longleftrightarrow> xs = []"
  by (cases xs) auto

section \<open>Slices\<close>

text \<open>\<open>x[-k:]\<close>: the last \<open>k\<close> elements, all of them when there are fewer, and all of them
  when \<open>k = 0\<close> (in Python \<open>x[-0:]\<close> is \<open>x[0:]\<close>).\<close>

definition tail_slice :: "nat \<Rightarrow> 'a list \<Rightarrow> 'a list" where
  "tail_slice k x = (if k = 0 then x else drop (length x - k) x)"

lemma length_tail_slice [simp]:
  "length (tail_slice k x) = (if k = 0 then length x else min k (length x))"
  by (auto simp: tail_slice_def)

lemma set_tail_slice: "set (tail_slice k x) \<subseteq> set x"
  by (auto simp: tail_slice_def dest: in_set_dropD)

lemma tail_slice_full [simp]: "tail_slice (length x) x = x"
  by (simp add: tail_slice_def)

lemma tail_slice_Nil_iff [simp]: "tail_slice k x = [] \<longleftrightarrow> x = []"
  by (cases x) (auto simp: tail_slice_def)

section \<open>Dictionaries in insertion order\<close>

definition dict_of_list :: "('k \<times> 'v) list \<Rightarrow> ('k \<times> 'v) list" where
  "dict_of_list kvs = foldl (\<lambda>d (k, v). AList.update k v d) [] kvs"

lemma foldl_update_keys:
  "fst ` set (foldl (\<lambda>d (k, v). AList.update k v d) d kvs) = fst ` set d \<union> fst ` set kvs"
proof (induction kvs arbitrary: d)
  case (Cons kv kvs)
  obtain k v where kv: "kv = (k, v)" by (cases kv)
  show ?case by (simp add: kv Cons.IH dom_update)
qed simp

lemma foldl_update_distinct:
  "distinct (map fst d) \<Longrightarrow> distinct (map fst (foldl (\<lambda>d (k, v). AList.update k v d) d kvs))"
  by (induction kvs arbitrary: d) (auto simp: distinct_update)

lemma dict_of_list_keys [simp]: "fst ` set (dict_of_list kvs) = fst ` set kvs"
  using foldl_update_keys [of "[]" kvs] by (simp add: dict_of_list_def)

lemma dict_of_list_distinct [simp]: "distinct (map fst (dict_of_list kvs))"
  by (simp add: dict_of_list_def foldl_update_distinct)

lemma foldl_update_map_of:
  "map_of (foldl (\<lambda>d (k, v). AList.update k v d) d kvs) = map_of d ++ map_of (rev kvs)"
proof (induction kvs arbitrary: d)
  case (Cons kv kvs)
  obtain k v where kv: "kv = (k, v)" by (cases kv)
  have "map_of (AList.update k v d) ++ map_of (rev kvs) = map_of d ++ ([k \<mapsto> v] ++ map_of (rev kvs))"
    by (simp add: update_conv' map_add_assoc [symmetric])
  then show ?case by (simp add: kv Cons.IH map_add_assoc)
qed simp

lemma dict_of_list_map_of: "map_of (dict_of_list kvs) = map_of (rev kvs)"
  by (simp add: dict_of_list_def foldl_update_map_of)

section \<open>Rounding\<close>

definition round_half_even :: "real \<Rightarrow> int" where
  "round_half_even x =
     (let f = \<lfloor>x\<rfloor>; d = x - of_int f
      in if d < 1/2 then f else if d > 1/2 then f + 1 else if even f then f else f + 1)"

definition py_round :: "nat \<Rightarrow> real \<Rightarrow> real" where
  "py_round n x = of_int (round_half_even (x * 10 ^ n)) / 10 ^ n"

lemma round_half_even_error: "\<bar>of_int (round_half_even x) - x\<bar> \<le> 1/2"
proof -
  have "0 \<le> x - of_int \<lfloor>x\<rfloor>" "x - of_int \<lfloor>x\<rfloor> < 1"
    by linarith+
  then show ?thesis
    unfolding round_half_even_def Let_def by (auto split: if_splits)
qed

lemma round_half_even_of_int [simp]: "round_half_even (of_int k) = k"
  by (simp add: round_half_even_def)

lemma round_half_even_mono:
  assumes "x \<le> y" shows "round_half_even x \<le> round_half_even y"
proof (cases "\<lfloor>x\<rfloor> = \<lfloor>y\<rfloor>")
  case True
  with assms show ?thesis by (auto simp: round_half_even_def Let_def)
next
  case False
  with assms have "\<lfloor>x\<rfloor> + 1 \<le> \<lfloor>y\<rfloor>"
    using floor_mono by fastforce
  moreover have "round_half_even x \<le> \<lfloor>x\<rfloor> + 1" "\<lfloor>y\<rfloor> \<le> round_half_even y"
    by (auto simp: round_half_even_def Let_def)
  ultimately show ?thesis by linarith
qed

lemma py_round_mono: "x \<le> y \<Longrightarrow> py_round n x \<le> py_round n y"
  unfolding py_round_def
  by (intro divide_right_mono) (auto intro!: round_half_even_mono mult_right_mono)

lemma py_round_error: "\<bar>py_round n x - x\<bar> \<le> 1 / (2 * 10 ^ n)"
proof -
  have "\<bar>of_int (round_half_even (x * 10 ^ n)) - x * 10 ^ n\<bar> \<le> 1/2"
    by (rule round_half_even_error)
  then have "\<bar>of_int (round_half_even (x * 10 ^ n)) - x * 10 ^ n\<bar> / 10 ^ n \<le> (1/2) / 10 ^ n"
    by (intro divide_right_mono) auto
  moreover have "of_int (round_half_even (x * 10 ^ n)) - x * 10 ^ n = (py_round n x - x) * 10 ^ n"
    by (simp add: py_round_def left_diff_distrib)
  ultimately show ?thesis by (simp add: abs_mult)
qed

lemma py_round_of_int [simp]: "py_round n (of_int k) = of_int k"
proof -
  have "(of_int k :: real) * 10 ^ n = of_int (k * 10 ^ n)" by simp
  then show ?thesis unfolding py_round_def by (metis round_half_even_of_int nonzero_mult_div_cancel_right
        of_int_mult of_int_power of_int_numeral power_not_zero zero_neq_numeral)
qed

lemma py_round_0 [simp]: "py_round n 0 = 0" and py_round_1 [simp]: "py_round n 1 = 1"
  using py_round_of_int [of n 0] py_round_of_int [of n 1] by simp_all

lemma py_round_nonneg [bounds_intro]: "0 \<le> x \<Longrightarrow> 0 \<le> py_round n x"
  using py_round_mono [of 0 x n] by simp

lemma py_round_le_1 [bounds_intro]: "x \<le> 1 \<Longrightarrow> py_round n x \<le> 1"
  using py_round_mono [of x 1 n] by simp

lemma py_round_abs_le_1 [bounds_intro]:
  assumes "\<bar>x\<bar> \<le> 1" shows "\<bar>py_round n x\<bar> \<le> 1"
proof -
  from assms have "py_round n (of_int (- 1)) \<le> py_round n x" "py_round n x \<le> py_round n (of_int 1)"
    by (intro py_round_mono; simp)+
  then show ?thesis unfolding py_round_of_int by (simp add: abs_le_iff)
qed

section \<open>Splitting and joining strings\<close>

fun split_on :: "char \<Rightarrow> string \<Rightarrow> string list" where
  "split_on c [] = [[]]"
| "split_on c (x # xs) =
     (if x = c then [] # split_on c xs
      else (case split_on c xs of [] \<Rightarrow> [[x]] | p # ps \<Rightarrow> (x # p) # ps))"

fun join_with :: "string \<Rightarrow> string list \<Rightarrow> string" where
  "join_with sep [] = []"
| "join_with sep [s] = s"
| "join_with sep (s # t # ts) = s @ sep @ join_with sep (t # ts)"

lemma split_on_not_Nil [simp]: "split_on c s \<noteq> []"
  by (induction s) (auto split: list.splits)

lemma join_split: "join_with [c] (split_on c s) = s"
proof (induction s)
  case (Cons x s)
  show ?case
  proof (cases "split_on c s")
    case Nil
    then show ?thesis by simp
  next
    case (Cons p ps)
    with Cons.IH show ?thesis by (cases ps) auto
  qed
qed simp

lemma split_on_free [simp]: "c \<notin> set s \<Longrightarrow> split_on c s = [s]"
  by (induction s) auto

lemma split_on_append: "c \<notin> set s \<Longrightarrow> split_on c (s @ c # t) = s # split_on c t"
  by (induction s) auto

lemma split_on_last: "split_on c (s @ c # t) = split_on c s @ split_on c t"
  by (induction s) (auto split: list.splits)

lemma split_on_suffix: "\<exists>x. s = x @ last (split_on c s)"
proof (induction s)
  case (Cons y s)
  then obtain x where x: "s = x @ last (split_on c s)" by blast
  obtain q qs where q: "split_on c s = q # qs" by (cases "split_on c s") auto
  show ?case
  proof (cases "y = c \<or> qs \<noteq> []")
    case True
    then have "last (split_on c (y # s)) = last (split_on c s)" using q by auto
    with x show ?thesis by (intro exI [of _ "y # x"]) simp
  next
    case False
    with q join_split [of c s] have "split_on c s = [s]" by simp
    with False show ?thesis by (intro exI [of _ "[]"]) simp
  qed
qed simp

lemma split_on_suffix_sep: "2 \<le> length (split_on c s) \<Longrightarrow> \<exists>x. s = x @ c # last (split_on c s)"
proof (induction s)
  case (Cons y s)
  obtain q qs where q: "split_on c s = q # qs" by (cases "split_on c s") auto
  show ?case
  proof (cases "qs = []")
    case True
    with Cons.prems q have "y = c" by (auto split: if_splits)
    moreover from True q have "split_on c s = [s]" using join_split [of c s] by simp
    ultimately show ?thesis by (intro exI [of _ "[]"]) simp
  next
    case False
    with Cons.IH q obtain x where x: "s = x @ c # last (split_on c s)" by (auto simp: Suc_le_eq)
    have "last (split_on c (y # s)) = last (split_on c s)" using q False by auto
    with x show ?thesis by (intro exI [of _ "y # x"]) simp
  qed
qed simp

section \<open>Stable sorting by a key\<close>

lemma sorted_sort_key_le:
  "i < j \<Longrightarrow> j < length xs \<Longrightarrow> f (sort_key f xs ! i) \<le> f (sort_key f xs ! j)"
  using sorted_nth_mono [OF sorted_sort_key [of f xs], of i j] by simp

lemma sort_key_hd_least:
  "xs \<noteq> [] \<Longrightarrow> x \<in> set xs \<Longrightarrow> f (hd (sort_key f xs)) \<le> f x"
proof -
  assume "xs \<noteq> []" "x \<in> set xs"
  then obtain y ys where s: "sort_key f xs = y # ys"
    by (cases "sort_key f xs") (metis set_sort set_empty list.set(1))
  then have "sorted (map f (y # ys))" by (metis sorted_sort_key)
  moreover from \<open>x \<in> set xs\<close> s have "x \<in> set (y # ys)" by (metis set_sort)
  ultimately show ?thesis using s by auto
qed

lemma distinct_take_sort:
  assumes "distinct (map f xs)" shows "distinct (map f (take k (sort_key g xs)))"
proof -
  from assms have "distinct (sort_key g xs)" "inj_on f (set xs)" by (simp_all add: distinct_map)
  then show ?thesis
    by (simp add: distinct_map inj_on_subset [OF _ subset_trans [OF set_take_subset]])
qed

lemma distinct_map_sort_key [simp]: "distinct (map f (sort_key g xs)) = distinct (map f xs)"
  by (simp add: distinct_map)

lemma sort_key_eq_Nil_iff [simp]: "sort_key f xs = [] \<longleftrightarrow> xs = []"
  by (metis length_0_conv length_sort)

text \<open>\<open>sorted({...})\<close>.\<close>

definition sorted_set :: "'a::linorder list \<Rightarrow> 'a list" where
  "sorted_set xs = sort (remdups xs)"

lemma sorted_set_simps [simp]:
  "set (sorted_set xs) = set xs" "distinct (sorted_set xs)" "sorted (sorted_set xs)" "sorted_set [] = []"
  by (simp_all add: sorted_set_def)

text \<open>\<open>s or ""\<close> for a string that may be missing.\<close>

definition or_empty :: "string option \<Rightarrow> string" where
  "or_empty s = (case s of None \<Rightarrow> [] | Some t \<Rightarrow> t)"

text \<open>\<open>s.rstrip("/")\<close>.\<close>

definition rstrip_slash :: "string \<Rightarrow> string" where
  "rstrip_slash s = rev (dropWhile (\<lambda>c. c = CHR ''/'') (rev s))"

end
