(* ===== verification/Text.thy ===== *)
theory Text
  imports Prelude
begin

text \<open>
  Text as the gateway and the recorder handle it: decimal numbers printed and read, the string
  methods \<open>upper\<close>, \<open>strip\<close> and \<open>startswith\<close>, and truth of optional strings.  Strings are byte
  strings; \<open>parse_float\<close> is \<open>float(text)\<close> on decimal literals (the texts of infinities and NaN are
  outside the model).
\<close>

definition digit :: "nat \<Rightarrow> char" where "digit d = char_of (48 + d)"

definition digit_val :: "char \<Rightarrow> nat" where "digit_val c = of_char c - 48"

definition is_digit :: "char \<Rightarrow> bool" where
  "is_digit c \<longleftrightarrow> 48 \<le> (of_char c :: nat) \<and> (of_char c :: nat) \<le> 57"

fun show_nat :: "nat \<Rightarrow> string" where
  "show_nat n = (if n < 10 then [digit n] else show_nat (n div 10) @ [digit (n mod 10)])"

declare show_nat.simps [simp del]

definition show_int :: "int \<Rightarrow> string" where
  "show_int k = (if k < 0 then ''-'' @ show_nat (nat (- k)) else show_nat (nat k))"

definition read_digits :: "string \<Rightarrow> nat" where
  "read_digits s = foldl (\<lambda>n c. 10 * n + digit_val c) 0 s"

definition parse_nat :: "string \<Rightarrow> nat option" where
  "parse_nat s = (if s \<noteq> [] \<and> list_all is_digit s then Some (read_digits s) else None)"

definition signed :: "string \<Rightarrow> real \<times> string" where
  "signed s = (case s of [] \<Rightarrow> (1, [])
     | c # cs \<Rightarrow> if c = CHR ''-'' then (-1, cs) else if c = CHR ''+'' then (1, cs) else (1, s))"

definition parse_exponent :: "string \<Rightarrow> int option" where
  "parse_exponent s = (let (sg, t) = signed s in map_option (\<lambda>n. if sg < 0 then - int n else int n) (parse_nat t))"

definition parse_mantissa :: "string \<Rightarrow> real option" where
  "parse_mantissa m =
     (case split_on CHR ''.'' m of
        [a] \<Rightarrow> map_option real (parse_nat a)
      | [a, b] \<Rightarrow> map_option (\<lambda>n. real n / 10 ^ length b) (parse_nat (a @ b))
      | _ \<Rightarrow> None)"

definition parse_float :: "string \<Rightarrow> real option" where
  "parse_float s =
     (let (sg, t) = signed s
      in (case split_on CHR ''e'' (map (\<lambda>c. if c = CHR ''E'' then CHR ''e'' else c) t) of
            [m] \<Rightarrow> map_option (\<lambda>x. sg * x) (parse_mantissa m)
          | [m, x] \<Rightarrow> (case (parse_mantissa m, parse_exponent x) of
                (Some v, Some k) \<Rightarrow> Some (sg * v * (10 powi k))
              | _ \<Rightarrow> None)
          | _ \<Rightarrow> None))"

text \<open>\<open>str(round(x, 2))\<close>: two decimals without trailing zeros, at least one.\<close>

definition show_round2 :: "real \<Rightarrow> string" where
  "show_round2 x =
     (let k = round_half_even (x * 100); a = nat \<bar>k\<bar>; frac = a mod 100
      in (if k < 0 then ''-'' else '''') @ show_nat (a div 100) @ ''.'' @
         (if frac mod 10 = 0 then [digit (frac div 10)] else [digit (frac div 10), digit (frac mod 10)]))"

definition upper_char :: "char \<Rightarrow> char" where
  "upper_char c = (if 97 \<le> (of_char c :: nat) \<and> (of_char c :: nat) \<le> 122 then char_of ((of_char c :: nat) - 32) else c)"

definition upper :: "string \<Rightarrow> string" where "upper = map upper_char"

definition is_space :: "char \<Rightarrow> bool" where
  "is_space c \<longleftrightarrow> (of_char c :: nat) \<in> {9, 10, 11, 12, 13, 28, 29, 30, 31, 32}"

definition strip :: "string \<Rightarrow> string" where
  "strip s = rev (dropWhile is_space (rev (dropWhile is_space s)))"

definition startswith :: "string \<Rightarrow> string \<Rightarrow> bool" where
  "startswith s p \<longleftrightarrow> take (length p) s = p"

text \<open>\<open>if s\<close> for a string that may be missing.\<close>

definition truthy :: "string option \<Rightarrow> bool" where
  "truthy s \<longleftrightarrow> (case s of None \<Rightarrow> False | Some t \<Rightarrow> t \<noteq> '''')"

text \<open>\<open>int(x)\<close> truncates towards zero.\<close>

definition py_int :: "real \<Rightarrow> int" where
  "py_int x = (if x < 0 then - \<lfloor>- x\<rfloor> else \<lfloor>x\<rfloor>)"

lemma digit_val_digit [simp]: "d < 10 \<Longrightarrow> digit_val (digit d) = d"
  by (simp add: digit_val_def digit_def)

lemma is_digit_digit [simp]: "d < 10 \<Longrightarrow> is_digit (digit d)"
  by (simp add: is_digit_def digit_def)

lemma show_nat_not_Nil [simp]: "show_nat n \<noteq> []"
  by (simp add: show_nat.simps)

lemma show_nat_digits: "list_all is_digit (show_nat n)"
  by (induction n rule: show_nat.induct) (subst show_nat.simps, simp)

lemma read_show_nat: "read_digits (show_nat n) = n"
proof (induction n rule: show_nat.induct)
  case (1 n)
  show ?case
  proof (cases "n < 10")
    case True
    then show ?thesis by (simp add: show_nat.simps [of n] read_digits_def)
  next
    case False
    with 1 have "read_digits (show_nat (n div 10)) = n div 10" by simp
    with False show ?thesis by (simp add: show_nat.simps [of n] read_digits_def)
  qed
qed

lemma parse_show_nat: "parse_nat (show_nat n) = Some n"
  by (simp add: parse_nat_def show_nat_digits read_show_nat)

lemma digit_not_sep: "is_digit c \<Longrightarrow> c \<noteq> CHR ''.'' \<and> c \<noteq> CHR ''e'' \<and> c \<noteq> CHR ''E'' \<and> c \<noteq> CHR ''-'' \<and> c \<noteq> CHR ''+''"
  by (auto simp: is_digit_def)

text \<open>The number printed by \<open>str(n)\<close> is read back by \<open>float\<close>.\<close>

lemma parse_float_show_int: "parse_float (show_int k) = Some (of_int k)"
proof -
  have free: "CHR ''.'' \<notin> set (show_nat n)" "CHR ''e'' \<notin> set (show_nat n)" "CHR ''E'' \<notin> set (show_nat n)"
    "signed (show_nat n) = (1, show_nat n)" for n
    using show_nat_digits [of n] digit_not_sep
    by (auto simp: list_all_iff signed_def split: list.split)
  have low: "map (\<lambda>c. if c = CHR ''E'' then CHR ''e'' else c) (show_nat n) = show_nat n" for n
    using free(3) [of n] by (intro map_idI) auto
  have m: "parse_mantissa (show_nat n) = Some (real n)" for n
    by (simp add: parse_mantissa_def free parse_show_nat)
  show ?thesis
  proof (cases "k < 0")
    case True
    then show ?thesis
      by (simp add: show_int_def parse_float_def signed_def low free m)
  next
    case False
    then show ?thesis
      by (simp add: show_int_def parse_float_def free low m)
  qed
qed

lemma strip_idem [simp]: "strip (strip s) = strip s"
proof -
  have d: "dropWhile is_space (rev (dropWhile is_space (rev t))) = rev (dropWhile is_space (rev t))"
    if "t = [] \<or> \<not> is_space (hd t)" for t
  proof (cases "rev (dropWhile is_space (rev t))")
    case (Cons y ys)
    obtain zs where "rev t = zs @ dropWhile is_space (rev t)" by (metis takeWhile_dropWhile_id)
    then have "t = rev (dropWhile is_space (rev t)) @ rev zs" by (metis rev_append rev_rev_ident)
    with Cons that have "\<not> is_space y" by auto
    with Cons show ?thesis by simp
  next
    case Nil
    then show ?thesis unfolding Nil by simp
  qed
  have "dropWhile is_space s = [] \<or> \<not> is_space (hd (dropWhile is_space s))"
    using hd_dropWhile by blast
  from d [OF this] show ?thesis by (simp add: strip_def)
qed
end
