(* ===== verification/Json_Text.thy ===== *)
theory Json_Text
  imports Text "HOL-Library.Multiset"
begin

text \<open>
  JSON text as the engine, its memory and the recorder use it: \<open>json.dumps\<close> with the separators and the
  key order of the call, \<open>json.loads\<close>, and the two helpers that turn an unreadable text into a default
  (\<open>_json\<close> and \<open>_load_json\<close> of \<open>engine/state.py\<close>, \<open>jload\<close> of \<open>soak/record.py\<close>).  A character is a code point below
  256; an escape of a larger one, \<open>NaN\<close> and the infinities are outside the model and read as errors.
  How a number is printed (\<open>repr\<close>) is the parameter \<open>show\<close> of the printer.
\<close>

datatype json = JNull | JBool bool | JNum real | JStr string | JArr "json list" | JObj "(string \<times> json) list"

section \<open>Printing\<close>

definition hex_digit :: "nat \<Rightarrow> char" where
  "hex_digit d = (if d < 10 then digit d else char_of (87 + d))"

text \<open>\<open>ensure_ascii\<close>: everything outside the printable ASCII characters is escaped.\<close>

definition escape_char :: "char \<Rightarrow> string" where
  "escape_char c =
     (if c = CHR 0x22 then [CHR 0x5C, CHR 0x22]
      else if c = CHR 0x5C then [CHR 0x5C, CHR 0x5C]
      else if c = CHR 0x0A then [CHR 0x5C, CHR ''n'']
      else if c = CHR 0x0D then [CHR 0x5C, CHR ''r'']
      else if c = CHR 0x09 then [CHR 0x5C, CHR ''t'']
      else if c = CHR 0x0C then [CHR 0x5C, CHR ''f'']
      else if c = CHR 0x08 then [CHR 0x5C, CHR ''b'']
      else if 32 \<le> (of_char c :: nat) \<and> (of_char c :: nat) \<le> 126 then [c]
      else [CHR 0x5C, CHR ''u'', CHR ''0'', CHR ''0'', hex_digit (of_char c div 16), hex_digit (of_char c mod 16)])"

definition escape :: "string \<Rightarrow> string" where
  "escape s = concat (map escape_char s)"

text \<open>How the calls print: the digits of a number, a string between its quotes, the separators, the order.\<close>

record printer =
  pr_show :: "real \<Rightarrow> string"
  pr_text :: "string \<Rightarrow> string"
  pr_item :: string
  pr_key :: string
  pr_sorted :: bool

definition quoted :: "printer \<Rightarrow> string \<Rightarrow> string" where
  "quoted p s = CHR 0x22 # pr_text p s @ [CHR 0x22]"

fun dumps :: "printer \<Rightarrow> json \<Rightarrow> string" where
  "dumps p JNull = ''null''"
| "dumps p (JBool b) = (if b then ''true'' else ''false'')"
| "dumps p (JNum x) = pr_show p x"
| "dumps p (JStr s) = quoted p s"
| "dumps p (JArr xs) = ''['' @ join_with (pr_item p) (map (dumps p) xs) @ '']''"
| "dumps p (JObj kvs) =
     (let items = map (\<lambda>kv. (fst kv, dumps p (snd kv))) kvs
      in ''{'' @ join_with (pr_item p)
           (map (\<lambda>(k, t). quoted p k @ pr_key p @ t) (if pr_sorted p then sort_key fst items else items)) @ ''}'')"

text \<open>The printers of the program: \<open>_json\<close> sorts the keys and leaves out blanks; the recorder uses the
  defaults.\<close>

definition compact :: "(real \<Rightarrow> string) \<Rightarrow> printer" where
  "compact show = \<lparr>pr_show = show, pr_text = escape, pr_item = '','', pr_key = '':'', pr_sorted = True\<rparr>"

definition plain :: "(real \<Rightarrow> string) \<Rightarrow> printer" where
  "plain show = \<lparr>pr_show = show, pr_text = escape, pr_item = '', '', pr_key = '': '', pr_sorted = False\<rparr>"

section \<open>Reading\<close>

definition json_space :: "char \<Rightarrow> bool" where
  "json_space c \<longleftrightarrow> c \<in> {CHR '' '', CHR 0x09, CHR 0x0A, CHR 0x0D}"

definition skip_ws :: "string \<Rightarrow> string" where
  "skip_ws = dropWhile json_space"

text \<open>The text after the next token, if that is the character \<open>c\<close>.\<close>

definition expect :: "char \<Rightarrow> string \<Rightarrow> string option" where
  "expect c s = (case skip_ws s of [] \<Rightarrow> None | d # r \<Rightarrow> if d = c then Some r else None)"

definition hex_val :: "char \<Rightarrow> nat option" where
  "hex_val c =
     (if is_digit c then Some (digit_val c)
      else if 97 \<le> (of_char c :: nat) \<and> (of_char c :: nat) \<le> 102 then Some (of_char c - 87)
      else if 65 \<le> (of_char c :: nat) \<and> (of_char c :: nat) \<le> 70 then Some (of_char c - 55)
      else None)"

definition read_hex :: "string \<Rightarrow> nat option" where
  "read_hex s = (if length s = 4 then foldl (\<lambda>n c. Option.bind n (\<lambda>n. map_option (\<lambda>d. 16 * n + d) (hex_val c))) (Some 0) s else None)"

definition unescape :: "char \<Rightarrow> char option" where
  "unescape c =
     (if c \<in> {CHR 0x22, CHR 0x5C, CHR ''/''} then Some c
      else if c = CHR ''b'' then Some (CHR 0x08) else if c = CHR ''f'' then Some (CHR 0x0C)
      else if c = CHR ''n'' then Some (CHR 0x0A) else if c = CHR ''r'' then Some (CHR 0x0D)
      else if c = CHR ''t'' then Some (CHR 0x09) else None)"

text \<open>The string after its opening quote, and the text after its closing one.\<close>

fun read_string :: "string \<Rightarrow> (string \<times> string) option" where
  "read_string [] = None"
| "read_string (c # cs) =
     (if c = CHR 0x22 then Some ([], cs)
      else if (of_char c :: nat) < 32 then None
      else if c = CHR 0x5C then
        (case cs of
           [] \<Rightarrow> None
         | e # r \<Rightarrow>
             if e = CHR ''u'' then
               (case read_hex (take 4 r) of
                  None \<Rightarrow> None
                | Some n \<Rightarrow> if 256 \<le> n then None
                            else map_option (\<lambda>(t, u). (char_of n # t, u)) (read_string (drop 4 r)))
             else (case unescape e of None \<Rightarrow> None | Some d \<Rightarrow> map_option (\<lambda>(t, u). (d # t, u)) (read_string r)))
      else map_option (\<lambda>(t, u). (c # t, u)) (read_string cs))"

text \<open>The number of JSON: no leading zeros, digits on both sides of the point.\<close>

definition all_digits :: "string \<Rightarrow> bool" where
  "all_digits s \<longleftrightarrow> s \<noteq> [] \<and> list_all is_digit s"

definition json_number :: "string \<Rightarrow> bool" where
  "json_number s =
     (let t = (if s \<noteq> [] \<and> hd s = CHR ''-'' then tl s else s);
          m = takeWhile (\<lambda>c. c \<notin> {CHR ''e'', CHR ''E''}) t; x = drop (length m) t;
          i = takeWhile (\<lambda>c. c \<noteq> CHR ''.'') m; f = drop (length i) m;
          y = tl x; y = (if y \<noteq> [] \<and> hd y \<in> {CHR ''+'', CHR ''-''} then tl y else y)
      in all_digits i \<and> (hd i = CHR ''0'' \<longrightarrow> length i = 1) \<and> (f = [] \<or> all_digits (tl f)) \<and> (x = [] \<or> all_digits y))"

definition number_char :: "char \<Rightarrow> bool" where
  "number_char c \<longleftrightarrow> is_digit c \<or> c \<in> {CHR ''+'', CHR ''-'', CHR ''.'', CHR ''e'', CHR ''E''}"

definition read_number :: "string \<Rightarrow> (json \<times> string) outcome" where
  "read_number s =
     (let t = takeWhile number_char s in
      case (if json_number t then parse_float t else None) of
        None \<Rightarrow> Raise ValueError | Some x \<Rightarrow> Ret (JNum x, drop (length t) s))"

definition read_word :: "string \<Rightarrow> (json \<times> string) outcome" where
  "read_word s =
     (if startswith s ''null'' then Ret (JNull, drop 4 s)
      else if startswith s ''true'' then Ret (JBool True, drop 4 s)
      else if startswith s ''false'' then Ret (JBool False, drop 5 s)
      else read_number s)"

definition or_error :: "'a option \<Rightarrow> 'a outcome" where
  "or_error x = (case x of None \<Rightarrow> Raise ValueError | Some a \<Rightarrow> Ret a)"

text \<open>The scanner; the depth of the calls is bounded by fuel, and \<open>Hang\<close> is running out of it.  A key that
  occurs twice keeps its first place and its last value.\<close>

fun read_value :: "nat \<Rightarrow> string \<Rightarrow> (json \<times> string) outcome"
  and read_items :: "nat \<Rightarrow> string \<Rightarrow> (json list \<times> string) outcome"
  and read_members :: "nat \<Rightarrow> string \<Rightarrow> ((string \<times> json) list \<times> string) outcome" where
  "read_value 0 s = Hang"
| "read_value (Suc n) s =
     (case expect (CHR 0x22) s of
        Some r \<Rightarrow> and_then (or_error (read_string r)) (\<lambda>(t, u). Ret (JStr t, u))
      | None \<Rightarrow> (case expect (CHR ''['') s of
          Some r \<Rightarrow> (case expect (CHR '']'') r of
              Some u \<Rightarrow> Ret (JArr [], u)
            | None \<Rightarrow> and_then (read_items n r) (\<lambda>(xs, u). Ret (JArr xs, u)))
        | None \<Rightarrow> (case expect (CHR ''{'') s of
            Some r \<Rightarrow> (case expect (CHR ''}'') r of
                Some u \<Rightarrow> Ret (JObj [], u)
              | None \<Rightarrow> and_then (read_members n r) (\<lambda>(kvs, u). Ret (JObj (dict_of_list kvs), u)))
          | None \<Rightarrow> read_word (skip_ws s))))"
| "read_items 0 s = Hang"
| "read_items (Suc n) s =
     and_then (read_value n s) (\<lambda>(x, r). case expect (CHR '','') r of
         Some u \<Rightarrow> and_then (read_items n u) (\<lambda>(xs, w). Ret (x # xs, w))
       | None \<Rightarrow> and_then (or_error (expect (CHR '']'') r)) (\<lambda>u. Ret ([x], u)))"
| "read_members 0 s = Hang"
| "read_members (Suc n) s =
     and_then (or_error (Option.bind (expect (CHR 0x22) s) read_string)) (\<lambda>(k, q).
       and_then (or_error (expect (CHR '':'') q)) (\<lambda>v.
         and_then (read_value n v) (\<lambda>(x, r). case expect (CHR '','') r of
             Some u \<Rightarrow> and_then (read_members n u) (\<lambda>(kvs, w). Ret ((k, x) # kvs, w))
           | None \<Rightarrow> and_then (or_error (expect (CHR ''}'') r)) (\<lambda>u. Ret ([(k, x)], u)))))"

definition loads :: "string \<Rightarrow> json outcome" where
  "loads s = and_then (read_value (2 * length s + 1) s) (\<lambda>(x, r). if skip_ws r = [] then Ret x else Raise ValueError)"

section \<open>The helpers of the program\<close>

definition py_json :: "(real \<Rightarrow> string) \<Rightarrow> json \<Rightarrow> string" where
  "py_json show v = dumps (compact show) v"

definition load_json :: "string option \<Rightarrow> json \<Rightarrow> json" where
  "load_json s dflt =
     (if \<not> truthy s then dflt
      else case loads (the s) of Ret x \<Rightarrow> x | Raise e \<Rightarrow> dflt | Hang \<Rightarrow> dflt)"

definition jload :: "string \<Rightarrow> json" where
  "jload s = (if s \<noteq> '''' \<and> strip s \<noteq> '''' then (case loads s of Ret x \<Rightarrow> x | Raise e \<Rightarrow> JNull | Hang \<Rightarrow> JNull) else JNull)"


section \<open>Strings are read back\<close>

lemma hex_val_digit: "d < 16 \<Longrightarrow> hex_val (hex_digit d) = Some d"
proof (cases "d < 10")
  case False
  assume "d < 16"
  with False have "of_char (char_of (87 + d) :: char) = 87 + d" by simp
  with False \<open>d < 16\<close> show ?thesis by (simp add: hex_val_def hex_digit_def is_digit_def)
qed (simp add: hex_val_def hex_digit_def)

lemma of_char_less: "(of_char c :: nat) < 256"
  by (cases c) (simp add: of_char_def)

lemma high_half: "(of_char c :: nat) div 16 < 16"
  by (rule less_mult_imp_div_less) (use of_char_less [of c] in presburger)

lemma hex_digit_not: "d < 16 \<Longrightarrow> hex_val c = None \<Longrightarrow> hex_digit d \<noteq> c"
  using hex_val_digit by force

lemma read_hex_escape:
  "read_hex [CHR ''0'', CHR ''0'', hex_digit (of_char c div 16), hex_digit (of_char c mod 16)] = Some (of_char c)"
proof -
  have "hex_val (CHR ''0'') = Some 0" by (simp add: hex_val_def is_digit_def digit_val_def)
  then show ?thesis using high_half [of c] by (simp add: read_hex_def hex_val_digit)
qed

text \<open>An encoding of strings that the reader decodes.\<close>

locale string_codec =
  fixes enc :: "string \<Rightarrow> string"
  assumes read_enc: "read_string (enc s @ CHR 0x22 # r) = Some (s, r)"

lemma read_escape_char: "read_string (escape_char c @ t) = map_option (\<lambda>(s, u). (c # s, u)) (read_string t)"
proof -
  have u: "CHR ''u'' \<noteq> c" if "c \<in> {CHR 0x22, CHR 0x5C, CHR ''n'', CHR ''r'', CHR ''t'', CHR ''f'', CHR ''b''}" for c
    using that by auto
  consider "c \<in> {CHR 0x22, CHR 0x5C, CHR 0x0A, CHR 0x0D, CHR 0x09, CHR 0x0C, CHR 0x08}"
    | "c \<notin> {CHR 0x22, CHR 0x5C, CHR 0x0A, CHR 0x0D, CHR 0x09, CHR 0x0C, CHR 0x08}" "32 \<le> (of_char c :: nat) \<and> (of_char c :: nat) \<le> 126"
    | "c \<notin> {CHR 0x22, CHR 0x5C, CHR 0x0A, CHR 0x0D, CHR 0x09, CHR 0x0C, CHR 0x08}" "\<not> (32 \<le> (of_char c :: nat) \<and> (of_char c :: nat) \<le> 126)"
    by blast
  then show ?thesis
  proof cases
    case 1
    then show ?thesis by (auto simp: escape_char_def unescape_def)
  next
    case 2
    then show ?thesis by (auto simp: escape_char_def)
  next
    case 3
    then have "escape_char c = [CHR 0x5C, CHR ''u'', CHR ''0'', CHR ''0'', hex_digit (of_char c div 16), hex_digit (of_char c mod 16)]"
      by (simp add: escape_char_def)
    moreover have "\<not> 256 \<le> (of_char c :: nat)" using of_char_less [of c] by (simp only: not_le)
    ultimately show ?thesis by (simp add: read_hex_escape)
  qed
qed

interpretation escape: string_codec escape
proof
  show "read_string (escape s @ CHR 0x22 # r) = Some (s, r)" for s r
    by (induction s) (simp_all add: escape_def read_escape_char)
qed


section \<open>The fuel is enough\<close>

lemma skip_ws_le: "length (skip_ws s) \<le> length s"
  by (simp add: skip_ws_def length_dropWhile_le)

lemma expect_less: "expect c s = Some r \<Longrightarrow> length r < length s"
  using skip_ws_le [of s] by (auto simp: expect_def split: list.splits if_splits)

lemma read_string_less: "read_string s = Some (t, r) \<Longrightarrow> length r < length s"
proof (induction s arbitrary: t r rule: length_induct)
  case (1 s)
  then have ih: "\<And>s' t r. read_string s' = Some (t, r) \<Longrightarrow> length s' < length s \<Longrightarrow> length r < length s'" by blast
  show ?case
  proof (cases s)
    case (Cons c cs)
    have "length r < length cs" if "read_string (drop k cs) = Some (t', r)" for k t'
      using ih [OF that] Cons by (simp add: less_Suc_eq_le)
    with 1(2) Cons show ?thesis
      by (force split: if_splits list.splits option.splits dest: ih)
  qed (use 1(2) in simp)
qed

lemma read_number_less: "read_number s = Ret (x, r) \<Longrightarrow> length r < length s"
proof -
  assume "read_number s = Ret (x, r)"
  then have r: "r = drop (length (takeWhile number_char s)) s" and t: "json_number (takeWhile number_char s)"
    by (auto simp: read_number_def Let_def split: if_splits option.splits)
  from t have "takeWhile number_char s \<noteq> []" by (auto simp: json_number_def all_digits_def)
  then have "0 < length (takeWhile number_char s)" "s \<noteq> []" by auto
  with r show ?thesis by simp
qed

lemma read_word_less: "read_word s = Ret (x, r) \<Longrightarrow> length r < length s"
  using read_number_less [of s] by (cases s) (auto simp: read_word_def startswith_def split: if_splits)

lemma or_error_simps [simp]:
  "or_error x = Ret a \<longleftrightarrow> x = Some a" "or_error x \<noteq> Hang" "or_error (Some a) = Ret a" "or_error None = Raise ValueError"
  by (simp_all add: or_error_def split: option.split)

lemma and_then_Hang [simp]: "and_then m f = Hang \<longleftrightarrow> m = Hang \<or> (\<exists>a. m = Ret a \<and> f a = Hang)"
  by (cases m) auto

lemma read_items_Ret:
  "read_items (Suc n) s = Ret (xs, r) \<longleftrightarrow> (\<exists>x q. read_value n s = Ret (x, q) \<and>
     ((\<exists>u ys. expect (CHR '','') q = Some u \<and> read_items n u = Ret (ys, r) \<and> xs = x # ys) \<or>
      expect (CHR '','') q = None \<and> expect (CHR '']'') q = Some r \<and> xs = [x]))"
proof (cases "read_value n s")
  case (Ret xq)
  then show ?thesis by (cases xq; cases "expect (CHR '','') (snd xq)") auto
qed simp_all

lemma read_items_Hang:
  "read_items (Suc n) s = Hang \<longleftrightarrow> read_value n s = Hang \<or> (\<exists>x q u. read_value n s = Ret (x, q) \<and>
     expect (CHR '','') q = Some u \<and> read_items n u = Hang)"
proof (cases "read_value n s")
  case (Ret xq)
  then show ?thesis by (cases xq; cases "expect (CHR '','') (snd xq)") auto
qed simp_all

declare read_items.simps(2) [simp del] read_members.simps(2) [simp del]

text \<open>A key with its colon.\<close>

definition read_key :: "string \<Rightarrow> (string \<times> string) option" where
  "read_key s = Option.bind (expect (CHR 0x22) s) (\<lambda>t. Option.bind (read_string t)
     (\<lambda>(k, q). map_option (\<lambda>v. (k, v)) (expect (CHR '':'') q)))"

lemma read_key_less: "read_key s = Some (k, v) \<Longrightarrow> length v < length s"
  by (auto simp: read_key_def bind_eq_Some_conv dest!: expect_less read_string_less)

lemma read_members_Suc:
  "read_members (Suc n) s = (case read_key s of
     None \<Rightarrow> Raise ValueError
   | Some (k, v) \<Rightarrow> and_then (read_value n v) (\<lambda>(x, r). case expect (CHR '','') r of
         Some u \<Rightarrow> and_then (read_members n u) (\<lambda>(kvs, w). Ret ((k, x) # kvs, w))
       | None \<Rightarrow> and_then (or_error (expect (CHR ''}'') r)) (\<lambda>u. Ret ([(k, x)], u))))"
proof (cases "expect (CHR 0x22) s")
  case (Some t)
  show ?thesis
  proof (cases "read_string t")
    case (Some kq)
    with \<open>expect (CHR 0x22) s = Some t\<close> show ?thesis
      by (cases kq; cases "expect (CHR '':'') (snd kq)") (simp_all add: read_key_def read_members.simps(2))
  qed (simp add: read_key_def Some read_members.simps(2))
qed (simp add: read_key_def read_members.simps(2))

lemma read_members_Ret:
  "read_members (Suc n) s = Ret (kvs, r) \<longleftrightarrow> (\<exists>k v x q. read_key s = Some (k, v) \<and> read_value n v = Ret (x, q) \<and>
     ((\<exists>u l. expect (CHR '','') q = Some u \<and> read_members n u = Ret (l, r) \<and> kvs = (k, x) # l) \<or>
      expect (CHR '','') q = None \<and> expect (CHR ''}'') q = Some r \<and> kvs = [(k, x)]))"
proof (cases "read_key s")
  case (Some kv)
  show ?thesis
  proof (cases "read_value n (snd kv)")
    case (Ret xq)
    with Some show ?thesis by (cases kv; cases xq; cases "expect (CHR '','') (snd xq)") (auto simp: read_members_Suc)
  qed (cases kv; simp add: read_members_Suc Some)+
qed (simp add: read_members_Suc)

lemma read_members_Hang:
  "read_members (Suc n) s = Hang \<longleftrightarrow> (\<exists>k v. read_key s = Some (k, v) \<and> (read_value n v = Hang \<or>
     (\<exists>x q u. read_value n v = Ret (x, q) \<and> expect (CHR '','') q = Some u \<and> read_members n u = Hang)))"
proof (cases "read_key s")
  case (Some kv)
  show ?thesis
  proof (cases "read_value n (snd kv)")
    case (Ret xq)
    with Some show ?thesis by (cases kv; cases xq; cases "expect (CHR '','') (snd xq)") (auto simp: read_members_Suc)
  qed (cases kv; simp add: read_members_Suc Some)+
qed (simp add: read_members_Suc)

lemma read_less:
  "(\<forall>s x r. read_value n s = Ret (x, r) \<longrightarrow> length r < length s) \<and>
   (\<forall>s xs r. read_items n s = Ret (xs, r) \<longrightarrow> length r < length s) \<and>
   (\<forall>s kvs r. read_members n s = Ret (kvs, r) \<longrightarrow> length r < length s)"
proof (induction n)
  case (Suc n)
  then have ih: "\<And>s x r. read_value n s = Ret (x, r) \<Longrightarrow> length r < length s"
    "\<And>s xs r. read_items n s = Ret (xs, r) \<Longrightarrow> length r < length s"
    "\<And>s kvs r. read_members n s = Ret (kvs, r) \<Longrightarrow> length r < length s"
    by blast+
  have "length r < length s" if "read_value (Suc n) s = Ret (x, r)" for s x r
    using that skip_ws_le [of s]
    by (auto split: option.splits dest!: ih expect_less read_string_less read_word_less)
  moreover have "length r < length s" if "read_items (Suc n) s = Ret (xs, r)" for s xs r
    using that by (auto simp: read_items_Ret dest!: ih expect_less)
  moreover have "length r < length s" if "read_members (Suc n) s = Ret (kvs, r)" for s kvs r
    using that by (auto simp: read_members_Ret dest!: ih expect_less read_key_less)
  ultimately show ?case by blast
qed simp

lemma read_word_not_Hang: "read_word s \<noteq> Hang"
  by (simp add: read_word_def read_number_def Let_def split: option.split)

lemma read_enough:
  "(\<forall>s. 2 * length s < n \<longrightarrow> read_value n s \<noteq> Hang) \<and>
   (\<forall>s. 2 * length s + 1 < n \<longrightarrow> read_items n s \<noteq> Hang) \<and>
   (\<forall>s. 2 * length s + 1 < n \<longrightarrow> read_members n s \<noteq> Hang)"
proof (induction n)
  case (Suc n)
  then have ih: "\<And>s. read_value n s = Hang \<Longrightarrow> n \<le> 2 * length s"
    "\<And>s. read_items n s = Hang \<Longrightarrow> n \<le> 2 * length s + 1"
    "\<And>s. read_members n s = Hang \<Longrightarrow> n \<le> 2 * length s + 1"
    by (meson not_less)+
  note less = read_less [of n, THEN conjunct1, rule_format]
  have "Suc n \<le> 2 * length s" if "read_value (Suc n) s = Hang" for s
    using that by (auto split: option.splits simp: read_word_not_Hang dest!: ih(2,3) expect_less)
  moreover have "Suc n \<le> 2 * length s + 1" if "read_items (Suc n) s = Hang" for s
    using that by (auto simp: read_items_Hang dest!: ih(1,2) expect_less less)
  moreover have "Suc n \<le> 2 * length s + 1" if "read_members (Suc n) s = Hang" for s
    using that by (auto simp: read_members_Hang dest!: ih(1,3) expect_less read_key_less less)
  ultimately show ?case by (metis not_less)
qed simp

lemma read_more_Suc:
  "(\<forall>s. read_value n s \<noteq> Hang \<longrightarrow> read_value (Suc n) s = read_value n s) \<and>
   (\<forall>s. read_items n s \<noteq> Hang \<longrightarrow> read_items (Suc n) s = read_items n s) \<and>
   (\<forall>s. read_members n s \<noteq> Hang \<longrightarrow> read_members (Suc n) s = read_members n s)"
proof (induction n)
  case (Suc n)
  then have ih: "\<And>s. read_value n s \<noteq> Hang \<Longrightarrow> read_value (Suc n) s = read_value n s"
    "\<And>s. read_items n s \<noteq> Hang \<Longrightarrow> read_items (Suc n) s = read_items n s"
    "\<And>s. read_members n s \<noteq> Hang \<Longrightarrow> read_members (Suc n) s = read_members n s"
    by blast+
  have "read_value (Suc (Suc n)) s = read_value (Suc n) s" if "read_value (Suc n) s \<noteq> Hang" for s
    using that unfolding read_value.simps(2) [of "Suc n"] read_value.simps(2) [of n]
    by (auto split: option.splits simp del: read_value.simps simp: ih)
  moreover have "read_items (Suc (Suc n)) s = read_items (Suc n) s" if "read_items (Suc n) s \<noteq> Hang" for s
  proof (cases "read_value n s")
    case (Ret xq)
    with that ih(1) [of s] show ?thesis
      unfolding read_items.simps(2) [of "Suc n" s] read_items.simps(2) [of n s]
      by (cases xq; cases "expect (CHR '','') (snd xq)") (auto simp: ih simp del: read_value.simps)
  qed (use that ih(1) [of s] in \<open>simp_all add: read_items.simps(2) del: read_value.simps\<close>)
  moreover have "read_members (Suc (Suc n)) s = read_members (Suc n) s" if "read_members (Suc n) s \<noteq> Hang" for s
  proof (cases "read_key s")
    case (Some kv)
    note kv = this
    show ?thesis
    proof (cases "read_value n (snd kv)")
      case (Ret xq)
      with kv that ih(1) [of "snd kv"] show ?thesis
        unfolding read_members_Suc [of "Suc n" s] read_members_Suc [of n s]
        by (cases kv; cases xq; cases "expect (CHR '','') (snd xq)") (auto simp: ih simp del: read_value.simps)
    qed (use kv that ih(1) [of "snd kv"] in \<open>cases kv; simp add: read_members_Suc del: read_value.simps\<close>)+
  qed (simp add: read_members_Suc)
  ultimately show ?case by blast
qed simp

lemma read_more:
  assumes "read_value n s \<noteq> Hang" and "n \<le> m"
  shows "read_value m s = read_value n s"
  using assms(2)
proof (induction m rule: dec_induct)
  case (step m)
  then show ?case using assms(1) read_more_Suc [of m] by (metis)
qed simp


section \<open>What is printed is read back\<close>

lemma json_space_is_space: "json_space c \<Longrightarrow> is_space c"
  by (auto simp: json_space_def is_space_def)

lemma skip_ws_append: "list_all json_space ws \<Longrightarrow> skip_ws (ws @ s) = skip_ws s"
  by (simp add: skip_ws_def list_all_iff dropWhile_append2)

lemma expect_append: "list_all json_space ws \<Longrightarrow> expect c (ws @ s) = expect c s"
  by (simp add: expect_def skip_ws_append)

lemma read_value_append: "list_all json_space ws \<Longrightarrow> read_value n (ws @ s) = read_value n s"
  by (cases n) (simp_all only: read_value.simps expect_append skip_ws_append)

lemma expect_Cons: "\<not> json_space d \<Longrightarrow> expect c (d # r) = (if d = c then Some r else None)"
  by (simp add: expect_def skip_ws_def)

text \<open>A number ends where no character of a number follows.\<close>

definition stops :: "string \<Rightarrow> bool" where
  "stops r \<longleftrightarrow> (case r of [] \<Rightarrow> True | c # _ \<Rightarrow> \<not> number_char c)"

lemma dropWhile_head: "dropWhile P s = c # cs \<Longrightarrow> \<not> P c"
  by (simp add: dropWhile_eq_Cons_conv)

lemma json_number_chars:
  assumes "json_number t"
  shows "list_all number_char t" "t \<noteq> []" "hd t = CHR ''-'' \<or> is_digit (hd t)"
proof -
  define u where "u = (if t \<noteq> [] \<and> hd t = CHR ''-'' then tl t else t)"
  define m where "m = takeWhile (\<lambda>c. c \<notin> {CHR ''e'', CHR ''E''}) u"
  define x where "x = drop (length m) u"
  define i where "i = takeWhile (\<lambda>c. c \<noteq> CHR ''.'') m"
  define f where "f = drop (length i) m"
  define y where "y = (if tl x \<noteq> [] \<and> hd (tl x) \<in> {CHR ''+'', CHR ''-''} then tl (tl x) else tl x)"
  have n: "all_digits i" "f = [] \<or> all_digits (tl f)" "x = [] \<or> all_digits y"
    using assms unfolding json_number_def Let_def u_def [symmetric] m_def [symmetric] x_def [symmetric]
      i_def [symmetric] f_def [symmetric] y_def [symmetric] by blast+
  have x: "x = dropWhile (\<lambda>c. c \<notin> {CHR ''e'', CHR ''E''}) u" unfolding x_def m_def dropWhile_eq_drop ..
  then have u: "u = m @ x" by (simp only: m_def takeWhile_dropWhile_id)
  have f: "f = dropWhile (\<lambda>c. c \<noteq> CHR ''.'') m" unfolding f_def i_def dropWhile_eq_drop ..
  then have m: "m = i @ f" by (simp only: i_def takeWhile_dropWhile_id)
  have digits: "list_all number_char s" if "all_digits s" for s
    using that by (auto simp: all_digits_def list_all_iff number_char_def)
  have "list_all number_char f"
  proof (cases f)
    case (Cons c cs)
    then have "c = CHR ''.''" using dropWhile_head [OF f [symmetric, unfolded Cons]] by simp
    with Cons n(2) digits show ?thesis by (simp add: number_char_def)
  qed simp
  moreover have "list_all number_char x"
  proof (cases x)
    case (Cons c cs)
    then have "c \<in> {CHR ''e'', CHR ''E''}" using dropWhile_head [OF x [symmetric, unfolded Cons]] by blast
    moreover have "list_all number_char cs"
    proof (cases "cs \<noteq> [] \<and> hd cs \<in> {CHR ''+'', CHR ''-''}")
      case True
      then have "y = tl cs" unfolding y_def Cons list.sel by (rule if_P)
      with n(3) Cons have "list_all number_char (tl cs)" using digits [of y] by simp
      moreover from True have "number_char (hd cs)" by (auto simp: number_char_def)
      ultimately show ?thesis using True by (cases cs) simp_all
    next
      case False
      then have "y = cs" unfolding y_def Cons list.sel by (rule if_not_P)
      with n(3) Cons digits show ?thesis by simp
    qed
    ultimately show ?thesis using Cons by (auto simp: number_char_def)
  qed simp
  moreover have i: "list_all number_char i" "i \<noteq> []" "is_digit (hd i)"
    using n(1) digits by (auto simp: all_digits_def neq_Nil_conv)
  ultimately have "list_all number_char u" "u \<noteq> []" "is_digit (hd u)" by (simp_all add: u m)
  then show "list_all number_char t" "t \<noteq> []" "hd t = CHR ''-'' \<or> is_digit (hd t)"
    by (cases t; auto simp: u_def number_char_def split: if_splits)+
qed

lemma read_number_append:
  "json_number t \<Longrightarrow> parse_float t = Some x \<Longrightarrow> stops r \<Longrightarrow> read_number (t @ r) = Ret (JNum x, r)"
proof -
  assume t: "json_number t" "parse_float t = Some x" and "stops r"
  then have "takeWhile number_char r = []" by (cases r) (simp_all add: stops_def)
  with json_number_chars(1) [OF t(1)] have "takeWhile number_char (t @ r) = t"
    by (simp add: list_all_iff takeWhile_append2)
  with t show ?thesis by (simp add: read_number_def)
qed

text \<open>The texts that read as one value and leave the rest.\<close>

definition reads :: "string \<Rightarrow> json \<Rightarrow> string \<Rightarrow> bool" where
  "reads s x r \<longleftrightarrow> (\<exists>N. \<forall>n\<ge>N. read_value n s = Ret (x, r))"

lemma reads_stepI: "(\<And>n. read_value (Suc n) s = Ret (x, r)) \<Longrightarrow> reads s x r"
  unfolding reads_def by (rule exI [of _ 1]) (metis One_nat_def Suc_le_D)

lemma reads_Suc: "(\<And>n. N \<le> n \<Longrightarrow> read_value (Suc n) s = Ret (x, r)) \<Longrightarrow> reads s x r"
  unfolding reads_def by (rule exI [of _ "Suc N"]) (metis Suc_le_D Suc_le_mono)

lemma loads_reads: "reads s x r \<Longrightarrow> skip_ws r = [] \<Longrightarrow> loads s = Ret x"
proof -
  assume "reads s x r" and r: "skip_ws r = []"
  then obtain N where N: "\<And>n. N \<le> n \<Longrightarrow> read_value n s = Ret (x, r)" unfolding reads_def by blast
  let ?F = "2 * length s + 1"
  have "read_value ?F s \<noteq> Hang" using read_enough [of ?F] by simp
  from read_more [OF this max.cobounded1 [of ?F N]] N [OF max.cobounded2 [of N ?F]]
  show ?thesis using r by (simp add: loads_def)
qed

lemma read_word_number:
  assumes t: "json_number t" and x: "parse_float t = Some x" and r: "stops r"
  shows "reads (t @ r) (JNum x) r"
proof (rule reads_stepI)
  fix n
  note c = json_number_chars [OF t]
  then obtain a t' where a: "t = a # t'" "a = CHR ''-'' \<or> is_digit a" by (cases t) auto
  then have "\<not> json_space a" "a \<notin> {CHR 0x22, CHR ''['', CHR ''{'', CHR ''n'', CHR ''t'', CHR ''f''}"
    by (auto simp: json_space_def is_digit_def)
  moreover have "read_number (a # t' @ r) = Ret (JNum x, r)"
    using read_number_append [OF t x r] by (simp add: a)
  ultimately show "read_value (Suc n) (t @ r) = Ret (JNum x, r)"
    by (simp add: a expect_Cons skip_ws_def read_word_def startswith_def)
qed

lemma reads_words:
  "reads (''null'' @ r) JNull r" "reads (''true'' @ r) (JBool True) r" "reads (''false'' @ r) (JBool False) r"
  by (rule reads_stepI, simp add: expect_Cons json_space_def skip_ws_def read_word_def startswith_def)+


lemma token_not_space [simp]:
  "\<not> json_space (CHR 0x22)" "\<not> json_space (CHR '','')" "\<not> json_space (CHR '':'')"
  "\<not> json_space (CHR ''['')" "\<not> json_space (CHR '']'')" "\<not> json_space (CHR ''{'')" "\<not> json_space (CHR ''}'')"
  by (simp_all add: json_space_def)

lemma token_stops [simp]: "stops (CHR '','' # r)" "stops (CHR '']'' # r)" "stops (CHR ''}'' # r)"
  by (simp_all add: stops_def number_char_def is_digit_def)

lemma eventually_Suc: "(\<And>n. N \<le> n \<Longrightarrow> P (Suc n)) \<Longrightarrow> \<exists>N. \<forall>n\<ge>N. P n"
  by (rule exI [of _ "Suc N"]) (metis Suc_le_D Suc_le_mono)

text \<open>A value with the keys in the order of the text, and the values a printer can render: a number whose text is
  a number again, keys that differ.\<close>

fun ordered :: "bool \<Rightarrow> json \<Rightarrow> json" where
  "ordered b (JArr xs) = JArr (map (ordered b) xs)"
| "ordered b (JObj kvs) =
     (let items = map (\<lambda>kv. (fst kv, ordered b (snd kv))) kvs in JObj (if b then sort_key fst items else items))"
| "ordered b x = x"

fun printable :: "printer \<Rightarrow> json \<Rightarrow> bool" where
  "printable p (JNum x) \<longleftrightarrow> json_number (pr_show p x) \<and> parse_float (pr_show p x) = Some x"
| "printable p (JArr xs) \<longleftrightarrow> list_all (printable p) xs"
| "printable p (JObj kvs) \<longleftrightarrow> distinct (map fst kvs) \<and> list_all (\<lambda>kv. printable p (snd kv)) kvs"
| "printable p x \<longleftrightarrow> True"

lemma foldl_update_fresh:
  "distinct (map fst kvs) \<Longrightarrow> fst ` set d \<inter> fst ` set kvs = {} \<Longrightarrow>
     foldl (\<lambda>d (k, v). AList.update k v d) d kvs = d @ kvs"
proof (induction kvs arbitrary: d)
  case (Cons kv kvs)
  obtain k v where kv: "kv = (k, v)" by (cases kv)
  with Cons.prems have "k \<notin> fst ` set d" by auto
  then have "AList.update k v d = d @ [(k, v)]" by (induction d) auto
  moreover have "foldl (\<lambda>d (k, v). AList.update k v d) (d @ [(k, v)]) kvs = (d @ [(k, v)]) @ kvs"
    using Cons.prems kv by (intro Cons.IH) auto
  ultimately show ?case by (simp add: kv)
qed simp

lemma dict_of_list_distinct_id: "distinct (map fst kvs) \<Longrightarrow> dict_of_list kvs = kvs"
  by (simp add: dict_of_list_def foldl_update_fresh)

lemma sort_key_map: "(\<And>x. k (g x) = k' x) \<Longrightarrow> sort_key k (map g xs) = map g (sort_key k' xs)"
proof -
  assume k: "\<And>x. k (g x) = k' x"
  have "insort_key k (g x) (map g ys) = map g (insort_key k' x ys)" for x ys
    by (induction ys) (simp_all add: k)
  then show ?thesis by (induction xs) (simp_all add: sort_key_def)
qed

definition member_text :: "printer \<Rightarrow> string \<times> json \<Rightarrow> string" where
  "member_text p kv = quoted p (fst kv) @ pr_key p @ dumps p (snd kv)"

lemma dumps_JObj:
  "dumps p (JObj kvs) = ''{'' @ join_with (pr_item p)
     (map (member_text p) (if pr_sorted p then sort_key fst kvs else kvs)) @ ''}''"
proof -
  have "sort_key fst (map (\<lambda>kv. (fst kv, dumps p (snd kv))) kvs) = map (\<lambda>kv. (fst kv, dumps p (snd kv))) (sort_key fst kvs)"
    by (rule sort_key_map) simp
  then show ?thesis by (simp add: Let_def member_text_def [abs_def] o_def)
qed

lemma ordered_JObj:
  "ordered b (JObj kvs) = JObj (map (\<lambda>kv. (fst kv, ordered b (snd kv))) (if b then sort_key fst kvs else kvs))"
proof -
  have "sort_key fst (map (\<lambda>kv. (fst kv, ordered b (snd kv))) kvs) = map (\<lambda>kv. (fst kv, ordered b (snd kv))) (sort_key fst kvs)" for b
    by (rule sort_key_map) simp
  then show ?thesis by (simp add: Let_def)
qed

declare dumps.simps(6) [simp del] ordered.simps(2) [simp del]

lemma read_key_append: "list_all json_space ws \<Longrightarrow> read_key (ws @ s) = read_key s"
  by (simp only: read_key_def expect_append)

text \<open>A printer whose strings decode and whose separators are a comma and a colon with white space after
  them.\<close>

locale json_printer = string_codec "pr_text p" for p :: printer +
  assumes item: "\<exists>ws. pr_item p = CHR '','' # ws \<and> list_all json_space ws"
    and key: "\<exists>ws. pr_key p = CHR '':'' # ws \<and> list_all json_space ws"
begin

lemma reads_quoted: "reads (quoted p s @ r) (JStr s) r"
  by (rule reads_stepI) (simp add: quoted_def expect_Cons read_enc)

lemma read_key_quoted: "\<exists>ws. list_all json_space ws \<and> read_key (quoted p k @ pr_key p @ v) = Some (k, ws @ v)"
proof -
  obtain ws where "pr_key p = CHR '':'' # ws" "list_all json_space ws" using key by blast
  then show ?thesis
    by (intro exI [of _ ws]) (simp add: read_key_def quoted_def expect_Cons read_enc)
qed

lemma dumps_head: "printable p v \<Longrightarrow> \<exists>c t. dumps p v = c # t \<and> \<not> is_space c \<and> c \<noteq> CHR '']''"
proof (cases v)
  case (JNum x)
  assume "printable p v"
  with JNum have "json_number (pr_show p x)" by simp
  note c = json_number_chars [OF this]
  then show ?thesis using JNum by (cases "pr_show p x") (auto simp: is_space_def is_digit_def)
qed (auto simp: quoted_def dumps_JObj is_space_def)

lemma read_items_join:
  assumes "xs \<noteq> []" and "\<And>x r. x \<in> set xs \<Longrightarrow> stops r \<Longrightarrow> reads (dumps p x @ r) (g x) r"
    and "list_all json_space ws"
  shows "\<exists>N. \<forall>n\<ge>N. read_items n (ws @ join_with (pr_item p) (map (dumps p) xs) @ CHR '']'' # r) = Ret (map g xs, r)"
  using assms
proof (induction xs arbitrary: ws rule: list_nonempty_induct)
  case (single x)
  from single.prems(1) obtain N where N: "\<And>n. N \<le> n \<Longrightarrow> read_value n (dumps p x @ CHR '']'' # r) = Ret (g x, CHR '']'' # r)"
    unfolding reads_def by fastforce
  have "read_items (Suc n) (ws @ join_with (pr_item p) (map (dumps p) [x]) @ CHR '']'' # r) = Ret (map g [x], r)" if "N \<le> n" for n
    using N [OF that] single.prems(2) by (simp add: read_items_Ret read_value_append expect_Cons)
  then show ?case by (rule eventually_Suc)
next
  case (cons x xs)
  obtain ws' where sep: "pr_item p = CHR '','' # ws'" "list_all json_space ws'" using item by blast
  let ?rest = "join_with (pr_item p) (map (dumps p) xs) @ CHR '']'' # r"
  from cons.prems(1) obtain N where
    N: "\<And>n. N \<le> n \<Longrightarrow> read_value n (dumps p x @ CHR '','' # ws' @ ?rest) = Ret (g x, CHR '','' # ws' @ ?rest)"
    unfolding reads_def by fastforce
  obtain M where M: "\<And>n. M \<le> n \<Longrightarrow> read_items n (ws' @ ?rest) = Ret (map g xs, r)"
    using cons.IH [OF _ sep(2)] cons.prems(1) by auto
  have flat: "join_with (pr_item p) (map (dumps p) (x # xs)) @ CHR '']'' # r = dumps p x @ CHR '','' # ws' @ ?rest"
    using cons.hyps sep(1) by (cases xs) simp_all
  have "read_items (Suc n) (ws @ join_with (pr_item p) (map (dumps p) (x # xs)) @ CHR '']'' # r) = Ret (map g (x # xs), r)"
    if "max N M \<le> n" for n
    unfolding flat using N [of n] M [of n] that cons.prems(2)
    by (simp add: read_items_Ret read_value_append expect_Cons)
  then show ?case by (rule eventually_Suc)
qed

lemma read_members_join:
  assumes "kvs \<noteq> []" and "\<And>kv r. kv \<in> set kvs \<Longrightarrow> stops r \<Longrightarrow> reads (dumps p (snd kv) @ r) (g (snd kv)) r"
    and "list_all json_space ws"
  shows "\<exists>N. \<forall>n\<ge>N. read_members n (ws @ join_with (pr_item p) (map (member_text p) kvs) @ CHR ''}'' # r) =
    Ret (map (\<lambda>kv. (fst kv, g (snd kv))) kvs, r)"
  using assms
proof (induction kvs arbitrary: ws rule: list_nonempty_induct)
  case (single kv)
  from single.prems(1) obtain N where
    N: "\<And>n. N \<le> n \<Longrightarrow> read_value n (dumps p (snd kv) @ CHR ''}'' # r) = Ret (g (snd kv), CHR ''}'' # r)"
    unfolding reads_def by fastforce
  obtain kws where k: "list_all json_space kws"
    "read_key (member_text p kv @ CHR ''}'' # r) = Some (fst kv, kws @ dumps p (snd kv) @ CHR ''}'' # r)"
    using read_key_quoted [of "fst kv" "dumps p (snd kv) @ CHR ''}'' # r"] by (auto simp: member_text_def)
  have "read_members (Suc n) (ws @ join_with (pr_item p) (map (member_text p) [kv]) @ CHR ''}'' # r) =
      Ret (map (\<lambda>kv. (fst kv, g (snd kv))) [kv], r)" if "N \<le> n" for n
    using N [OF that] k single.prems(2)
    by (simp add: read_members_Ret read_key_append read_value_append expect_Cons)
  then show ?case by (rule eventually_Suc)
next
  case (cons kv kvs)
  obtain ws' where sep: "pr_item p = CHR '','' # ws'" "list_all json_space ws'" using item by blast
  let ?rest = "join_with (pr_item p) (map (member_text p) kvs) @ CHR ''}'' # r"
  let ?r = "CHR '','' # ws' @ ?rest"
  from cons.prems(1) obtain N where
    N: "\<And>n. N \<le> n \<Longrightarrow> read_value n (dumps p (snd kv) @ ?r) = Ret (g (snd kv), ?r)"
    unfolding reads_def by fastforce
  obtain M where M: "\<And>n. M \<le> n \<Longrightarrow> read_members n (ws' @ ?rest) = Ret (map (\<lambda>kv. (fst kv, g (snd kv))) kvs, r)"
    using cons.IH [OF _ sep(2)] cons.prems(1) by auto
  obtain kws where k: "list_all json_space kws" "read_key (member_text p kv @ ?r) = Some (fst kv, kws @ dumps p (snd kv) @ ?r)"
    using read_key_quoted [of "fst kv" "dumps p (snd kv) @ ?r"] by (auto simp: member_text_def)
  have flat: "join_with (pr_item p) (map (member_text p) (kv # kvs)) @ CHR ''}'' # r = member_text p kv @ ?r"
    using cons.hyps sep(1) by (cases kvs) simp_all
  have "read_members (Suc n) (ws @ join_with (pr_item p) (map (member_text p) (kv # kvs)) @ CHR ''}'' # r) =
      Ret (map (\<lambda>kv. (fst kv, g (snd kv))) (kv # kvs), r)" if "max N M \<le> n" for n
    unfolding flat using N [of n] M [of n] k that cons.prems(2)
    by (simp add: read_members_Ret read_key_append read_value_append expect_Cons)
  then show ?case by (rule eventually_Suc)
qed

end


context json_printer
begin

lemma reads_dumps: "printable p v \<Longrightarrow> stops r \<Longrightarrow> reads (dumps p v @ r) (ordered (pr_sorted p) v) r"
proof (induction v arbitrary: r)
  case (JNum x)
  then show ?case using read_word_number by simp
next
  case (JBool b)
  show ?case using reads_words by simp
next
  case JNull
  show ?case using reads_words by simp
next
  case (JStr s)
  show ?case using reads_quoted by simp
next
  case (JArr xs)
  show ?case
  proof (cases "xs = []")
    case True
    show ?thesis by (rule reads_stepI) (simp add: True expect_Cons)
  next
    case False
    have elems: "reads (dumps p x @ r') (ordered (pr_sorted p) x) r'" if "x \<in> set xs" "stops r'" for x r'
      using JArr.IH [OF that(1) _ that(2)] JArr.prems(1) that(1) by (simp add: list_all_iff)
    let ?t = "join_with (pr_item p) (map (dumps p) xs) @ CHR '']'' # r"
    obtain N where N: "\<And>n. N \<le> n \<Longrightarrow> read_items n ?t = Ret (map (ordered (pr_sorted p)) xs, r)"
      using read_items_join [OF False elems, of "[]"] by auto
    obtain c t where ct: "?t = c # t" "\<not> is_space c" "c \<noteq> CHR '']''"
      using False JArr.prems(1) dumps_head [of "hd xs"] by (cases xs; cases "tl xs") auto
    from ct(2) have "\<not> json_space c" using json_space_is_space by blast
    with ct have "expect (CHR '']'') ?t = None" by (simp add: expect_Cons)
    then show ?thesis by (intro reads_Suc [of N]) (simp add: expect_Cons N)
  qed
next
  case (JObj kvs)
  define l where "l = (if pr_sorted p then sort_key fst kvs else kvs)"
  have l: "set l = set kvs" "distinct (map fst l)" using JObj.prems(1) by (auto simp: l_def)
  have vals: "reads (dumps p (snd kv) @ r') (ordered (pr_sorted p) (snd kv)) r'" if "kv \<in> set l" "stops r'" for kv r'
    using JObj.IH [of kv "snd kv"] JObj.prems(1) that l(1) by (auto simp: list_all_iff snds.simps)
  have d: "dumps p (JObj kvs) @ r = CHR ''{'' # join_with (pr_item p) (map (member_text p) l) @ CHR ''}'' # r"
    by (simp add: dumps_JObj l_def)
  let ?kvs = "map (\<lambda>kv. (fst kv, ordered (pr_sorted p) (snd kv))) l"
  have o: "ordered (pr_sorted p) (JObj kvs) = JObj ?kvs" by (simp add: ordered_JObj l_def)
  show ?case
  proof (cases "l = []")
    case True
    show ?thesis unfolding d o by (rule reads_stepI) (simp add: True expect_Cons)
  next
    case False
    let ?t = "join_with (pr_item p) (map (member_text p) l) @ CHR ''}'' # r"
    obtain N where N: "\<And>n. N \<le> n \<Longrightarrow> read_members n ?t = Ret (?kvs, r)"
      using read_members_join [OF False vals, of "[]"] by auto
    have "expect (CHR ''}'') ?t = None"
      using False by (cases l; cases "tl l") (simp_all add: member_text_def quoted_def expect_Cons)
    moreover have "dict_of_list ?kvs = ?kvs" using l(2) by (intro dict_of_list_distinct_id) (simp add: o_def)
    ultimately show ?thesis unfolding d o by (intro reads_Suc [of N]) (simp add: expect_Cons N)
  qed
qed

lemma loads_dumps_space:
  assumes "printable p v" and "list_all json_space ws"
  shows "loads (dumps p v @ ws) = Ret (ordered (pr_sorted p) v)"
proof -
  have "stops ws" using assms(2) by (cases ws) (auto simp: stops_def json_space_def number_char_def is_digit_def)
  moreover have "skip_ws ws = []" using skip_ws_append [OF assms(2), of "[]"] by (simp add: skip_ws_def)
  ultimately show ?thesis using loads_reads [OF reads_dumps [OF assms(1)]] by simp
qed

lemma loads_dumps: "printable p v \<Longrightarrow> loads (dumps p v) = Ret (ordered (pr_sorted p) v)"
  using loads_dumps_space [of v "[]"] by simp

end

interpretation compact: json_printer "compact show" for "show"
  by unfold_locales (simp_all add: compact_def escape.read_enc)

interpretation plain: json_printer "plain show" for "show"
  by unfold_locales (simp_all add: plain_def escape.read_enc json_space_def)


section \<open>The helpers\<close>

lemma ordered_False [simp]: "ordered False v = v"
proof (induction v)
  case (JArr xs)
  then show ?case by (simp add: map_idI)
next
  case (JObj kvs)
  have "(fst kv, ordered False (snd kv)) = kv" if "kv \<in> set kvs" for kv
    using JObj.IH [OF that, of "snd kv"] by (cases kv) (simp add: snds.simps)
  then have "map (\<lambda>kv. (fst kv, ordered False (snd kv))) kvs = kvs" by (simp add: map_idI)
  then show ?case by (simp add: ordered_JObj)
qed simp_all

lemma dumps_not_Nil: "json_printer p \<Longrightarrow> printable p v \<Longrightarrow> dumps p v \<noteq> []"
  using json_printer.dumps_head by fastforce

text \<open>What the memory stored it loads, with the keys in order; an unreadable or missing text is the default.\<close>

lemma load_json_py_json:
  assumes "printable (compact show) v"
  shows "load_json (Some (py_json show v)) dflt = ordered True v"
proof -
  have "pr_sorted (compact show)" by (simp add: compact_def)
  then show ?thesis
    using compact.loads_dumps [OF assms] dumps_not_Nil [OF compact.json_printer_axioms assms]
    by (simp add: load_json_def py_json_def truthy_def)
qed

lemma load_json_default:
  "load_json None dflt = dflt" "load_json (Some '''') dflt = dflt"
  "(\<nexists>v. loads s = Ret v) \<Longrightarrow> load_json (Some s) dflt = dflt"
  by (auto simp: load_json_def truthy_def split: outcome.splits)

lemma loads_not_Hang: "loads s \<noteq> Hang"
  using read_enough [of "2 * length s + 1"] by (auto simp: loads_def split: prod.split)

text \<open>The stored text does not depend on the order in which a dictionary was filled.\<close>

lemma py_json_canonical:
  assumes "distinct (map fst kvs)" and "mset kvs = mset kvs'"
  shows "py_json show (JObj kvs) = py_json show (JObj kvs')"
proof -
  have "distinct (map fst kvs')"
    using assms by (metis mset_map mset_eq_imp_distinct_iff)
  have inj: "inj_on fst (set kvs)" using assms(1) by (simp add: distinct_map)
  have "sort_key fst kvs' = sort_key fst kvs"
  proof (rule properties_for_sort_key)
    show "mset (sort_key fst kvs) = mset kvs'" using assms(2) by simp
    show "filter (\<lambda>x. fst k = fst x) (sort_key fst kvs) = filter (\<lambda>x. fst k = fst x) kvs'"
      if "k \<in> set (sort_key fst kvs)" for k
    proof -
      from that have k: "k \<in> set kvs" "k \<in> set kvs'" using assms(2) by (simp_all flip: set_mset_mset)
      have single: "filter (\<lambda>x. fst k = fst x) l = [k]" if "distinct (map fst l)" "k \<in> set l" for l
        using that
      proof (induction l)
        case (Cons x l)
          show ?case
          proof (cases "x = k")
            case True
            with Cons.prems show ?thesis by (auto simp: filter_empty_conv)
          next
            case False
            with Cons.prems(2) have "k \<in> set l" by simp
            moreover from this have "fst k \<in> fst ` set l" by (rule imageI)
            moreover from Cons.prems(1) have "fst x \<notin> fst ` set l" by simp
            ultimately have "fst k \<noteq> fst x" "k \<in> set l" by metis+
            then show ?thesis using Cons by simp
          qed
      qed simp
      have "distinct (map fst (sort_key fst kvs))" using assms(1) by simp
      with single k \<open>distinct (map fst kvs')\<close> show ?thesis by simp
    qed
  qed simp
  then show ?thesis by (simp add: py_json_def dumps_JObj compact_def)
qed


section \<open>A printer of numbers\<close>

lemma read_digits_snoc: "d < 10 \<Longrightarrow> read_digits (s @ [digit d]) = 10 * read_digits s + d"
  by (simp add: read_digits_def)

lemma show_nat_leading: "hd (show_nat q) = CHR ''0'' \<Longrightarrow> length (show_nat q) = 1"
proof -
  have zero: "n = 0" if "digit n = CHR ''0''" "n < 10" for n
    using digit_val_digit [OF that(2)] by (simp add: that(1) digit_val_def)
  have "0 < n \<Longrightarrow> hd (show_nat n) \<noteq> CHR ''0''" for n
  proof (induction n rule: show_nat.induct)
    case (1 n)
    then show ?case using zero [of n] by (cases "n < 10") (auto simp: show_nat.simps [of n])
  qed
  moreover assume "hd (show_nat q) = CHR ''0''"
  ultimately have "q = 0" by blast
  then show ?thesis by (simp add: show_nat.simps)
qed

lemma decimal_text:
  assumes "list_all is_digit d" "d \<noteq> []"
  shows "json_number (show_nat q @ CHR ''.'' # d)"
    and "parse_float (show_nat q @ CHR ''.'' # d) = Some (real (read_digits (show_nat q @ d)) / 10 ^ length d)"
proof -
  let ?a = "show_nat q"
  obtain c a where a: "?a = c # a" by (cases ?a) simp_all
  have digits: "list_all is_digit ?a" by (rule show_nat_digits)
  have c: "c \<noteq> CHR ''-''" "c \<noteq> CHR ''+''" using digits digit_not_sep by (auto simp: a)
  have free: "x \<notin> {CHR ''e'', CHR ''E''}" if "x \<in> set (?a @ CHR ''.'' # d)" for x
    using that digits assms(1) digit_not_sep by (auto simp: list_all_iff)
  have whole: "takeWhile (\<lambda>c. c \<notin> {CHR ''e'', CHR ''E''}) (?a @ CHR ''.'' # d) = ?a @ CHR ''.'' # d"
    by (rule takeWhile_eq_all_conv [THEN iffD2]) (use free in blast)
  have i: "takeWhile (\<lambda>c. c \<noteq> CHR ''.'') (?a @ CHR ''.'' # d) = ?a"
    using digits digit_not_sep by (subst takeWhile_append2) (auto simp: list_all_iff)
  have t: "(if ?a @ CHR ''.'' # d \<noteq> [] \<and> hd (?a @ CHR ''.'' # d) = CHR ''-'' then tl (?a @ CHR ''.'' # d)
      else ?a @ CHR ''.'' # d) = ?a @ CHR ''.'' # d"
    using c by (simp add: a)
  show "json_number (?a @ CHR ''.'' # d)"
    unfolding json_number_def t Let_def whole i using digits assms show_nat_leading [of q]
    by (simp add: all_digits_def)
  have split: "split_on CHR ''.'' (?a @ CHR ''.'' # d) = [?a, d]"
  proof -
    have "CHR ''.'' \<notin> set ?a" "CHR ''.'' \<notin> set d"
      using digits assms(1) digit_not_sep by (auto simp: list_all_iff)
    then show ?thesis by (simp add: split_on_append)
  qed
  have "parse_mantissa (?a @ CHR ''.'' # d) = Some (real (read_digits (?a @ d)) / 10 ^ length d)"
    unfolding parse_mantissa_def split using digits assms by (simp add: parse_nat_def)
  moreover define s where "s = ?a @ CHR ''.'' # d"
  ultimately have m: "parse_mantissa s = Some (real (read_digits (?a @ d)) / 10 ^ length d)" by simp
  have "signed s = (1, s)" using c by (simp add: a signed_def s_def)
  moreover have "map (\<lambda>c. if c = CHR ''E'' then CHR ''e'' else c) s = s"
    using free by (intro map_idI) (simp add: s_def)
  moreover have "split_on CHR ''e'' s = [s]" unfolding s_def by (rule split_on_free) (use free in blast)
  ultimately have "parse_float s = Some (real (read_digits (?a @ d)) / 10 ^ length d)"
    unfolding parse_float_def by (simp only: Let_def prod.case list.case m option.map mult_1_left)
  then show "parse_float (?a @ CHR ''.'' # d) = Some (real (read_digits (?a @ d)) / 10 ^ length d)"
    by (simp only: s_def)
qed

lemma show_round2_readable:
  "json_number (show_round2 (real k / 100)) \<and> parse_float (show_round2 (real k / 100)) = Some (real k / 100)"
proof -
  define q u v where "q = k div 100" and "u = k mod 100 div 10" and "v = k mod 100 mod 10"
  have uv: "u < 10" "v < 10" by (simp_all add: u_def v_def)
  have k: "k = 100 * q + (10 * u + v)"
    unfolding q_def u_def v_def by (simp only: mult_div_mod_eq)
  define d where "d = (if v = 0 then [digit u] else [digit u, digit v])"
  have "round_half_even (real k / 100 * 100) = int k" using round_half_even_of_int [of "int k"] by simp
  then have printed: "show_round2 (real k / 100) = show_nat q @ CHR ''.'' # d"
    by (simp add: show_round2_def Let_def d_def q_def u_def v_def)
  have d: "list_all is_digit d" "d \<noteq> []" using uv by (auto simp: d_def)
  have "real (read_digits (show_nat q @ d)) / 10 ^ length d = real k / 100"
  proof (cases "v = 0")
    case True
    then show ?thesis using uv read_digits_snoc [of u "show_nat q"] by (simp add: d_def read_show_nat k)
  next
    case False
    have "read_digits ((show_nat q @ [digit u]) @ [digit v]) = 100 * q + 10 * u + v"
      using uv by (simp add: read_digits_snoc read_show_nat del: append_assoc)
    with False show ?thesis by (simp add: d_def k)
  qed
  with decimal_text [OF d, of q] show ?thesis by (simp add: printed)
qed

end
