(* ===== verification/Array_Lib.thy ===== *)
theory Array_Lib
  imports Prelude
begin

text \<open>
  The numeric packages the engine calls (numpy and scipy.stats are not part of the repository).
  Their statistics are a parameter of the model, a record \<open>numlib\<close> every definition that uses
  one takes as its argument \<open>np\<close>; the locale \<open>numeric_library\<close> states the documented
  behaviour the engine relies on.  The elementwise array operations (slices, differences,
  \<open>np.abs\<close>, \<open>np.max\<close> on a non-empty array) are plain list operations.

  \<open>ref_np\<close> is a concrete instance (textbook formulas) that satisfies the interface; the
  witnesses evaluate the model with it.

  A statistic that can be NaN returns an option, with \<open>None\<close> for NaN: every ordered
  comparison with NaN is false (\<open>nan_less\<close>).
\<close>

type_synonym vec = "real list"

record numlib =
  np_mean :: "vec \<Rightarrow> real"
  np_std :: "vec \<Rightarrow> real"
  np_median :: "vec \<Rightarrow> real"
  np_percentile :: "vec \<Rightarrow> real \<Rightarrow> real"
  np_polyfit :: "vec \<Rightarrow> vec \<Rightarrow> real \<times> real"
  np_corrcoef :: "vec \<Rightarrow> vec \<Rightarrow> real option"
  st_skew :: "vec \<Rightarrow> real option"
  st_pearsonr :: "vec \<Rightarrow> vec \<Rightarrow> real option"
  st_spearmanr :: "vec \<Rightarrow> vec \<Rightarrow> real option"

definition nan_less :: "real option \<Rightarrow> real \<Rightarrow> bool" where
  "nan_less x y = (case x of None \<Rightarrow> False | Some v \<Rightarrow> v < y)"

definition nan_abs_greater :: "real option \<Rightarrow> real \<Rightarrow> bool" where
  "nan_abs_greater x y = (case x of None \<Rightarrow> False | Some v \<Rightarrow> \<bar>v\<bar> > y)"

text \<open>\<open>np.arange(n, dtype=float)\<close>, and \<open>np.max\<close>, \<open>np.min\<close> of a non-empty array.\<close>

definition arange :: "nat \<Rightarrow> vec" where
  "arange n = map real [0..<n]"

fun arr_max :: "vec \<Rightarrow> real" where
  "arr_max [x] = x"
| "arr_max (x # y # xs) = max x (arr_max (y # xs))"

fun arr_min :: "vec \<Rightarrow> real" where
  "arr_min [x] = x"
| "arr_min (x # y # xs) = min x (arr_min (y # xs))"

lemma length_arange [simp]: "length (arange n) = n"
  by (simp add: arange_def)

lemma arr_max_mem: "xs \<noteq> [] \<Longrightarrow> arr_max xs \<in> set xs"
  by (induction xs rule: arr_max.induct) (auto simp: max_def)

lemma arr_max_ge: "x \<in> set xs \<Longrightarrow> x \<le> arr_max xs"
  by (induction xs rule: arr_max.induct) (auto simp: max_def)

lemma arr_min_mem: "xs \<noteq> [] \<Longrightarrow> arr_min xs \<in> set xs"
  by (induction xs rule: arr_min.induct) (auto simp: min_def)

lemma arr_min_le: "x \<in> set xs \<Longrightarrow> arr_min xs \<le> x"
  by (induction xs rule: arr_min.induct) (auto simp: min_def)

section \<open>The interface\<close>

locale numeric_library =
  fixes np :: numlib
  assumes median_ge: "xs \<noteq> [] \<Longrightarrow> \<forall>x \<in> set xs. lo \<le> x \<Longrightarrow> lo \<le> np_median np xs"
    and median_le: "xs \<noteq> [] \<Longrightarrow> \<forall>x \<in> set xs. x \<le> hi \<Longrightarrow> np_median np xs \<le> hi"
    and percentile_ge:
      "xs \<noteq> [] \<Longrightarrow> 0 \<le> q \<Longrightarrow> q \<le> 100 \<Longrightarrow> \<forall>x \<in> set xs. lo \<le> x \<Longrightarrow> lo \<le> np_percentile np xs q"
    and percentile_le:
      "xs \<noteq> [] \<Longrightarrow> 0 \<le> q \<Longrightarrow> q \<le> 100 \<Longrightarrow> \<forall>x \<in> set xs. x \<le> hi \<Longrightarrow> np_percentile np xs q \<le> hi"
    and pearson_range: "st_pearsonr np a b = Some r \<Longrightarrow> \<bar>r\<bar> \<le> 1"
    and spearman_range: "st_spearmanr np a b = Some r \<Longrightarrow> \<bar>r\<bar> \<le> 1"
    and polyfit_line:
      "2 \<le> n \<Longrightarrow> np_polyfit np (arange n) (map (\<lambda>i. c + m * real i) [0..<n]) = (m, c)"
    and corrcoef_line:
      "2 \<le> n \<Longrightarrow> 0 < m \<Longrightarrow>
         np_corrcoef np (arange n) (map (\<lambda>i. c + m * real i) [0..<n]) = Some 1"
begin

lemma median_const: "0 < n \<Longrightarrow> np_median np (replicate n c) = c"
  by (rule antisym) (auto intro!: median_ge median_le)

lemma percentile_const:
  "0 < n \<Longrightarrow> 0 \<le> q \<Longrightarrow> q \<le> 100 \<Longrightarrow> np_percentile np (replicate n c) q = c"
  by (rule antisym) (auto intro!: percentile_ge percentile_le)

lemma median_nonneg: "xs \<noteq> [] \<Longrightarrow> \<forall>x \<in> set xs. 0 \<le> x \<Longrightarrow> 0 \<le> np_median np xs"
  by (rule median_ge)

lemma mad_nonneg: "xs \<noteq> [] \<Longrightarrow> 0 \<le> np_median np (map (\<lambda>x. \<bar>x - c\<bar>) xs)"
  by (rule median_ge) auto

end

section \<open>A concrete instance\<close>

definition ref_mean :: "vec \<Rightarrow> real" where
  "ref_mean xs = sum_list xs / real (length xs)"

definition ref_dev :: "vec \<Rightarrow> vec" where
  "ref_dev xs = map (\<lambda>x. x - ref_mean xs) xs"

fun dot :: "vec \<Rightarrow> vec \<Rightarrow> real" where
  "dot (x # xs) (y # ys) = x * y + dot xs ys"
| "dot _ _ = 0"

definition ref_median :: "vec \<Rightarrow> real" where
  "ref_median xs =
     (let s = sort xs; n = length xs
      in if odd n then s ! (n div 2) else (s ! (n div 2 - 1) + s ! (n div 2)) / 2)"

definition ref_percentile :: "vec \<Rightarrow> real \<Rightarrow> real" where
  "ref_percentile xs q =
     (let s = sort xs; h = real (length xs - 1) * q / 100; i = nat \<lfloor>h\<rfloor>; f = h - of_int \<lfloor>h\<rfloor>
      in (1 - f) * s ! i + f * s ! min (i + 1) (length xs - 1))"

definition ref_corr :: "vec \<Rightarrow> vec \<Rightarrow> real option" where
  "ref_corr a b =
     (let da = ref_dev a; db = ref_dev b
      in if dot da da = 0 \<or> dot db db = 0 then None
         else Some (dot da db / (sqrt (dot da da) * sqrt (dot db db))))"

definition ref_rank :: "vec \<Rightarrow> vec" where
  "ref_rank xs = map (\<lambda>x. real (length (filter (\<lambda>y. y < x) xs))
      + (real (length (filter (\<lambda>y. y = x) xs)) + 1) / 2) xs"

definition ref_polyfit :: "vec \<Rightarrow> vec \<Rightarrow> real \<times> real" where
  "ref_polyfit t y =
     (let m = dot (ref_dev t) (ref_dev y) / dot (ref_dev t) (ref_dev t)
      in (m, ref_mean y - m * ref_mean t))"

definition ref_skew :: "vec \<Rightarrow> real option" where
  "ref_skew xs =
     (let d = ref_dev xs; m2 = dot d d / real (length xs);
          m3 = dot d (map (\<lambda>x. x * x) d) / real (length xs)
      in if m2 = 0 then None else Some (m3 / (m2 * sqrt m2)))"

definition ref_np :: numlib where
  "ref_np = \<lparr>np_mean = ref_mean,
     np_std = (\<lambda>xs. sqrt (dot (ref_dev xs) (ref_dev xs) / real (length xs))),
     np_median = ref_median, np_percentile = ref_percentile, np_polyfit = ref_polyfit,
     np_corrcoef = ref_corr, st_skew = ref_skew, st_pearsonr = ref_corr,
     st_spearmanr = (\<lambda>a b. ref_corr (ref_rank a) (ref_rank b))\<rparr>"

lemma dot_self_nonneg: "0 \<le> dot xs xs"
  by (induction xs) auto

lemma dot_self_0: "dot xs xs = 0 \<Longrightarrow> x \<in> set xs \<Longrightarrow> x = 0"
proof (induction xs)
  case (Cons y ys)
  from Cons.prems(1) have "y * y = 0 \<and> dot ys ys = 0"
    using add_nonneg_eq_0_iff [of "y * y" "dot ys ys"] by (simp add: dot_self_nonneg)
  with Cons show ?case by auto
qed simp

lemma dot_scale: "dot xs (map (\<lambda>x. m * x) ys) = m * dot xs ys"
  by (induction xs ys rule: dot.induct) (auto simp: algebra_simps)

lemma dot_scale_left: "dot (map (\<lambda>x. m * x) xs) ys = m * dot xs ys"
  by (induction xs ys rule: dot.induct) (auto simp: algebra_simps)

text \<open>Cauchy-Schwarz for \<open>dot\<close>, by induction: the step is \<open>2abS \<le> a\<^sup>2B + b\<^sup>2A\<close>.\<close>

lemma dot_cauchy_schwarz: "\<bar>dot xs ys\<bar> \<le> sqrt (dot xs xs) * sqrt (dot ys ys)"
proof (induction xs ys rule: dot.induct)
  case (1 x xs y ys)
  define A B where "A = sqrt (dot xs xs)" and "B = sqrt (dot ys ys)"
  have nn: "0 \<le> A" "0 \<le> B" by (simp_all add: A_def B_def dot_self_nonneg)
  have sq: "A\<^sup>2 = dot xs xs" "B\<^sup>2 = dot ys ys" by (simp_all add: A_def B_def dot_self_nonneg)
  note prod_le = real_le_rsqrt [of "\<bar>x\<bar> * \<bar>y\<bar> + A * B"]
  have "(\<bar>x\<bar> * \<bar>y\<bar> + A * B)\<^sup>2 \<le> (x\<^sup>2 + A\<^sup>2) * (y\<^sup>2 + B\<^sup>2)"
  proof -
    have "0 \<le> (\<bar>x\<bar> * B - \<bar>y\<bar> * A)\<^sup>2" by simp
    then show ?thesis by (simp add: power2_eq_square algebra_simps)
  qed
  then have "\<bar>x\<bar> * \<bar>y\<bar> + A * B \<le> sqrt ((x\<^sup>2 + dot xs xs) * (y\<^sup>2 + dot ys ys))"
    unfolding sq by (rule prod_le)
  moreover have "\<bar>x * y + dot xs ys\<bar> \<le> \<bar>x\<bar> * \<bar>y\<bar> + A * B"
    using 1 abs_triangle_ineq [of "x * y" "dot xs ys"] by (simp add: A_def B_def abs_mult)
  ultimately show ?case by (simp add: real_sqrt_mult power2_eq_square)
qed (auto simp: dot_self_nonneg)

lemma ref_corr_range: "ref_corr a b = Some r \<Longrightarrow> \<bar>r\<bar> \<le> 1"
proof -
  assume r: "ref_corr a b = Some r"
  let ?p = "sqrt (dot (ref_dev a) (ref_dev a)) * sqrt (dot (ref_dev b) (ref_dev b))"
  from r have nz: "0 < ?p" and req: "r = dot (ref_dev a) (ref_dev b) / ?p"
    using dot_self_nonneg [of "ref_dev a"] dot_self_nonneg [of "ref_dev b"]
    by (auto simp: ref_corr_def Let_def split: if_splits)
  from nz show ?thesis
    using dot_cauchy_schwarz [of "ref_dev a" "ref_dev b"] by (simp add: req pos_divide_le_eq)
qed

lemma ref_median_mem_bounds:
  assumes "xs \<noteq> []" and "P = (\<lambda>x. lo \<le> x) \<or> P = (\<lambda>x. x \<le> hi)" and "\<forall>x \<in> set xs. P x"
  shows "P (ref_median xs)"
proof -
  have mem: "i < length xs \<Longrightarrow> sort xs ! i \<in> set xs" for i
    by (metis length_sort nth_mem set_sort)
  from assms(1) have l: "length xs div 2 < length xs" "length xs div 2 - 1 < length xs"
    by (cases xs; simp)+
  from assms(3) mem [OF l(1)] mem [OF l(2)]
  have P: "P (sort xs ! (length xs div 2))" "P (sort xs ! (length xs div 2 - 1))" by auto
  from assms(2) P show ?thesis by (auto simp: ref_median_def Let_def)
qed

lemma convex_ge: "0 \<le> f \<Longrightarrow> f \<le> 1 \<Longrightarrow> lo \<le> a \<Longrightarrow> lo \<le> b \<Longrightarrow> lo \<le> (1 - f) * a + f * (b::real)"
proof -
  assume "0 \<le> f" "f \<le> 1" "lo \<le> a" "lo \<le> b"
  then have "(1 - f) * lo + f * lo \<le> (1 - f) * a + f * b"
    by (intro add_mono mult_left_mono) auto
  then show ?thesis by (simp add: algebra_simps)
qed

lemma convex_le: "0 \<le> f \<Longrightarrow> f \<le> 1 \<Longrightarrow> a \<le> hi \<Longrightarrow> b \<le> hi \<Longrightarrow> (1 - f) * a + f * (b::real) \<le> hi"
  using convex_ge [of f "- hi" "- a" "- b"] by simp

lemma ref_percentile_bounds:
  assumes "xs \<noteq> []" "0 \<le> q" "q \<le> 100"
  shows "\<forall>x \<in> set xs. lo \<le> x \<Longrightarrow> lo \<le> ref_percentile xs q"
    and "\<forall>x \<in> set xs. x \<le> hi \<Longrightarrow> ref_percentile xs q \<le> hi"
proof -
  define h i f where "h = real (length xs - 1) * q / 100" and "i = nat \<lfloor>h\<rfloor>"
    and "f = h - of_int \<lfloor>h\<rfloor>"
  from assms(3) have "real (length xs - 1) * (q / 100) \<le> real (length xs - 1) * 1"
    by (intro mult_left_mono) auto
  then have h: "0 \<le> h" "h \<le> real (length xs - 1)"
    using assms by (simp_all add: h_def)
  from assms(1) have n: "0 < length xs" by simp
  from h have "nat \<lfloor>h\<rfloor> \<le> length xs - 1" by linarith
  with n have i: "i < length xs" unfolding i_def by linarith
  have f: "0 \<le> f" "f \<le> 1" unfolding f_def by linarith+
  have mem: "j < length xs \<Longrightarrow> sort xs ! j \<in> set xs" for j
    by (metis length_sort nth_mem set_sort)
  have j: "min (i + 1) (length xs - 1) < length xs" using n by linarith
  have eq: "ref_percentile xs q = (1 - f) * sort xs ! i + f * sort xs ! min (i + 1) (length xs - 1)"
    by (simp add: ref_percentile_def Let_def h_def i_def f_def)
  show "\<forall>x \<in> set xs. lo \<le> x \<Longrightarrow> lo \<le> ref_percentile xs q"
    unfolding eq using f mem [OF i] mem [OF j] by (intro convex_ge) auto
  show "\<forall>x \<in> set xs. x \<le> hi \<Longrightarrow> ref_percentile xs q \<le> hi"
    unfolding eq using f mem [OF i] mem [OF j] by (intro convex_le) auto
qed

text \<open>A straight line: its deviations are the slope times those of the abscissas.\<close>

lemma ref_mean_line:
  "0 < n \<Longrightarrow> ref_mean (map (\<lambda>i. c + m * real i) [0..<n]) = c + m * ref_mean (arange n)"
proof -
  assume n: "0 < n"
  have "sum_list (map (\<lambda>i. c + m * real i) [0..<n]) = real n * c + m * sum_list (map real [0..<n])"
    by (simp add: sum_list_addf sum_list_const_mult sum_list_triv)
  with n show ?thesis by (simp add: ref_mean_def arange_def field_simps)
qed

lemma ref_dev_line:
  "0 < n \<Longrightarrow> ref_dev (map (\<lambda>i. c + m * real i) [0..<n]) = map (\<lambda>x. m * x) (ref_dev (arange n))"
  by (simp add: ref_dev_def ref_mean_line arange_def right_diff_distrib)

lemma ref_dev_arange_pos: "2 \<le> n \<Longrightarrow> 0 < dot (ref_dev (arange n)) (ref_dev (arange n))"
proof -
  assume n: "2 \<le> n"
  let ?d = "ref_dev (arange n)" and ?m = "ref_mean (arange n)"
  from n have "0 \<in> set [0..<n]" "1 \<in> set [0..<n]" by auto
  then have mem: "0 - ?m \<in> set ?d" "1 - ?m \<in> set ?d"
    by (force simp: ref_dev_def arange_def)+
  have "dot ?d ?d \<noteq> 0"
    using dot_self_0 [OF _ mem(1)] dot_self_0 [OF _ mem(2)] by auto
  then show ?thesis using dot_self_nonneg [of ?d] by linarith
qed

lemma ref_polyfit_line:
  assumes "2 \<le> n"
  shows "ref_polyfit (arange n) (map (\<lambda>i. c + m * real i) [0..<n]) = (m, c)"
  using ref_dev_arange_pos [OF assms] assms
  by (simp add: ref_polyfit_def Let_def ref_dev_line dot_scale ref_mean_line)

lemma ref_corr_line:
  assumes "2 \<le> n" "0 < m"
  shows "ref_corr (arange n) (map (\<lambda>i. c + m * real i) [0..<n]) = Some 1"
proof -
  define D where "D = dot (ref_dev (arange n)) (ref_dev (arange n))"
  have D: "0 < D" unfolding D_def by (rule ref_dev_arange_pos) (rule assms)
  have "sqrt (m * (m * D)) = m * sqrt D"
    using assms(2) by (simp add: real_sqrt_mult mult.assoc [symmetric])
  with D assms show ?thesis
    by (simp add: ref_corr_def Let_def ref_dev_line dot_scale dot_scale_left flip: D_def)
qed

interpretation ref: numeric_library ref_np
proof
  show "xs \<noteq> [] \<Longrightarrow> \<forall>x \<in> set xs. lo \<le> x \<Longrightarrow> lo \<le> np_median ref_np xs" for xs lo
    using ref_median_mem_bounds [of xs "\<lambda>x. lo \<le> x" lo] by (simp add: ref_np_def)
  show "xs \<noteq> [] \<Longrightarrow> \<forall>x \<in> set xs. x \<le> hi \<Longrightarrow> np_median ref_np xs \<le> hi" for xs hi
    using ref_median_mem_bounds [of xs "\<lambda>x. x \<le> hi" _ hi] by (simp add: ref_np_def)
qed (auto simp: ref_np_def ref_percentile_bounds ref_corr_range ref_polyfit_line ref_corr_line)

end
