(* ===== verification/Graph_Lib.thy ===== *)
theory Graph_Lib
  imports Prelude
begin

text \<open>
  The graph package the ranking uses (networkx is not part of the repository).  The operations
  the code calls on an \<open>nx.DiGraph\<close> are a record \<open>nxlib\<close> the definitions take as a parameter
  \<open>nx\<close>; the locale \<open>digraph_library\<close> states their documented behaviour: nodes and the
  adjacency of a node are reported in insertion order, \<open>add_edge\<close> inserts missing endpoints and
  updates the data of an edge that exists already.

  \<open>dict_nx\<close> is a concrete instance with the layout networkx documents, a dictionary of
  dictionaries in insertion order.
\<close>

record edge_data =
  d_weight :: real
  d_lag :: int
  d_evidence :: "string list"

record 'g nxlib =
  nx_digraph :: 'g
  nx_add_edge :: "'g \<Rightarrow> string \<Rightarrow> string \<Rightarrow> edge_data \<Rightarrow> 'g"
  nx_nodes :: "'g \<Rightarrow> string list"
  nx_out_edges :: "'g \<Rightarrow> string \<Rightarrow> (string \<times> edge_data) list"
  nx_in_degree :: "'g \<Rightarrow> string \<Rightarrow> nat"
  nx_number_of_edges :: "'g \<Rightarrow> nat"

definition ensure :: "'a \<Rightarrow> 'a list \<Rightarrow> 'a list" where
  "ensure x xs = (if x \<in> set xs then xs else xs @ [x])"

lemma set_ensure [simp]: "set (ensure x xs) = insert x (set xs)"
  by (auto simp: ensure_def)

lemma distinct_ensure [simp]: "distinct (ensure x xs) = distinct xs"
  by (auto simp: ensure_def)

text \<open>Graphs as the code builds them: from the empty one by adding edges in turn.\<close>

definition nx_built :: "'g nxlib \<Rightarrow> (string \<times> string \<times> edge_data) list \<Rightarrow> 'g" where
  "nx_built nx es = foldl (\<lambda>g (u, v, d). nx_add_edge nx g u v d) (nx_digraph nx) es"

section \<open>The interface\<close>

locale digraph_library =
  fixes nx :: "'g nxlib"
  assumes nodes_empty: "nx_nodes nx (nx_digraph nx) = []"
    and nodes_add: "nx_nodes nx (nx_add_edge nx g u v d) = ensure v (ensure u (nx_nodes nx g))"
    and out_empty: "nx_out_edges nx (nx_digraph nx) n = []"
    and out_add: "nx_out_edges nx (nx_add_edge nx g u v d) n =
      (if n = u then AList.update v d (nx_out_edges nx g n) else nx_out_edges nx g n)"
    and in_degree: "nx_in_degree nx g n =
      length (filter (\<lambda>u. n \<in> fst ` set (nx_out_edges nx g u)) (nx_nodes nx g))"
    and number_of_edges: "nx_number_of_edges nx g =
      sum_list (map (\<lambda>u. length (nx_out_edges nx g u)) (nx_nodes nx g))"
begin

lemma built_Nil: "nx_built nx [] = nx_digraph nx"
  by (simp add: nx_built_def)

lemma built_snoc: "nx_built nx (es @ [(u, v, d)]) = nx_add_edge nx (nx_built nx es) u v d"
  by (simp add: nx_built_def)

lemma nodes_built: "set (nx_nodes nx (nx_built nx es)) = (\<Union>(u, v, d) \<in> set es. {u, v})"
proof (induction es rule: rev_induct)
  case (snoc e es)
  then show ?case by (cases e) (auto simp: built_snoc nodes_add)
qed (simp add: built_Nil nodes_empty)

lemma distinct_nodes_built: "distinct (nx_nodes nx (nx_built nx es))"
proof (induction es rule: rev_induct)
  case (snoc e es)
  then show ?case by (cases e) (auto simp: built_snoc nodes_add)
qed (simp add: built_Nil nodes_empty)

lemma out_built_map:
  "map_of (nx_out_edges nx (nx_built nx es) n) v =
     map_option (\<lambda>(u, v, d). d) (find (\<lambda>(u, w, d). u = n \<and> w = v) (rev es))"
proof (induction es rule: rev_induct)
  case (snoc e es)
  then show ?case by (cases e) (auto simp: built_snoc out_add update_conv')
qed (simp add: built_Nil out_empty)

lemma distinct_out_built: "distinct (map fst (nx_out_edges nx (nx_built nx es) n))"
proof (induction es rule: rev_induct)
  case (snoc e es)
  then show ?case by (cases e) (auto simp: built_snoc out_add distinct_update)
qed (simp add: built_Nil out_empty)

lemma out_built_mem: "(v, d) \<in> set (nx_out_edges nx (nx_built nx es) n) \<Longrightarrow> (n, v, d) \<in> set es"
proof (induction es rule: rev_induct)
  case (snoc e es)
  obtain a b c where e: "e = (a, b, c)" by (cases e)
  have "(v, d) \<in> set (AList.update b c al) \<Longrightarrow> (v, d) = (b, c) \<or> (v, d) \<in> set al" for al
    by (induction al) (auto split: if_splits)
  with snoc show ?case by (auto simp: e built_snoc out_add split: if_splits)
qed (simp add: built_Nil out_empty)

lemma out_built_keys:
  "fst ` set (nx_out_edges nx (nx_built nx es) n) = {v. \<exists>d. (n, v, d) \<in> set es}"
proof (induction es rule: rev_induct)
  case (snoc e es)
  then show ?case by (cases e) (auto simp: built_snoc out_add dom_update)
qed (simp add: built_Nil out_empty)

lemma out_target_node:
  "(v, d) \<in> set (nx_out_edges nx (nx_built nx es) n) \<Longrightarrow> v \<in> set (nx_nodes nx (nx_built nx es))"
  by (drule out_built_mem) (auto simp: nodes_built)

lemma in_degree_0_iff:
  "nx_in_degree nx (nx_built nx es) n = 0 \<longleftrightarrow> (\<forall>u d. (u, n, d) \<notin> set es)"
proof -
  have "u \<in> set (nx_nodes nx (nx_built nx es))" if "(u, n, d) \<in> set es" for u d
    using that by (auto simp: nodes_built)
  then show ?thesis by (simp add: in_degree out_built_keys filter_empty_conv) blast
qed

lemma number_of_edges_0_iff: "nx_number_of_edges nx (nx_built nx es) = 0 \<longleftrightarrow> es = []"
proof -
  have "es = []" if *: "\<forall>u \<in> set (nx_nodes nx (nx_built nx es)). nx_out_edges nx (nx_built nx es) u = []"
  proof (rule ccontr)
    assume "es \<noteq> []"
    then obtain u v d where m: "(u, v, d) \<in> set es" by (cases es) auto
    then have "v \<in> fst ` set (nx_out_edges nx (nx_built nx es) u)" "u \<in> set (nx_nodes nx (nx_built nx es))"
      by (auto simp: out_built_keys nodes_built)
    with * show False by auto
  qed
  then show ?thesis
    by (auto simp: number_of_edges sum_list_eq_0_iff built_Nil nodes_empty)
qed

end

section \<open>A concrete instance: dictionary of dictionaries\<close>

type_synonym dict_graph = "(string \<times> (string \<times> edge_data) list) list"

definition dg_out :: "dict_graph \<Rightarrow> string \<Rightarrow> (string \<times> edge_data) list" where
  "dg_out g n = (case map_of g n of None \<Rightarrow> [] | Some adj \<Rightarrow> adj)"

definition dg_node :: "dict_graph \<Rightarrow> string \<Rightarrow> dict_graph" where
  "dg_node g n = (if n \<in> fst ` set g then g else g @ [(n, [])])"

definition dg_add_edge :: "dict_graph \<Rightarrow> string \<Rightarrow> string \<Rightarrow> edge_data \<Rightarrow> dict_graph" where
  "dg_add_edge g u v d =
     (let g' = dg_node (dg_node g u) v in AList.update u (AList.update v d (dg_out g' u)) g')"

definition dict_nx :: "dict_graph nxlib" where
  "dict_nx = \<lparr>nx_digraph = [], nx_add_edge = dg_add_edge, nx_nodes = map fst,
     nx_out_edges = dg_out,
     nx_in_degree = (\<lambda>g n. length (filter (\<lambda>u. n \<in> fst ` set (dg_out g u)) (map fst g))),
     nx_number_of_edges = (\<lambda>g. sum_list (map (\<lambda>u. length (dg_out g u)) (map fst g)))\<rparr>"

lemma map_fst_dg_node: "map fst (dg_node g n) = ensure n (map fst g)"
  by (auto simp: dg_node_def ensure_def)

lemma dg_out_node: "dg_out (dg_node g n) m = dg_out g m"
  by (auto simp: dg_out_def dg_node_def map_add_def weak_map_of_SomeI split: option.splits
      dest: map_of_SomeD)

lemma map_fst_update_mem: "k \<in> fst ` set al \<Longrightarrow> map fst (AList.update k v al) = map fst al"
  by (induction al) auto

lemma dg_out_update: "dg_out (AList.update u adj g) n = (if n = u then adj else dg_out g n)"
  by (simp add: dg_out_def update_conv')

interpretation dict: digraph_library dict_nx
proof
  fix g :: dict_graph and u v n d
  have m: "u \<in> fst ` set (dg_node (dg_node g u) v)"
    by (metis image_set insertI1 insert_commute map_fst_dg_node set_ensure)
  show "nx_nodes dict_nx (nx_add_edge dict_nx g u v d) = ensure v (ensure u (nx_nodes dict_nx g))"
    by (simp add: dict_nx_def dg_add_edge_def Let_def map_fst_update_mem [OF m] map_fst_dg_node)
  show "nx_out_edges dict_nx (nx_add_edge dict_nx g u v d) n =
      (if n = u then AList.update v d (nx_out_edges dict_nx g n) else nx_out_edges dict_nx g n)"
    by (simp add: dict_nx_def dg_add_edge_def Let_def dg_out_update dg_out_node)
qed (simp_all add: dict_nx_def dg_out_def)

end
