(* ===== verification/Sql_Table.thy ===== *)
theory Sql_Table
  imports Prelude
begin

text \<open>
  SQLite tables as the engine uses them (\<open>sqlite3\<close>): a list of rows in rowid order, the order
  of an unindexed scan.  \<open>tbl_select\<close> is \<open>SELECT ... WHERE key = ?\<close> with \<open>fetchone\<close>,
  \<open>tbl_upsert\<close> is \<open>INSERT OR REPLACE\<close> (the old row is deleted, the new one gets the next
  rowid), \<open>tbl_insert_ignore\<close> is \<open>INSERT OR IGNORE\<close>, \<open>tbl_update\<close> is \<open>UPDATE ... WHERE key = ?\<close>.

  The locale \<open>keyed_table\<close> is the contract of a table with a primary key; every table of the
  memory (edge memory, baselines, cases) interprets it in the theory that defines it.
\<close>

definition tbl_select :: "('row \<Rightarrow> 'k) \<Rightarrow> 'k \<Rightarrow> 'row list \<Rightarrow> 'row option" where
  "tbl_select key k rows = find (\<lambda>r. key r = k) rows"

definition tbl_upsert :: "('row \<Rightarrow> 'k) \<Rightarrow> 'row \<Rightarrow> 'row list \<Rightarrow> 'row list" where
  "tbl_upsert key row rows = filter (\<lambda>r. key r \<noteq> key row) rows @ [row]"

definition tbl_insert_ignore :: "('row \<Rightarrow> 'k) \<Rightarrow> 'row \<Rightarrow> 'row list \<Rightarrow> 'row list" where
  "tbl_insert_ignore key row rows = (if key row \<in> key ` set rows then rows else rows @ [row])"

definition tbl_update :: "('row \<Rightarrow> 'k) \<Rightarrow> 'k \<Rightarrow> ('row \<Rightarrow> 'row) \<Rightarrow> 'row list \<Rightarrow> 'row list" where
  "tbl_update key k f rows = map (\<lambda>r. if key r = k then f r else r) rows"

locale keyed_table =
  fixes key :: "'row \<Rightarrow> 'k"
    and select :: "'k \<Rightarrow> 'row list \<Rightarrow> 'row option"
    and upsert :: "'row \<Rightarrow> 'row list \<Rightarrow> 'row list"
    and insert_ignore :: "'row \<Rightarrow> 'row list \<Rightarrow> 'row list"
    and update :: "'k \<Rightarrow> ('row \<Rightarrow> 'row) \<Rightarrow> 'row list \<Rightarrow> 'row list"
  assumes select_SomeD: "select k rows = Some r \<Longrightarrow> r \<in> set rows \<and> key r = k"
    and select_None_iff: "select k rows = None \<longleftrightarrow> k \<notin> key ` set rows"
    and set_upsert: "set (upsert r rows) = insert r {x \<in> set rows. key x \<noteq> key r}"
    and distinct_upsert: "distinct (map key rows) \<Longrightarrow> distinct (map key (upsert r rows))"
    and set_insert_ignore:
      "set (insert_ignore r rows) = (if key r \<in> key ` set rows then set rows else insert r (set rows))"
    and distinct_insert_ignore:
      "distinct (map key rows) \<Longrightarrow> distinct (map key (insert_ignore r rows))"
    and update_map: "update k f rows = map (\<lambda>r. if key r = k then f r else r) rows"
begin

lemma select_eq_Some_iff:
  assumes "distinct (map key rows)"
  shows "select k rows = Some r \<longleftrightarrow> r \<in> set rows \<and> key r = k"
proof
  assume r: "r \<in> set rows \<and> key r = k"
  then obtain r' where r': "select k rows = Some r'"
    using select_None_iff [of k rows] by (cases "select k rows") auto
  with r select_SomeD [OF r'] assms show "select k rows = Some r"
    by (auto simp: distinct_map dest: inj_onD)
qed (rule select_SomeD)

lemma select_upsert:
  assumes "distinct (map key rows)"
  shows "select k (upsert r rows) = (if k = key r then Some r else select k rows)"
proof (cases "k = key r")
  case True
  with assms show ?thesis by (simp add: select_eq_Some_iff distinct_upsert set_upsert)
next
  case False
  show ?thesis
  proof (cases "select k rows")
    case None
    with False have "select k (upsert r rows) = None" by (auto simp: select_None_iff set_upsert)
    with False None show ?thesis by simp
  next
    case (Some x)
    then have "x \<in> set rows" "key x = k" using select_SomeD by blast+
    with False assms have "select k (upsert r rows) = Some x"
      by (subst select_eq_Some_iff) (auto simp: distinct_upsert set_upsert)
    with False Some show ?thesis by simp
  qed
qed

lemma keys_upsert: "key ` set (upsert r rows) = insert (key r) (key ` set rows)"
  by (auto simp: set_upsert)

lemma keys_insert_ignore: "key ` set (insert_ignore r rows) = insert (key r) (key ` set rows)"
  by (auto simp: set_insert_ignore)

lemma keys_update: "(\<And>r. key (f r) = key r) \<Longrightarrow> map key (update k f rows) = map key rows"
  by (simp add: update_map)

lemma upsert_Ball: "\<forall>x \<in> set rows. P x \<Longrightarrow> P r \<Longrightarrow> \<forall>x \<in> set (upsert r rows). P x"
  by (auto simp: set_upsert)

lemma insert_ignore_Ball: "\<forall>x \<in> set rows. P x \<Longrightarrow> P r \<Longrightarrow> \<forall>x \<in> set (insert_ignore r rows). P x"
  by (auto simp: set_insert_ignore)

lemma update_Ball:
  "\<forall>x \<in> set rows. P x \<Longrightarrow> (\<And>x. x \<in> set rows \<Longrightarrow> key x = k \<Longrightarrow> P x \<Longrightarrow> P (f x)) \<Longrightarrow>
     \<forall>x \<in> set (update k f rows). P x"
  by (auto simp: update_map)

lemma select_update:
  assumes "distinct (map key rows)" and key: "\<And>r. key (f r) = key r"
  shows "select k (update k' f rows) =
    (if k = k' then map_option f (select k rows) else select k rows)"
proof -
  have d: "distinct (map key (update k' f rows))" by (simp add: keys_update key assms(1))
  show ?thesis
  proof (cases "select k rows")
    case None
    then have "select k (update k' f rows) = None"
      by (auto simp: select_None_iff update_map key)
    with None show ?thesis by auto
  next
    case (Some x)
    then have x: "x \<in> set rows" "key x = k" using select_SomeD by blast+
    then have "(if k = k' then f x else x) \<in> set (update k' f rows)"
      by (force simp: update_map)
    with x have "select k (update k' f rows) = Some (if k = k' then f x else x)"
      by (subst select_eq_Some_iff [OF d]) (auto simp: key)
    with Some show ?thesis by auto
  qed
qed

text \<open>A loop of single-row updates over rows fetched before it is one map over the table.\<close>

lemma fold_updates:
  assumes d: "distinct (map key rows)" and key: "\<And>r. key (f r) = key r" and sub: "set snap \<subseteq> set rows"
  shows "foldl (\<lambda>rows r. if P r then update (key r) (\<lambda>_. f r) rows else rows) rows snap =
    map (\<lambda>r. if r \<in> set snap \<and> P r then f r else r) rows"
  using sub
proof (induction snap rule: rev_induct)
  case (snoc x snap)
  then have x: "x \<in> set rows" by simp
  have "r = x" if "r \<in> set rows" "key r = key x" for r
    using that x d by (auto simp: distinct_map dest: inj_onD)
  with snoc show ?case by (auto simp: update_map key)
qed simp

end

lemma keyed_table_lists:
  "keyed_table key (tbl_select key) (tbl_upsert key) (tbl_insert_ignore key) (tbl_update key)"
proof
  fix k rows r
  show "tbl_select key k rows = Some r \<Longrightarrow> r \<in> set rows \<and> key r = k"
    by (auto simp: tbl_select_def find_Some_iff)
  show "tbl_select key k rows = None \<longleftrightarrow> k \<notin> key ` set rows"
    by (auto simp: tbl_select_def find_None_iff)
  show "set (tbl_upsert key r rows) = insert r {x \<in> set rows. key x \<noteq> key r}"
    by (auto simp: tbl_upsert_def)
  show "distinct (map key rows) \<Longrightarrow> distinct (map key (tbl_upsert key r rows))"
    by (auto simp: tbl_upsert_def distinct_map_filter)
  show "set (tbl_insert_ignore key r rows) =
      (if key r \<in> key ` set rows then set rows else insert r (set rows))"
    by (auto simp: tbl_insert_ignore_def)
  show "distinct (map key rows) \<Longrightarrow> distinct (map key (tbl_insert_ignore key r rows))"
    by (auto simp: tbl_insert_ignore_def)
qed (simp add: tbl_update_def)

end
