(* ===== verification/Detectors.thy ===== *)
theory Detectors
  imports Array_Lib
begin

text \<open>
  \<open>correlation/engine/detectors.py\<close>: EWMA baseline, two-sided CUSUM onset detection with
  backtracking, shape classification of the post-onset segment, and the linear forecast to a
  limit.  The order of the definitions is the order of the module.
\<close>

definition DT_S :: real where
  "DT_S = 5"

datatype direction = Up | Down

record onset =
  o_idx :: nat
  o_dir :: direction
  o_zpeak :: real

datatype shape = Saturation | Burst | Leak | Flap | Shift

fun ewma_from :: "real \<Rightarrow> real \<Rightarrow> vec \<Rightarrow> vec" where
  "ewma_from alpha prev [] = []"
| "ewma_from alpha prev (x # xs) =
     (let out = alpha * x + (1 - alpha) * prev in out # ewma_from alpha out xs)"

text \<open>\<open>out[0] = x[0]\<close> raises on an empty array.\<close>

fun ewma :: "real \<Rightarrow> vec \<Rightarrow> vec outcome" where
  "ewma alpha [] = Raise IndexError"
| "ewma alpha (x # xs) = Ret (x # ewma_from alpha x xs)"

definition robust_sigma :: "numlib \<Rightarrow> vec \<Rightarrow> real" where
  "robust_sigma np x =
     (let med = np_median np x; mad = np_median np (map (\<lambda>v. \<bar>v - med\<bar>) x)
      in max (14826 / 10000 * mad) (1 / 10 ^ 6))"

text \<open>The walk back of \<open>_backtrack\<close>, with \<open>sign\<close> the factor 1 or -1.\<close>

fun backtrack :: "vec \<Rightarrow> real \<Rightarrow> nat \<Rightarrow> nat" where
  "backtrack z sign 0 = 0"
| "backtrack z sign (Suc i) = (if sign * z ! i > 1/2 then backtrack z sign i else Suc i)"

record cusum_state =
  cs_gp :: real
  cs_gn :: real
  cs_armed :: nat
  cs_onsets :: "onset list"

definition cusum_step :: "vec \<Rightarrow> real \<Rightarrow> real \<Rightarrow> nat \<Rightarrow> cusum_state \<Rightarrow> cusum_state" where
  "cusum_step z k h i s =
     (let gp = max 0 (cs_gp s + z ! i - k);
          gn = max 0 (cs_gn s - z ! i - k)
      in if gp > h \<and> i \<ge> cs_armed s
         then \<lparr>cs_gp = 0, cs_gn = 0, cs_armed = i + 3,
               cs_onsets = cs_onsets s @ [\<lparr>o_idx = backtrack z 1 i, o_dir = Up, o_zpeak = z ! i\<rparr>]\<rparr>
         else if gn > h \<and> i \<ge> cs_armed s
         then \<lparr>cs_gp = 0, cs_gn = 0, cs_armed = i + 3,
               cs_onsets = cs_onsets s @ [\<lparr>o_idx = backtrack z (-1) i, o_dir = Down, o_zpeak = z ! i\<rparr>]\<rparr>
         else s\<lparr>cs_gp := gp, cs_gn := gn\<rparr>)"

definition residuals :: "vec \<Rightarrow> vec \<Rightarrow> vec" where
  "residuals x base = map2 (-) x (hd base # butlast base)"

definition sigma_window :: "nat \<Rightarrow> nat \<Rightarrow> nat" where
  "sigma_window warmup n = min (max (warmup * 2) (n div 3)) 60"

text \<open>Lines 44 to 48: the z-scores of the one-step-ahead residuals.\<close>

definition cusum_z :: "numlib \<Rightarrow> nat \<Rightarrow> vec \<Rightarrow> vec \<Rightarrow> vec" where
  "cusum_z np warmup x base =
     (let resid = residuals x base;
          sig_n = sigma_window warmup (length x);
          sigma = robust_sigma np (take sig_n resid)
      in map (\<lambda>v. v / sigma) resid)"

definition cusum_onsets_with ::
    "numlib \<Rightarrow> real \<Rightarrow> real \<Rightarrow> nat \<Rightarrow> vec \<Rightarrow> onset list" where
  "cusum_onsets_with np k h warmup x =
     (if length x < warmup + 4 then []
      else (case ewma (3/10) x of
          Ret base \<Rightarrow>
            (let z = cusum_z np warmup x base
             in cs_onsets (fold (cusum_step z k h) [warmup..<length z]
                  \<lparr>cs_gp = 0, cs_gn = 0, cs_armed = warmup, cs_onsets = []\<rparr>))
        | _ \<Rightarrow> []))"

text \<open>The engine only calls it with the default arguments.\<close>

definition cusum_onsets :: "numlib \<Rightarrow> vec \<Rightarrow> onset list" where
  "cusum_onsets np x = cusum_onsets_with np (1/2) 5 12 x"

definition sign_changes :: "vec \<Rightarrow> nat" where
  "sign_changes xs = length (filter (\<lambda>(a, b). sgn b - sgn a \<noteq> (0::real)) (zip xs (tl xs)))"

definition classify :: "numlib \<Rightarrow> vec \<Rightarrow> nat \<Rightarrow> real option \<Rightarrow> shape" where
  "classify np x onset_idx cap =
     (let seg = drop onset_idx x in
      if length seg < 6 then Shift
      else
        let pre = np_median np (take (max onset_idx 1) x);
            sigma_pre = robust_sigma np (if onset_idx > 8 then take onset_idx x else x);
            tl_seg = tail_slice (max 3 (length seg div 4)) seg;
            slope = fst (np_polyfit np (arange (length seg)) seg);
            last_third = tail_slice (max 3 (length seg div 3)) seg;
            excursion = arr_max (map (\<lambda>v. \<bar>v - pre\<bar>) seg);
            came_back = (\<bar>np_median np tl_seg - pre\<bar> < 3/2 * sigma_pre);
            mid = (arr_max seg + arr_min seg) / 2;
            crossings = sign_changes (map (\<lambda>v. v - mid) seg)
        in if (case cap of None \<Rightarrow> False | Some c \<Rightarrow> np_median np last_third \<ge> 92/100 * c)
           then Saturation
           else if came_back \<and> excursion > 3 * sigma_pre then Burst
           else if slope > 0 \<and> last seg - hd seg > 2 * sigma_pre then Leak
           else if crossings \<ge> 4 \<and> arr_max seg - arr_min seg > 4 * sigma_pre then Flap
           else Shift)"

text \<open>\<open>np.polyfit\<close> raises on an empty array (a TypeError, which nothing here tells apart from
  other errors).\<close>

definition forecast_to_limit :: "numlib \<Rightarrow> vec \<Rightarrow> real \<Rightarrow> nat \<Rightarrow> real option outcome" where
  "forecast_to_limit np x cap tail =
     (let seg = (if length x \<ge> tail then tail_slice tail x else x) in
      if seg = [] then Raise (OtherError ''TypeError'')
      else
        let t = arange (length seg);
            slope = fst (np_polyfit np t seg);
            fit_r = np_corrcoef np t seg
        in if slope \<le> 1 / 10 ^ 9 \<or> nan_less fit_r (1/2) then Ret None
           else
             let samples_left = (cap - last seg) / slope;
                 eta_s = samples_left * DT_S
             in Ret (if samples_left < 0 \<or> eta_s > 3600 then None else Some eta_s))"

section \<open>EWMA and the robust scale\<close>

lemma length_ewma_from [simp]: "length (ewma_from alpha p xs) = length xs"
  by (induction xs arbitrary: p) (auto simp: Let_def)

lemma ewma_total: "x \<noteq> [] \<Longrightarrow> \<exists>b. ewma alpha x = Ret b \<and> length b = length x"
  by (cases x) auto

lemma ewma_from_bounds:
  assumes "0 \<le> alpha" "alpha \<le> 1"
  shows "lo \<le> p \<Longrightarrow> p \<le> hi \<Longrightarrow> set xs \<subseteq> {lo..hi} \<Longrightarrow> set (ewma_from alpha p xs) \<subseteq> {lo..hi}"
proof (induction xs arbitrary: p)
  case (Cons x xs)
  define out where "out = alpha * x + (1 - alpha) * p"
  have out: "lo \<le> out" "out \<le> hi"
    using convex_ge [of alpha lo p x] convex_le [of alpha p hi x] assms Cons.prems
    by (simp_all add: out_def add.commute)
  with Cons.IH [OF out] Cons.prems(3) show ?case by (simp add: Let_def flip: out_def)
qed simp

lemma ewma_from_const: "ewma_from alpha c (replicate n c) = replicate n c"
  by (induction n) (auto simp: Let_def algebra_simps)

lemma robust_sigma_floor: "1 / 10 ^ 6 \<le> robust_sigma np x"
  by (simp add: robust_sigma_def Let_def)

lemma robust_sigma_pos: "0 < robust_sigma np x"
  using robust_sigma_floor [of np x] by (rule less_le_trans [rotated]) simp

section \<open>Backtracking\<close>

lemma backtrack_numeral [simp]:
  "backtrack z s (numeral n) =
    (if s * z ! pred_numeral n > 1/2 then backtrack z s (pred_numeral n) else numeral n)"
  by (simp add: numeral_eq_Suc)

lemma backtrack_le [bounds_intro]: "backtrack z s i \<le> i"
  by (induction i) (auto intro: le_SucI)

lemma backtrack_run: "backtrack z s i \<le> j \<Longrightarrow> j < i \<Longrightarrow> s * z ! j > 1/2"
  by (induction i) (auto split: if_splits simp: less_Suc_eq)

lemma backtrack_maximal: "backtrack z s i = Suc b \<Longrightarrow> \<not> s * z ! b > 1/2"
  by (induction i) (auto split: if_splits)

section \<open>The CUSUM recursion\<close>

text \<open>The largest sum of \<open>w a + \<dots> + w (n - 1)\<close> over the starts \<open>a \<ge> m\<close>, or 0: what the
  recursion \<open>g = max 0 (g + w)\<close> computes from sample \<open>m\<close> on.\<close>

lemma max_suffix_sum:
  assumes "g m = 0" and "\<And>i. m \<le> i \<Longrightarrow> g (Suc i) = max 0 (g i + w i)" and "m \<le> n"
  shows "(\<forall>a. m \<le> a \<and> a \<le> n \<longrightarrow> (\<Sum>i = a..<n. w i) \<le> g n) \<and>
         (\<exists>a. m \<le> a \<and> a \<le> n \<and> (\<Sum>i = a..<n. w i) = (g n :: real))"
  using assms(3)
proof (induction n rule: dec_induct)
  case base
  then show ?case using assms(1) by auto
next
  case (step n)
  have gs: "g (Suc n) = max 0 (g n + w n)" using assms(2) step.hyps by simp
  have "(\<Sum>i = a..<Suc n. w i) \<le> g (Suc n)" if "m \<le> a" "a \<le> Suc n" for a
  proof (cases "a = Suc n")
    case False
    with that step.IH have "(\<Sum>i = a..<n. w i) \<le> g n" by auto
    with False that show ?thesis by (simp add: gs)
  qed (simp add: gs)
  moreover have "\<exists>a. m \<le> a \<and> a \<le> Suc n \<and> (\<Sum>i = a..<Suc n. w i) = g (Suc n)"
  proof (cases "0 < g n + w n")
    case True
    from step.IH obtain a where a: "m \<le> a" "a \<le> n" "(\<Sum>i = a..<n. w i) = g n" by blast
    with True have "(\<Sum>i = a..<Suc n. w i) = g (Suc n)" by (simp add: gs)
    with a show ?thesis using le_SucI by blast
  next
    case False
    then have "(\<Sum>i = Suc n..<Suc n. w i) = g (Suc n)" by (simp add: gs max_def)
    with step.hyps show ?thesis by (meson le_SucI order_refl)
  qed
  ultimately show ?case by blast
qed

primrec drift :: "(nat \<Rightarrow> real) \<Rightarrow> nat \<Rightarrow> nat \<Rightarrow> real" where
  "drift w m 0 = 0"
| "drift w m (Suc j) = max 0 (drift w m j + w (m + j))"

lemma drift_nonneg: "0 \<le> drift w m j"
  by (cases j) auto

lemma drift_bounded_iff:
  "0 \<le> h \<Longrightarrow> (\<forall>i \<le> j. drift w m i \<le> h) \<longleftrightarrow>
     (\<forall>a b. m \<le> a \<and> a < b \<and> b \<le> m + j \<longrightarrow> (\<Sum>i = a..<b. w i) \<le> h)"
proof -
  assume h: "0 \<le> h"
  define g where "g n = drift w m (n - m)" for n
  have g: "g m = 0" "\<And>i. m \<le> i \<Longrightarrow> g (Suc i) = max 0 (g i + w i)"
    by (auto simp: g_def Suc_diff_le)
  note suf = max_suffix_sum [of g m w, OF g]
  show ?thesis
  proof (intro iffI allI impI)
    fix a b assume d: "\<forall>i \<le> j. drift w m i \<le> h" and ab: "m \<le> a \<and> a < b \<and> b \<le> m + j"
    then have "(\<Sum>i = a..<b. w i) \<le> g b" using suf [of b] by auto
    also have "g b \<le> h" using d ab by (auto simp: g_def)
    finally show "(\<Sum>i = a..<b. w i) \<le> h" .
  next
    fix i assume w: "\<forall>a b. m \<le> a \<and> a < b \<and> b \<le> m + j \<longrightarrow> (\<Sum>i = a..<b. w i) \<le> h" and i: "i \<le> j"
    from suf [of "m + i"] obtain a where a: "m \<le> a" "a \<le> m + i" "(\<Sum>i = a..<m + i. w i) = g (m + i)"
      by auto
    show "drift w m i \<le> h"
    proof (cases "a = m + i")
      case True
      with a(3) h show ?thesis by (simp add: g_def)
    next
      case False
      with a(1,2) i have "m \<le> a \<and> a < m + i \<and> m + i \<le> m + j" by simp
      with w have "(\<Sum>i = a..<m + i. w i) \<le> h" by blast
      with a(3) show ?thesis by (simp add: g_def)
    qed
  qed
qed

definition cusum_init :: "nat \<Rightarrow> cusum_state" where
  "cusum_init m = \<lparr>cs_gp = 0, cs_gn = 0, cs_armed = m, cs_onsets = []\<rparr>"

definition cusum_run :: "vec \<Rightarrow> real \<Rightarrow> real \<Rightarrow> nat \<Rightarrow> nat \<Rightarrow> cusum_state" where
  "cusum_run z k h m j = fold (cusum_step z k h) [m..<m + j] (cusum_init m)"

lemma cusum_run_0 [simp]: "cusum_run z k h m 0 = cusum_init m"
  by (simp add: cusum_run_def)

lemma cusum_run_Suc [simp]:
  "cusum_run z k h m (Suc j) = cusum_step z k h (m + j) (cusum_run z k h m j)"
  by (simp add: cusum_run_def)

lemma cusum_step_cases:
  obtains (up) "h < max 0 (cs_gp s + z ! i - k)" "cs_armed s \<le> i"
      "cusum_step z k h i s = \<lparr>cs_gp = 0, cs_gn = 0, cs_armed = i + 3,
        cs_onsets = cs_onsets s @ [\<lparr>o_idx = backtrack z 1 i, o_dir = Up, o_zpeak = z ! i\<rparr>]\<rparr>"
  | (down) "h < max 0 (cs_gn s - z ! i - k)" "cs_armed s \<le> i"
      "cusum_step z k h i s = \<lparr>cs_gp = 0, cs_gn = 0, cs_armed = i + 3,
        cs_onsets = cs_onsets s @ [\<lparr>o_idx = backtrack z (-1) i, o_dir = Down, o_zpeak = z ! i\<rparr>]\<rparr>"
  | (quiet) "\<not> (h < max 0 (cs_gp s + z ! i - k) \<and> cs_armed s \<le> i)"
      "\<not> (h < max 0 (cs_gn s - z ! i - k) \<and> cs_armed s \<le> i)"
      "cusum_step z k h i s =
        s\<lparr>cs_gp := max 0 (cs_gp s + z ! i - k), cs_gn := max 0 (cs_gn s - z ! i - k)\<rparr>"
proof (cases "h < max 0 (cs_gp s + z ! i - k) \<and> cs_armed s \<le> i")
  case True
  then show ?thesis by (intro up) (auto simp: cusum_step_def Let_def)
next
  case np: False
  show ?thesis
  proof (cases "h < max 0 (cs_gn s - z ! i - k) \<and> cs_armed s \<le> i")
    case True
    with np show ?thesis by (intro down) (auto simp: cusum_step_def Let_def)
  next
    case False
    with np have "cusum_step z k h i s =
        s\<lparr>cs_gp := max 0 (cs_gp s + z ! i - k), cs_gn := max 0 (cs_gn s - z ! i - k)\<rparr>"
      unfolding cusum_step_def Let_def by (simp only: if_False)
    with np False show ?thesis by (intro quiet)
  qed
qed

text \<open>While nothing has fired, the accumulators are the drifts of the two directions.\<close>

lemma cusum_run_silent:
  "(cs_onsets (cusum_run z k h m j) = [] \<longleftrightarrow>
      (\<forall>i \<le> j. i > 0 \<longrightarrow> drift (\<lambda>i. z ! i - k) m i \<le> h \<and> drift (\<lambda>i. - z ! i - k) m i \<le> h)) \<and>
   (cs_onsets (cusum_run z k h m j) = [] \<longrightarrow>
      cusum_run z k h m j = \<lparr>cs_gp = drift (\<lambda>i. z ! i - k) m j,
        cs_gn = drift (\<lambda>i. - z ! i - k) m j, cs_armed = m, cs_onsets = []\<rparr>)"
proof (induction j)
  case 0
  show ?case by (simp add: cusum_init_def)
next
  case (Suc j)
  let ?P = "\<lambda>i. drift (\<lambda>i. z ! i - k) m i \<le> h \<and> drift (\<lambda>i. - z ! i - k) m i \<le> h"
  show ?case
  proof (cases "cs_onsets (cusum_run z k h m j) = []")
    case True
    with Suc.IH have st: "cusum_run z k h m j = \<lparr>cs_gp = drift (\<lambda>i. z ! i - k) m j,
        cs_gn = drift (\<lambda>i. - z ! i - k) m j, cs_armed = m, cs_onsets = []\<rparr>" by blast
    have step: "(\<forall>i \<le> Suc j. i > 0 \<longrightarrow> ?P i) \<longleftrightarrow> (\<forall>i \<le> j. i > 0 \<longrightarrow> ?P i) \<and> ?P (Suc j)"
      by (auto simp: le_Suc_eq)
    have gp: "max 0 (cs_gp (cusum_run z k h m j) + z ! (m + j) - k) = drift (\<lambda>i. z ! i - k) m (Suc j)"
      and gn: "max 0 (cs_gn (cusum_run z k h m j) - z ! (m + j) - k) = drift (\<lambda>i. - z ! i - k) m (Suc j)"
      and armed: "cs_armed (cusum_run z k h m j) \<le> m + j"
      by (simp_all add: st algebra_simps)
    from True Suc.IH have prev: "\<forall>i \<le> j. i > 0 \<longrightarrow> ?P i" by blast
    show ?thesis
      by (cases rule: cusum_step_cases [of h "cusum_run z k h m j" z "m + j" k])
        (use prev armed in \<open>simp_all only: step gp gn cusum_run_Suc\<close>, auto simp: st)
  next
    case False
    have "cs_onsets (cusum_run z k h m (Suc j)) \<noteq> []"
      by (cases rule: cusum_step_cases [of h "cusum_run z k h m j" z "m + j" k])
        (use False in simp_all)
    moreover from False Suc.IH have "\<not> (\<forall>i \<le> Suc j. i > 0 \<longrightarrow> ?P i)" by (meson le_SucI)
    ultimately show ?thesis by blast
  qed
qed

lemma cusum_run_silent_iff:
  assumes "0 \<le> h"
  shows "cs_onsets (cusum_run z k h m j) = [] \<longleftrightarrow>
    (\<forall>a b. m \<le> a \<and> a < b \<and> b \<le> m + j \<longrightarrow>
       (\<Sum>i = a..<b. z ! i - k) \<le> h \<and> (\<Sum>i = a..<b. - z ! i - k) \<le> h)"
proof -
  have "(\<forall>i \<le> j. i > 0 \<longrightarrow> drift w m i \<le> h) \<longleftrightarrow> (\<forall>i \<le> j. drift w m i \<le> h)" for w
    using assms by (metis drift.simps(1) gr0I)
  then show ?thesis
    using cusum_run_silent [of z k h m j] drift_bounded_iff [OF assms, of j _ m] by meson
qed

text \<open>Every onset comes from an alarm; alarms are at least three samples apart.\<close>

definition onset_at :: "vec \<Rightarrow> nat \<Rightarrow> onset \<Rightarrow> bool" where
  "onset_at z i o1 \<longleftrightarrow> o_zpeak o1 = z ! i \<and>
     o_idx o1 = backtrack z (case o_dir o1 of Up \<Rightarrow> 1 | Down \<Rightarrow> -1) i"

lemma cusum_run_alarms:
  "\<exists>al. list_all2 (onset_at z) al (cs_onsets (cusum_run z k h m j)) \<and>
     sorted_wrt (\<lambda>i i'. i + 3 \<le> i') al \<and> set al \<subseteq> {m..<m + j} \<and>
     (\<forall>i \<in> set al. i + 3 \<le> cs_armed (cusum_run z k h m j)) \<and>
     m \<le> cs_armed (cusum_run z k h m j)"
proof (induction j)
  case 0
  show ?case by (simp add: cusum_init_def)
next
  case (Suc j)
  let ?s = "cusum_run z k h m j"
  from Suc.IH obtain al where al: "list_all2 (onset_at z) al (cs_onsets ?s)"
    "sorted_wrt (\<lambda>i i'. i + 3 \<le> i') al" "set al \<subseteq> {m..<m + j}"
    "\<forall>i \<in> set al. i + 3 \<le> cs_armed ?s" "m \<le> cs_armed ?s" by blast
  have alarm: ?case if "onset_at z (m + j) o1" "cs_armed ?s \<le> m + j"
    "cs_onsets (cusum_run z k h m (Suc j)) = cs_onsets ?s @ [o1]"
    "cs_armed (cusum_run z k h m (Suc j)) = m + j + 3" for o1
  proof (intro exI [of _ "al @ [m + j]"] conjI)
    show "list_all2 (onset_at z) (al @ [m + j]) (cs_onsets (cusum_run z k h m (Suc j)))"
      using that al(1) by (simp add: list_all2_appendI)
    show "sorted_wrt (\<lambda>i i'. i + 3 \<le> i') (al @ [m + j])"
      using that al(2,4) by (auto simp: sorted_wrt_append)
    show "set (al @ [m + j]) \<subseteq> {m..<m + Suc j}" using al(3) by auto
    show "\<forall>i \<in> set (al @ [m + j]). i + 3 \<le> cs_armed (cusum_run z k h m (Suc j))"
      using that al(4) by (auto simp del: cusum_run_Suc)
    show "m \<le> cs_armed (cusum_run z k h m (Suc j))" using that by (simp del: cusum_run_Suc)
  qed
  show ?case
  proof (cases rule: cusum_step_cases [of h ?s z "m + j" k])
    case up
    then show ?thesis by (intro alarm) (simp_all add: onset_at_def)
  next
    case down
    then show ?thesis by (intro alarm) (simp_all add: onset_at_def)
  next
    case quiet
    with al show ?thesis by (intro exI [of _ al]) auto
  qed
qed

lemma length_residuals [simp]: "base \<noteq> [] \<Longrightarrow> length x = length base \<Longrightarrow> length (residuals x base) = length x"
  by (cases base) (auto simp: residuals_def)

lemma length_cusum_z [simp]:
  "x \<noteq> [] \<Longrightarrow> length base = length x \<Longrightarrow> length (cusum_z np w x base) = length x"
  by (cases base) (auto simp: cusum_z_def Let_def)

lemma cusum_onsets_run:
  assumes "16 \<le> length x" and "ewma (3/10) x = Ret base"
  shows "cusum_onsets np x =
    cs_onsets (cusum_run (cusum_z np 12 x base) (1/2) 5 12 (length x - 12))"
proof -
  from assms(1) have x: "x \<noteq> []" by auto
  with ewma_total [OF x, of "3/10"] assms(2) have l: "length base = length x" by auto
  have d: "12 + (length x - 12) = length x" using assms(1) by simp
  from assms x l show ?thesis
    by (simp add: cusum_onsets_def cusum_onsets_with_def Let_def cusum_run_def d cusum_init_def)
qed

section \<open>Properties\<close>

text \<open>CUSUM silence is exactly the absence of a drifting window: no onset is
  reported on a series of at least 16 samples if and only if no window of samples after the
  warm-up accumulates more than \<open>h = 5\<close> of excess (beyond the slack \<open>k = 1/2\<close> per sample) in
  either direction, over the z-scores of the one-step-ahead residuals.\<close>

theorem cusum_onsets_silent_iff:
  assumes "16 \<le> length x" and "ewma (3/10) x = Ret base"
  shows "cusum_onsets np x = [] \<longleftrightarrow>
    (\<forall>a b. 12 \<le> a \<and> a < b \<and> b \<le> length x \<longrightarrow>
       (\<Sum>i = a..<b. cusum_z np 12 x base ! i - 1/2) \<le> 5 \<and>
       (\<Sum>i = a..<b. - cusum_z np 12 x base ! i - 1/2) \<le> 5)"
  using assms(1) by (simp add: cusum_onsets_run [OF assms] cusum_run_silent_iff)

lemma cusum_z_flat:
  assumes "i < n"
  shows "cusum_z np w (replicate n c) (replicate n c) ! i = 0"
proof -
  have "residuals (replicate n c) (replicate n c) = replicate n 0"
    using assms by (cases n) (auto simp: residuals_def butlast_conv_take zip_replicate min_def
        simp flip: replicate_Suc)
  with assms show ?thesis by (simp add: cusum_z_def Let_def)
qed

lemma ewma_flat: "0 < n \<Longrightarrow> ewma alpha (replicate n c) = Ret (replicate n c)"
  by (cases n) (auto simp: ewma_from_const)

theorem cusum_onsets_silent_iff_witness: "cusum_onsets ref_np (replicate 16 (1/4)) = []"
proof -
  have "(\<Sum>i = a..<b. cusum_z ref_np 12 (replicate 16 (1/4)) (replicate 16 (1/4)) ! i - 1/2) \<le> 5 \<and>
      (\<Sum>i = a..<b. - cusum_z ref_np 12 (replicate 16 (1/4)) (replicate 16 (1/4)) ! i - 1/2) \<le> 5"
    if "12 \<le> a \<and> a < b \<and> b \<le> 16" for a b
  proof -
    have "(\<Sum>i = a..<b. cusum_z ref_np 12 (replicate 16 (1/4)) (replicate 16 (1/4)) ! i - 1/2) = (\<Sum>i = a..<b. - (1/2))"
      "(\<Sum>i = a..<b. - cusum_z ref_np 12 (replicate 16 (1/4)) (replicate 16 (1/4)) ! i - 1/2) = (\<Sum>i = a..<b. - (1/2))"
      using that by (auto intro!: sum.cong simp: cusum_z_flat)
    moreover have "(\<Sum>i = a..<b. - (1/2)) \<le> (5::real)"
      by (rule order_trans [OF sum_nonpos]) auto
    ultimately show ?thesis by (simp only:)
  qed
  then show ?thesis
    by (intro cusum_onsets_silent_iff [THEN iffD2] allI impI) (auto simp: ewma_flat)
qed

text \<open>Every onset comes from an alarm at a sample past the warm-up, two alarms
  are at least three samples apart (the re-arming delay), the peak is the z-score at the alarm,
  and the reported index is the start of the run of same-sign residuals that leads to it.\<close>

theorem cusum_onsets_alarms:
  assumes "16 \<le> length x" and "ewma (3/10) x = Ret base"
  shows "\<exists>al. list_all2 (onset_at (cusum_z np 12 x base)) al (cusum_onsets np x) \<and>
    sorted_wrt (\<lambda>i i'. i + 3 \<le> i') al \<and> set al \<subseteq> {12..<length x}"
proof -
  have "12 + (length x - 12) = length x" using assms(1) by simp
  then show ?thesis
    using cusum_run_alarms [of "cusum_z np 12 x base" "1/2" 5 12 "length x - 12"]
    by (auto simp: cusum_onsets_run [OF assms])
qed

section \<open>The linear forecast\<close>

lemma forecast_to_limit_bounds:
  "forecast_to_limit np x cap tail = Ret (Some eta) \<Longrightarrow> 0 \<le> eta \<and> eta \<le> 3600"
proof -
  have "0 \<le> DT_S" by (simp add: DT_S_def)
  then show "forecast_to_limit np x cap tail = Ret (Some eta) \<Longrightarrow> 0 \<le> eta \<and> eta \<le> 3600"
    unfolding forecast_to_limit_def Let_def
    by (auto simp: not_less simp del: times_divide_eq_left split: if_splits intro: mult_nonneg_nonneg)
qed

lemma forecast_to_limit_total:
  "x \<noteq> [] \<Longrightarrow> \<exists>r. forecast_to_limit np x cap tail = Ret r"
  by (auto simp: forecast_to_limit_def Let_def)

context numeric_library
begin

lemma forecast_line:
  assumes "2 \<le> n" "n \<le> tail" "1 / 10 ^ 9 < m"
  shows "forecast_to_limit np (map (\<lambda>i. c + m * real i) [0..<n]) cap tail =
    Ret (let eta = (cap - (c + m * real (n - 1))) / m * DT_S
         in if eta < 0 \<or> eta > 3600 then None else Some eta)"
proof -
  let ?x = "map (\<lambda>i. c + m * real i) [0..<n]"
  have m: "0 < m" using assms(3) by (rule less_trans [rotated]) simp
  have x: "(if length ?x \<ge> tail then tail_slice tail ?x else ?x) = ?x" "?x \<noteq> []"
    using assms by (auto simp: tail_slice_def)
  have l: "last ?x = c + m * real (n - 1)" using assms(1) by (simp add: last_map)
  have "(cap - last ?x) / m < 0 \<longleftrightarrow> (cap - last ?x) / m * DT_S < 0"
    by (simp add: DT_S_def divide_less_0_iff mult_less_0_iff zero_less_divide_iff)
  then show ?thesis
    unfolding forecast_to_limit_def x(1)
    using x(2) assms m polyfit_line [OF assms(1), of c m] corrcoef_line [OF assms(1) m, of c]
    by (simp add: l nan_less_def Let_def del: of_nat_diff)
qed

end

text \<open>On a series that really is a straight climb (slope above 1e-9 per
  sample), the forecast is exact: it is the time at which the line meets the limit, and \<open>None\<close>
  when the limit is already passed or lies more than an hour ahead.\<close>

theorem forecast_line_exact:
  assumes "numeric_library np" "2 \<le> n" "n \<le> tail" "1 / 10 ^ 9 < m"
    and "x = map (\<lambda>i. c + m * real i) [0..<n]"
  shows "\<exists>eta. c + m * (real (n - 1) + eta / DT_S) = cap \<and>
    forecast_to_limit np x cap tail = Ret (if eta < 0 \<or> eta > 3600 then None else Some eta)"
proof -
  have "0 < m" using assms(4) by (rule less_trans [rotated]) simp
  then show ?thesis
    using numeric_library.forecast_line [OF assms(1-4), of c cap]
    by (intro exI [of _ "(cap - (c + m * real (n - 1))) / m * DT_S"])
      (simp add: assms(5) Let_def DT_S_def field_simps)
qed

theorem forecast_line_exact_witness:
  "forecast_to_limit ref_np [10, 12, 14, 16] 26 24 = Ret (Some 25)"
proof -
  have x: "[10, 12, 14, 16] = map (\<lambda>i. 10 + 2 * real i) [0..<4]" by (simp add: upt_rec)
  obtain eta where "10 + 2 * (real (4 - 1) + eta / DT_S) = 26"
    "forecast_to_limit ref_np [10, 12, 14, 16] 26 24 =
      Ret (if eta < 0 \<or> eta > 3600 then None else Some eta)"
    using forecast_line_exact [OF ref.numeric_library_axioms, of 4 24 2 "[10, 12, 14, 16]" 10 26] x
    by auto
  then show ?thesis by (simp add: DT_S_def)
qed

section \<open>A worked series: ten flat samples, then a step\<close>

definition step_series :: vec where
  "step_series = [0, 0, 0, 0, 0, 0, 0, 0, 0, 0, 1, 1, 1, 1, 1, 1]"

definition step_base :: vec where
  "step_base = [0, 0, 0, 0, 0, 0, 0, 0, 0, 0, 3/10, 51/100, 657/1000, 7599/10000,
     83193/100000, 882351/1000000]"

definition step_resid :: vec where
  "step_resid = [0, 0, 0, 0, 0, 0, 0, 0, 0, 0, 1, 7/10, 49/100, 343/1000, 2401/10000, 16807/100000]"

lemma step_ewma: "ewma (3/10) step_series = Ret step_base"
  by (simp add: step_series_def step_base_def Let_def)

lemma step_residuals: "residuals step_series step_base = step_resid"
  by (simp add: residuals_def step_series_def step_base_def step_resid_def)

lemma step_sort: "sort step_resid =
  [0, 0, 0, 0, 0, 0, 0, 0, 0, 0, 16807/100000, 2401/10000, 343/1000, 49/100, 7/10, 1]"
  by (simp add: step_resid_def)

lemma step_median: "ref_median step_resid = 0"
  unfolding ref_median_def step_sort by (simp add: step_resid_def)

lemma step_sigma: "robust_sigma ref_np step_resid = 1 / 10 ^ 6"
proof -
  have "map (\<lambda>v. \<bar>v - 0\<bar>) step_resid = step_resid" by (simp add: step_resid_def)
  then show ?thesis by (simp add: robust_sigma_def ref_np_def step_median)
qed

lemma step_z: "cusum_z ref_np 12 step_series step_base =
  [0, 0, 0, 0, 0, 0, 0, 0, 0, 0, 1000000, 700000, 490000, 343000, 240100, 168070]"
proof -
  have "take (sigma_window 12 (length step_series)) step_resid = step_resid"
    by (simp add: sigma_window_def step_series_def step_resid_def)
  then have "cusum_z ref_np 12 step_series step_base = map (\<lambda>v. v / (1 / 10 ^ 6)) step_resid"
    by (simp add: cusum_z_def step_residuals step_sigma)
  then show ?thesis by (simp add: step_resid_def)
qed

lemma step_onsets: "cusum_onsets ref_np step_series =
  [\<lparr>o_idx = 10, o_dir = Up, o_zpeak = 490000\<rparr>, \<lparr>o_idx = 10, o_dir = Up, o_zpeak = 168070\<rparr>]"
proof -
  have "length step_series = 16" by (simp add: step_series_def)
  then have "cusum_onsets ref_np step_series =
      cs_onsets (cusum_run [0, 0, 0, 0, 0, 0, 0, 0, 0, 0, 1000000, 700000, 490000, 343000, 240100, 168070]
        (1/2) 5 12 4)"
    by (subst cusum_onsets_run [OF _ step_ewma]) (simp_all add: step_z)
  then show ?thesis
    by (simp add: cusum_run_def upt_rec cusum_init_def) (simp add: cusum_step_def)
qed

text \<open>The warm-up protects the alarm, not the reported index: the step at sample 10 fires at
  sample 12, the first one armed, and is reported at sample 10, inside the warm-up.\<close>

lemma cusum_index_in_warmup:
  "\<exists>o1 \<in> set (cusum_onsets ref_np step_series). o_idx o1 < 12"
  by (simp add: step_onsets)

theorem cusum_onsets_alarms_witness:
  "cusum_onsets ref_np step_series \<noteq> [] \<and>
   (\<exists>al. list_all2 (onset_at (cusum_z ref_np 12 step_series step_base)) al
      (cusum_onsets ref_np step_series) \<and>
     sorted_wrt (\<lambda>i i'. i + 3 \<le> i') al \<and> set al \<subseteq> {12..<16})"
proof -
  have l: "length step_series = 16" by (simp add: step_series_def)
  show ?thesis
    using cusum_onsets_alarms [OF _ step_ewma, of ref_np] by (simp add: l step_onsets)
qed

lemma cusum_onset_idx_less:
  assumes "o1 \<in> set (cusum_onsets np x)"
  shows "o_idx o1 < length x"
proof -
  from assms have l: "16 \<le> length x"
    by (auto simp: cusum_onsets_def cusum_onsets_with_def split: if_splits)
  then obtain base where b: "ewma (3/10) x = Ret base" by (cases x) auto
  have d: "12 + (length x - 12) = length x" using l by simp
  obtain al where al: "list_all2 (onset_at (cusum_z np 12 x base)) al (cusum_onsets np x)"
    "set al \<subseteq> {12..<length x}"
    using cusum_run_alarms [of "cusum_z np 12 x base" "1/2" 5 12 "length x - 12"]
    unfolding cusum_onsets_run [OF l b, symmetric] d by blast
  from al(1) assms obtain i where "i \<in> set al" "onset_at (cusum_z np 12 x base) i o1"
    by (metis in_set_conv_nth list_all2_conv_all_nth)
  with al(2) show ?thesis
    using backtrack_le [of "cusum_z np 12 x base" "case o_dir o1 of Up \<Rightarrow> 1 | Down \<Rightarrow> - 1" i]
    by (auto simp: onset_at_def)
qed

end
