(* ===== verification/Forecast.thy ===== *)
theory Forecast
  imports Detectors
begin

text \<open>
  \<open>correlation/engine/forecast.py\<close>: the OOM early warning.  For each pod the working-set series
  is cut to its active climb, extrapolated to the pod's memory limit, and reported when the pod
  is already close to the limit and would hit it within the horizon.
\<close>

definition DEFAULT_HORIZON_S :: real where "DEFAULT_HORIZON_S = 900"
definition DEFAULT_TAIL :: nat where "DEFAULT_TAIL = 24"
definition MIN_FIT_N :: nat where "MIN_FIT_N = 6"
definition DEFAULT_MIN_FRAC :: real where "DEFAULT_MIN_FRAC = 6/10"

record incipient =
  i_pod :: string
  i_signal :: string
  i_kind :: string
  i_class :: string
  i_eta :: real
  i_value :: int
  i_limit :: int
  i_headroom :: real

definition fit_segment :: "numlib \<Rightarrow> vec \<Rightarrow> nat \<Rightarrow> nat \<Rightarrow> vec" where
  "fit_segment np x tail min_n =
     (let n = int (length x);
          ups = map o_idx (filter (\<lambda>o1. o_dir o1 = Up) (cusum_onsets np x));
          lo = (if ups \<noteq> [] then max (n - int tail) (int (last ups)) else n - int tail);
          lo' = min lo (n - int min_n)
      in drop (nat (max 0 lo')) x)"

text \<open>The body of the loop for one pod: \<open>None\<close> is \<open>continue\<close>.\<close>

definition incipient_one ::
    "numlib \<Rightarrow> real \<Rightarrow> nat \<Rightarrow> real \<Rightarrow> (string \<times> real) list \<Rightarrow> string \<times> vec \<Rightarrow> incipient option outcome" where
  "incipient_one np horizon tail min_frac limits pv =
     (case map_of limits (fst pv) of
        None \<Rightarrow> Ret None
      | Some cap \<Rightarrow>
          if cap \<le> 0 then Ret None
          else if snd pv = [] then Ret None
          else
            let cur = last (snd pv) in
            if cur < min_frac * cap then Ret None
            else
              let seg = fit_segment np (snd pv) tail MIN_FIT_N in
              and_then (forecast_to_limit np seg cap (length seg)) (\<lambda>eta.
                case eta of
                  None \<Rightarrow> Ret None
                | Some e \<Rightarrow>
                    if e > horizon then Ret None
                    else Ret (Some \<lparr>i_pod = fst pv, i_signal = ''mem'', i_kind = ''incipient'',
                           i_class = ''leak'', i_eta = py_round 1 e, i_value = round_half_even cur,
                           i_limit = round_half_even cap,
                           i_headroom = py_round 3 (max 0 (1 - cur / cap))\<rparr>)))"

fun collect_some :: "'a option outcome list \<Rightarrow> 'a list outcome" where
  "collect_some [] = Ret []"
| "collect_some (m # ms) =
     and_then m (\<lambda>a. and_then (collect_some ms) (\<lambda>rest.
       Ret (case a of None \<Rightarrow> rest | Some x \<Rightarrow> x # rest)))"

definition incipient_findings ::
    "numlib \<Rightarrow> real \<Rightarrow> nat \<Rightarrow> real \<Rightarrow> (string \<times> vec) list \<Rightarrow> (string \<times> real) list \<Rightarrow>
       incipient list outcome" where
  "incipient_findings np horizon tail min_frac mem_vectors limits =
     and_then (collect_some (map (incipient_one np horizon tail min_frac limits) mem_vectors))
       (\<lambda>out. Ret (sort_key i_eta out))"

section \<open>The fitted segment\<close>

lemma fit_segment_drop:
  obtains lo where "fit_segment np x tail min_n = drop (nat (max 0 lo)) x"
    "lo \<le> int (length x) - int min_n" "int (length x) - int (max tail min_n) \<le> lo"
proof -
  let ?n = "int (length x)"
  let ?ups = "map o_idx (filter (\<lambda>o1. o_dir o1 = Up) (cusum_onsets np x))"
  let ?lo = "if ?ups \<noteq> [] then max (?n - int tail) (int (last ?ups)) else ?n - int tail"
  have "fit_segment np x tail min_n = drop (nat (max 0 (min ?lo (?n - int min_n)))) x"
    by (simp add: fit_segment_def Let_def)
  moreover have "min ?lo (?n - int min_n) \<le> ?n - int min_n" by simp
  moreover have "?n - int (max tail min_n) \<le> min ?lo (?n - int min_n)" by auto
  ultimately show ?thesis by (rule that)
qed

text \<open>The slope is never fitted over more than \<open>max tail min_n\<close> samples nor over
  fewer than \<open>min_n\<close> of them (all of them when the series is shorter), and the segment is a suffix
  of the series.\<close>

theorem fit_segment_length:
  "\<exists>k. fit_segment np x tail min_n = drop k x \<and>
     min min_n (length x) \<le> length (fit_segment np x tail min_n) \<and>
     length (fit_segment np x tail min_n) \<le> max tail min_n"
proof -
  obtain lo where "fit_segment np x tail min_n = drop (nat (max 0 lo)) x"
    "lo \<le> int (length x) - int min_n" "int (length x) - int (max tail min_n) \<le> lo"
    by (rule fit_segment_drop)
  then show ?thesis by (intro exI [of _ "nat (max 0 lo)"]) (simp, linarith)
qed

lemma fit_segment_nonempty: "x \<noteq> [] \<Longrightarrow> 0 < min_n \<Longrightarrow> fit_segment np x tail min_n \<noteq> []"
proof -
  assume a: "x \<noteq> []" "0 < min_n"
  obtain lo where "fit_segment np x tail min_n = drop (nat (max 0 lo)) x"
    "lo \<le> int (length x) - int min_n"
    by (rule fit_segment_drop)
  with a show ?thesis by (cases x) auto
qed

section \<open>The warnings\<close>

definition oom_warning ::
    "numlib \<Rightarrow> real \<Rightarrow> nat \<Rightarrow> real \<Rightarrow> (string \<times> real) list \<Rightarrow> string \<Rightarrow> vec \<Rightarrow> real \<Rightarrow> real \<Rightarrow> bool" where
  "oom_warning np horizon tail min_frac limits pod v cap eta \<longleftrightarrow>
     map_of limits pod = Some cap \<and> 0 < cap \<and> v \<noteq> [] \<and> min_frac * cap \<le> last v \<and>
     forecast_to_limit np (fit_segment np v tail MIN_FIT_N) cap
       (length (fit_segment np v tail MIN_FIT_N)) = Ret (Some eta) \<and> eta \<le> horizon"

lemma incipient_one_total: "\<exists>r. incipient_one np horizon tail min_frac limits pv = Ret r"
proof -
  have f: "\<exists>r. forecast_to_limit np (fit_segment np v tail MIN_FIT_N) cap t = Ret r" if "v \<noteq> []" for v cap t
    using that by (intro forecast_to_limit_total fit_segment_nonempty) (simp_all add: MIN_FIT_N_def)
  show ?thesis
  proof (cases "\<exists>cap. map_of limits (fst pv) = Some cap \<and> 0 < cap \<and> snd pv \<noteq> []")
    case True
    then obtain cap where cap: "map_of limits (fst pv) = Some cap" "0 < cap" "snd pv \<noteq> []" by blast
    obtain r where "forecast_to_limit np (fit_segment np (snd pv) tail MIN_FIT_N) cap
        (length (fit_segment np (snd pv) tail MIN_FIT_N)) = Ret r"
      using f [OF cap(3)] by blast
    with cap show ?thesis by (cases r) (simp_all add: incipient_one_def Let_def)
  next
    case False
    then show ?thesis by (fastforce simp: incipient_one_def not_le split: option.splits)
  qed
qed

lemma incipient_one_Some_iff:
  "incipient_one np horizon tail min_frac limits (pod, v) = Ret (Some f) \<longleftrightarrow>
     (\<exists>cap eta. oom_warning np horizon tail min_frac limits pod v cap eta \<and>
        f = \<lparr>i_pod = pod, i_signal = ''mem'', i_kind = ''incipient'', i_class = ''leak'',
          i_eta = py_round 1 eta, i_value = round_half_even (last v),
          i_limit = round_half_even cap, i_headroom = py_round 3 (max 0 (1 - last v / cap))\<rparr>)"
  (is "?l \<longleftrightarrow> ?r")
proof
  assume ?l
  then show ?r
    by (auto simp: incipient_one_def oom_warning_def Let_def not_less split: option.splits if_splits)
next
  assume ?r
  then show ?l by (auto simp: incipient_one_def oom_warning_def Let_def)
qed

lemma collect_some_spec:
  assumes "\<And>x. x \<in> set xs \<Longrightarrow> \<exists>r. g x = Ret r"
    and "\<And>x f. x \<in> set xs \<Longrightarrow> g x = Ret (Some f) \<Longrightarrow> key f = k x"
  shows "\<exists>out. collect_some (map g xs) = Ret out \<and>
    (\<forall>f. f \<in> set out \<longleftrightarrow> (\<exists>x \<in> set xs. g x = Ret (Some f))) \<and>
    (distinct (map k xs) \<longrightarrow> distinct (map key out))"
  using assms
proof (induction xs)
  case (Cons x xs)
  from Cons.IH Cons.prems obtain out where out: "collect_some (map g xs) = Ret out"
    "\<forall>f. f \<in> set out \<longleftrightarrow> (\<exists>x \<in> set xs. g x = Ret (Some f))"
    "distinct (map k xs) \<longrightarrow> distinct (map key out)" by fastforce
  from Cons.prems(1) obtain r where r: "g x = Ret r" by fastforce
  show ?case
  proof (cases r)
    case None
    with r out show ?thesis by auto
  next
    case (Some f)
    have "key f = k x" using Cons.prems(2) [of x f] r Some by simp
    moreover have "key f' \<in> k ` set xs" if "f' \<in> set out" for f'
      using that out(2) Cons.prems(2) by (metis image_eqI list.set_intros(2))
    ultimately show ?thesis using Some r out by (intro exI [of _ "f # out"]) auto
  qed
qed simp

lemma collect_some_total: "\<forall>x \<in> set xs. \<exists>r. g x = Ret r \<Longrightarrow> \<exists>out. collect_some (map g xs) = Ret out"
  by (induction xs) auto

lemma incipient_findings_total: "\<exists>out. incipient_findings np horizon tail min_frac mem limits = Ret out"
  using collect_some_total [of mem "incipient_one np horizon tail min_frac limits"] incipient_one_total
  by (auto simp: incipient_findings_def)

lemma incipient_one_bounds:
  assumes "incipient_one np horizon tail min_frac limits pv = Ret (Some f)"
  shows "0 \<le> i_eta f \<and> i_eta f \<le> py_round 1 horizon \<and> 0 \<le> i_headroom f \<and>
    i_headroom f \<le> py_round 3 (max 0 (1 - min_frac))"
proof -
  obtain p v where pv: "pv = (p, v)" by (cases pv)
  from assms obtain cap eta where w: "oom_warning np horizon tail min_frac limits p v cap eta"
    and f: "i_eta f = py_round 1 eta" "i_headroom f = py_round 3 (max 0 (1 - last v / cap))"
    by (auto simp: incipient_one_Some_iff pv)
  have "0 \<le> eta" "eta \<le> horizon" "min_frac \<le> last v / cap"
    using w forecast_to_limit_bounds by (auto simp: oom_warning_def pos_le_divide_eq)
  then show ?thesis unfolding f by (auto intro!: py_round_mono py_round_nonneg)
qed

text \<open>C30 (functional).  The early warning always returns, soonest first, with at most one
  finding per pod, and warns exactly about the pods with a positive limit that are past the
  configured fraction of it and whose active climb meets it within the horizon; reported ETA and
  headroom stay within the configured bounds.\<close>

theorem incipient_findings_correct:
  assumes "distinct (map fst mem)"
  shows "\<exists>out. incipient_findings np horizon tail min_frac mem limits = Ret out \<and>
    sorted (map i_eta out) \<and> distinct (map i_pod out) \<and>
    (\<forall>p. p \<in> i_pod ` set out \<longleftrightarrow>
       (\<exists>v cap eta. (p, v) \<in> set mem \<and> oom_warning np horizon tail min_frac limits p v cap eta)) \<and>
    (\<forall>f \<in> set out. 0 \<le> i_eta f \<and> i_eta f \<le> py_round 1 horizon \<and> 0 \<le> i_headroom f \<and>
       i_headroom f \<le> py_round 3 (max 0 (1 - min_frac)))"
proof -
  let ?g = "incipient_one np horizon tail min_frac limits"
  obtain out where out: "collect_some (map ?g mem) = Ret out"
    "\<forall>f. f \<in> set out \<longleftrightarrow> (\<exists>x \<in> set mem. ?g x = Ret (Some f))"
    "distinct (map i_pod out)"
  proof -
    have key: "i_pod f = fst pv" if "?g pv = Ret (Some f)" for pv f
      using that by (cases pv) (auto simp: incipient_one_Some_iff)
    show ?thesis
      using collect_some_spec [of mem ?g i_pod fst, OF incipient_one_total key] assms that by blast
  qed
  have pods: "p \<in> i_pod ` set out \<longleftrightarrow>
      (\<exists>v cap eta. (p, v) \<in> set mem \<and> oom_warning np horizon tail min_frac limits p v cap eta)" for p
  proof
    assume "p \<in> i_pod ` set out"
    then obtain f where f: "f \<in> set out" "i_pod f = p" by blast
    with out(2) obtain q v where x: "(q, v) \<in> set mem" "?g (q, v) = Ret (Some f)" by force
    then obtain cap eta where "oom_warning np horizon tail min_frac limits q v cap eta" "i_pod f = q"
      unfolding incipient_one_Some_iff by force
    with x(1) f(2) show "\<exists>v cap eta. (p, v) \<in> set mem \<and> oom_warning np horizon tail min_frac limits p v cap eta"
      by blast
  next
    assume "\<exists>v cap eta. (p, v) \<in> set mem \<and> oom_warning np horizon tail min_frac limits p v cap eta"
    then obtain v cap eta where w: "(p, v) \<in> set mem" "oom_warning np horizon tail min_frac limits p v cap eta"
      by blast
    then obtain f where f: "?g (p, v) = Ret (Some f)" "i_pod f = p"
      unfolding incipient_one_Some_iff by force
    with w(1) out(2) have "f \<in> set out" by blast
    with f(2) show "p \<in> i_pod ` set out" by blast
  qed
  have "0 \<le> i_eta f \<and> i_eta f \<le> py_round 1 horizon \<and> 0 \<le> i_headroom f \<and>
       i_headroom f \<le> py_round 3 (max 0 (1 - min_frac))" if "f \<in> set out" for f
    using that out(2) incipient_one_bounds by blast
  with out pods show ?thesis
    by (intro exI [of _ "sort_key i_eta out"]) (simp add: incipient_findings_def distinct_map)
qed

lemma climb_segment:
  "fit_segment ref_np [60, 62, 64, 66, 68, 70, 72, 74] 24 MIN_FIT_N = [60, 62, 64, 66, 68, 70, 72, 74]"
  by (simp add: fit_segment_def cusum_onsets_def cusum_onsets_with_def MIN_FIT_N_def)

lemma climb_forecast:
  "forecast_to_limit ref_np [60, 62, 64, 66, 68, 70, 72, 74] 100
     (length [60, 62, 64, 66, 68, 70, 72, 74 :: real]) = Ret (Some 65)"
proof -
  have x: "[60, 62, 64, 66, 68, 70, 72, 74] = map (\<lambda>i. 60 + 2 * real i) [0..<8]" by (simp add: upt_rec)
  show ?thesis
    unfolding x length_map length_upt diff_zero
    by (subst ref.forecast_line) (simp_all add: DT_S_def)
qed

theorem incipient_findings_correct_witness:
  "\<exists>out. incipient_findings ref_np 900 24 (6/10) [(''vision-qc'', [60, 62, 64, 66, 68, 70, 72, 74])]
      [(''vision-qc'', 100)] = Ret out \<and> ''vision-qc'' \<in> i_pod ` set out"
proof -
  have "oom_warning ref_np 900 24 (6/10) [(''vision-qc'', 100)] ''vision-qc''
      [60, 62, 64, 66, 68, 70, 72, 74] 100 65"
    unfolding oom_warning_def climb_segment climb_forecast by simp
  then show ?thesis
    using incipient_findings_correct [of "[(''vision-qc'', [60, 62, 64, 66, 68, 70, 72, 74])]"
        ref_np 900 24 "6/10" "[(''vision-qc'', 100)]"] by fastforce
qed

end
