(* ===== verification/Lagcorr.thy ===== *)
theory Lagcorr
  imports Detectors
begin

text \<open>
  \<open>correlation/engine/lagcorr.py\<close>: lagged cross-correlation of two signal vectors.  A profile is
  the dictionary from lag (seconds) to correlation, in the order the lags are tried.  scipy's
  correlation functions are the numeric library's; a NaN correlation counts as 0.
\<close>

definition LAGS_S :: "int list" where
  "LAGS_S = [0, 5, 15, 30, 60, 120]"

type_synonym profile = "(int \<times> real) list"

definition znorm :: "numlib \<Rightarrow> vec \<Rightarrow> vec" where
  "znorm np x =
     (let sd = np_std np x
      in map (\<lambda>v. (v - np_mean np x) / (if sd > 1 / 10 ^ 9 then sd else 1)) x)"

definition corr_at_lag :: "numlib \<Rightarrow> vec \<Rightarrow> vec \<Rightarrow> int \<Rightarrow> real" where
  "corr_at_lag np src dst lag_samples =
     (let a = (if lag_samples > 0 then take (length src - nat lag_samples) src else src);
          b = (if lag_samples > 0 then drop (nat lag_samples) dst else dst)
      in if length a < 12 \<or> np_std np a < 1 / 10 ^ 9 \<or> np_std np b < 1 / 10 ^ 9 then 0
         else
           let r = (if nan_abs_greater (st_skew np a) 2 \<or> nan_abs_greater (st_skew np b) 2
                    then st_spearmanr np a b else st_pearsonr np a b)
           in (case r of None \<Rightarrow> 0 | Some v \<Rightarrow> v))"

definition lag_samples :: "int \<Rightarrow> int" where
  "lag_samples lag_s = round_half_even (of_int lag_s / DT_S)"

definition lag_profile :: "numlib \<Rightarrow> vec \<Rightarrow> vec \<Rightarrow> profile" where
  "lag_profile np src dst =
     map (\<lambda>lag_s. (lag_s, corr_at_lag np (znorm np src) (znorm np dst) (lag_samples lag_s)))
       (filter (\<lambda>lag_s. \<not> lag_samples lag_s \<ge> int (length src) - 12) LAGS_S)"

text \<open>scipy's correlations raise a ValueError on samples of different lengths; \<open>best_directed\<close> cuts
  both vectors to the same length, a caller of \<open>lag_profile\<close> may not.\<close>

definition profile_raises :: "numlib \<Rightarrow> vec \<Rightarrow> vec \<Rightarrow> bool" where
  "profile_raises np src dst \<longleftrightarrow> length src \<noteq> length dst \<and>
     list_ex (\<lambda>lag_s.
         let k = nat (lag_samples lag_s);
             a = take (length src - k) (znorm np src);
             b = drop k (znorm np dst)
         in \<not> (length a < 12 \<or> np_std np a < 1 / 10 ^ 9 \<or> np_std np b < 1 / 10 ^ 9))
       (filter (\<lambda>lag_s. \<not> lag_samples lag_s \<ge> int (length src) - 12) LAGS_S)"

record directed =
  bd_forward :: bool
  bd_r :: real
  bd_lag :: int
  bd_profile :: profile

definition strongest :: "profile \<Rightarrow> int \<times> real" where
  "strongest prof = (case max_by (\<lambda>kv. \<bar>snd kv\<bar>) prof of None \<Rightarrow> (0, 0) | Some kv \<Rightarrow> kv)"

definition best_directed :: "numlib \<Rightarrow> vec \<Rightarrow> vec \<Rightarrow> directed" where
  "best_directed np srcv dstv =
     (let n = min (length srcv) (length dstv);
          s = tail_slice n srcv; d = tail_slice n dstv;
          fwd = lag_profile np s d; rev = lag_profile np d s;
          fbest = strongest fwd; rbest = strongest rev
      in if \<bar>snd rbest\<bar> > \<bar>snd fbest\<bar> + 1 / 10 ^ 9
         then \<lparr>bd_forward = False, bd_r = snd rbest, bd_lag = fst rbest, bd_profile = rev\<rparr>
         else \<lparr>bd_forward = True, bd_r = snd fbest, bd_lag = fst fbest, bd_profile = fwd\<rparr>)"

fun index_of :: "'a \<Rightarrow> 'a list \<Rightarrow> nat" where
  "index_of x [] = 0"
| "index_of x (y # ys) = (if x = y then 0 else Suc (index_of x ys))"

definition adjacent_support :: "profile \<Rightarrow> int \<Rightarrow> real \<Rightarrow> bool" where
  "adjacent_support prof peak_lag flr =
     (let lags = sort (map fst prof) in
      if peak_lag \<notin> set lags then False
      else
        let i = index_of peak_lag lags;
            neighbors = (if 0 < i then [lags ! (i - 1)] else []) @
                        (if i + 1 < length lags then [lags ! (i + 1)] else [])
        in list_ex (\<lambda>n. case map_of prof n of None \<Rightarrow> False | Some r \<Rightarrow> \<bar>r\<bar> \<ge> flr) neighbors)"

section \<open>Lemmas\<close>

lemma lag_samples_values:
  "map lag_samples LAGS_S = [0, 1, 3, 6, 12, 24]"
  by (simp add: LAGS_S_def lag_samples_def DT_S_def round_half_even_def)

lemma distinct_LAGS_S: "distinct LAGS_S"
  by (simp add: LAGS_S_def)

lemma sorted_LAGS_S: "sorted LAGS_S"
  by (simp add: LAGS_S_def)

lemma fst_lag_profile:
  "map fst (lag_profile np src dst) =
     filter (\<lambda>lag_s. lag_samples lag_s < int (length src) - 12) LAGS_S"
  by (simp add: lag_profile_def o_def not_le)

lemma distinct_lag_profile [simp]: "distinct (map fst (lag_profile np src dst))"
  by (simp add: fst_lag_profile distinct_LAGS_S)

lemma lag_profile_lag: "(l, r) \<in> set (lag_profile np src dst) \<Longrightarrow> l \<in> set LAGS_S"
  by (auto simp: lag_profile_def)

lemma LAGS_S_nonneg: "l \<in> set LAGS_S \<Longrightarrow> 0 \<le> l \<and> l \<le> 120"
  by (auto simp: LAGS_S_def)

lemma strongest_mem: "prof \<noteq> [] \<Longrightarrow> strongest prof \<in> set prof"
  by (auto simp: strongest_def split: option.splits dest: max_by_mem)

lemma strongest_ge: "kv \<in> set prof \<Longrightarrow> \<bar>snd kv\<bar> \<le> \<bar>snd (strongest prof)\<bar>"
  by (auto simp: strongest_def split: option.splits dest: max_by_ge)

lemma strongest_Nil [simp]: "strongest [] = (0, 0)"
  by (simp add: strongest_def)

text \<open>On a tie within one profile the smaller lag, here lag 0, is taken: the first maximum.\<close>

lemma strongest_tie_zero_lag: "strongest [(0, 9/10), (5, 9/10)] = (0, 9/10)"
  by (simp add: strongest_def)

text \<open>What the gate needs of a neighbour: a lag of the profile next to the peak, with nothing
  between them, whose correlation is at least the floor in absolute value.\<close>

lemma adjacent_support_neighbour:
  "adjacent_support prof peak flr \<Longrightarrow>
     peak \<in> fst ` set prof \<and> (\<exists>n r. (n, r) \<in> set prof \<and> flr \<le> \<bar>r\<bar>)"
  by (force simp: adjacent_support_def Let_def list_ex_iff split: if_splits option.splits dest: map_of_SomeD)

lemma adjacent_support_Nil [simp]: "\<not> adjacent_support [] peak flr"
  by (simp add: adjacent_support_def)

lemma adjacent_support_single: "\<not> adjacent_support [(l, r)] peak flr"
  by (simp add: adjacent_support_def)

context numeric_library
begin

lemma corr_at_lag_range: "\<bar>corr_at_lag np a b l\<bar> \<le> 1"
  by (auto simp: corr_at_lag_def Let_def split: option.splits intro: pearson_range spearman_range)

lemma lag_profile_range: "(l, r) \<in> set (lag_profile np a b) \<Longrightarrow> \<bar>r\<bar> \<le> 1"
  by (auto simp: lag_profile_def corr_at_lag_range)

lemma strongest_lag_profile_range: "\<bar>snd (strongest (lag_profile np a b))\<bar> \<le> 1"
  using strongest_mem [of "lag_profile np a b"] lag_profile_range [of _ _ a b]
  by (cases "lag_profile np a b = []") (simp, metis prod.collapse)

lemma best_directed_range: "\<bar>bd_r (best_directed np a b)\<bar> \<le> 1"
  by (simp add: best_directed_def Let_def strongest_lag_profile_range)

end

lemma best_directed_lag: "0 \<le> bd_lag (best_directed np a b) \<and> bd_lag (best_directed np a b) \<le> 120"
proof -
  have "0 \<le> fst (strongest (lag_profile np u v)) \<and> fst (strongest (lag_profile np u v)) \<le> 120" for u v
    using strongest_mem [of "lag_profile np u v"] lag_profile_lag LAGS_S_nonneg
    by (cases "lag_profile np u v = []") (simp, metis prod.collapse)
  then show ?thesis by (simp add: best_directed_def Let_def)
qed

text \<open>The profile of the two windows aligned on their common tail.\<close>

definition aligned_profile :: "numlib \<Rightarrow> vec \<Rightarrow> vec \<Rightarrow> profile" where
  "aligned_profile np a b =
     (let n = min (length a) (length b) in lag_profile np (tail_slice n a) (tail_slice n b))"

lemma best_directed_aligned:
  "best_directed np a b =
     (let f = aligned_profile np a b; r = aligned_profile np b a
      in if \<bar>snd (strongest r)\<bar> > \<bar>snd (strongest f)\<bar> + 1 / 10 ^ 9
         then \<lparr>bd_forward = False, bd_r = snd (strongest r), bd_lag = fst (strongest r), bd_profile = r\<rparr>
         else \<lparr>bd_forward = True, bd_r = snd (strongest f), bd_lag = fst (strongest f), bd_profile = f\<rparr>)"
  by (simp add: best_directed_def aligned_profile_def Let_def min.commute)

text \<open>The direction is a property of the pair, not of the argument order: unless the two
  directions tie within 1e-9, swapping the arguments flips the verdict and keeps the rest.\<close>

lemma best_directed_swap:
  assumes "1 / 10 ^ 9 <
    \<bar>\<bar>snd (strongest (aligned_profile np a b))\<bar> - \<bar>snd (strongest (aligned_profile np b a))\<bar>\<bar>"
  shows "best_directed np b a =
    (best_directed np a b)\<lparr>bd_forward := \<not> bd_forward (best_directed np a b)\<rparr>"
proof -
  let ?f = "\<bar>snd (strongest (aligned_profile np a b))\<bar>"
  let ?r = "\<bar>snd (strongest (aligned_profile np b a))\<bar>"
  from assms have "?f + 1 / 10 ^ 9 < ?r \<or> ?r + 1 / 10 ^ 9 < ?f" by linarith
  then show ?thesis by (elim disjE) (auto simp: best_directed_aligned Let_def)
qed

text \<open>The two windows are aligned on their common tail, both directions are
  profiled, and the answer's correlation is the strongest of both profiles up to the 1e-9 tie
  tolerance; it is the entry of the returned profile at the returned lag (0 at lag 0 when the
  windows are too short to profile).\<close>

theorem best_directed_strongest:
  "let d = best_directed np a b in
   bd_profile d = (if bd_forward d then aligned_profile np a b else aligned_profile np b a) \<and>
   (if bd_profile d = [] then bd_lag d = 0 \<and> bd_r d = 0 else (bd_lag d, bd_r d) \<in> set (bd_profile d)) \<and>
   (\<nexists>l r. (l, r) \<in> set (aligned_profile np a b) \<union> set (aligned_profile np b a) \<and>
      \<bar>r\<bar> > \<bar>bd_r d\<bar> + 1 / 10 ^ 9)"
proof -
  let ?f = "aligned_profile np a b" and ?r = "aligned_profile np b a" and ?d = "best_directed np a b"
  have "\<bar>r\<bar> \<le> \<bar>bd_r ?d\<bar> + 1 / 10 ^ 9" if "(l, r) \<in> set ?f \<union> set ?r" for l r
    using that strongest_ge [of "(l, r)" ?f] strongest_ge [of "(l, r)" ?r]
    unfolding best_directed_aligned Let_def by (auto split: if_splits)
  then have "\<nexists>l r. (l, r) \<in> set ?f \<union> set ?r \<and> \<bar>r\<bar> > \<bar>bd_r ?d\<bar> + 1 / 10 ^ 9"
    by (meson not_le)
  then show ?thesis
    using strongest_mem [of ?f] strongest_mem [of ?r] unfolding best_directed_aligned Let_def by auto
qed

end
