(* ===== verification/Causal_Graph.thy ===== *)
theory Causal_Graph
  imports Detectors
begin

text \<open>
  The JSON objects the engine passes around, as records: edges, findings, ranked root causes,
  predicted victims and the graph that holds them.  A key a dictionary may lack is an option.
  \<open>rendered_edge\<close> extends an edge with what the memory and the merge add to it.
\<close>

record edge =
  e_src :: string
  e_dst :: string
  e_r :: real
  e_lag :: int
  e_evidence :: "string list"

datatype edge_state = Active | Confirming | Steady | Decaying | Hidden

datatype edge_source = Live | Memory

record rendered_edge = edge +
  re_confidence :: "real option"
  re_base_conf :: "real option"
  re_state :: "edge_state option"
  re_hits :: "int option"
  re_weight :: "real option"
  re_last_seen :: "real option"
  re_source :: "edge_source option"
  re_signal :: "string option"

record finding =
  f_pod :: string
  f_class :: shape
  f_onset :: real
  f_severity :: real
  f_n_onsets :: nat

record ranked =
  rc_pod :: string
  rc_score :: real
  rc_onset :: "real option"

record victim =
  v_pod :: string
  v_impact :: real
  v_eta :: int

record pass_graph =
  pg_findings :: "finding list"
  pg_edges :: "edge list"
  pg_ranking :: "ranked list"
  pg_blast :: "victim list"
  pg_pods :: nat
  pg_active :: nat
  pg_accepted :: nat

definition plain_edge :: "('a) edge_scheme \<Rightarrow> edge" where
  "plain_edge e = \<lparr>e_src = e_src e, e_dst = e_dst e, e_r = e_r e, e_lag = e_lag e,
     e_evidence = e_evidence e\<rparr>"

text \<open>An unordered pair, for the code's \<open>frozenset((a, b))\<close>: a set of frozensets is the list of
  its elements in iteration order, each given by one of its two orientations.\<close>

type_synonym pair_set = "(string \<times> string) list"

definition has_pair :: "pair_set \<Rightarrow> string \<Rightarrow> string \<Rightarrow> bool" where
  "has_pair s a b \<longleftrightarrow> (a, b) \<in> set s \<or> (b, a) \<in> set s"

definition same_pair :: "string \<times> string \<Rightarrow> string \<times> string \<Rightarrow> bool" where
  "same_pair p q \<longleftrightarrow> p = q \<or> p = (snd q, fst q)"

lemma has_pair_sym: "has_pair s a b = has_pair s b a"
  by (auto simp: has_pair_def)

lemma same_pair_refl [simp]: "same_pair p p"
  by (simp add: same_pair_def)

lemma same_pair_sym: "same_pair p q \<Longrightarrow> same_pair q p"
  by (auto simp: same_pair_def)

lemma same_pair_trans: "same_pair p q \<Longrightarrow> same_pair q r \<Longrightarrow> same_pair p r"
  by (auto simp: same_pair_def)

lemma same_pair_set: "same_pair (a, b) (c, d) \<longleftrightarrow> {a, b} = {c, d}"
  by (auto simp: same_pair_def doubleton_eq_iff)


definition pair_of :: "('a) edge_scheme \<Rightarrow> string \<times> string" where
  "pair_of e = (e_src e, e_dst e)"

text \<open>A list whose items lie on different unordered pairs.\<close>

definition unpaired :: "('a \<Rightarrow> string \<times> string) \<Rightarrow> 'a list \<Rightarrow> bool" where
  "unpaired pr xs \<longleftrightarrow> sorted_wrt (\<lambda>x y. \<not> same_pair (pr x) (pr y)) xs"

definition one_per_pair :: "('a) edge_scheme list \<Rightarrow> bool" where
  "one_per_pair es \<longleftrightarrow> unpaired pair_of es"

lemma unpaired_iff:
  "unpaired pr xs \<longleftrightarrow> distinct xs \<and> (\<forall>x \<in> set xs. \<forall>y \<in> set xs. same_pair (pr x) (pr y) \<longrightarrow> x = y)"
  by (induction xs) (auto simp: unpaired_def dest: same_pair_sym)

section \<open>The strongest item of each pair\<close>

text \<open>A dictionary keyed by the frozenset of an item's two ends that keeps the item of greatest
  preference, the first one on ties: entering one item.\<close>

fun choose_by :: "('a \<Rightarrow> string \<times> string) \<Rightarrow> ('a \<Rightarrow> 'k::linorder) \<Rightarrow> 'a \<Rightarrow> 'a list \<Rightarrow> 'a list" where
  "choose_by pr pref x [] = [x]"
| "choose_by pr pref x (c # cs) =
     (if same_pair (pr x) (pr c) then (if pref x > pref c then x # cs else c # cs)
      else c # choose_by pr pref x cs)"

lemma choose_by_mem: "set (choose_by pr pref x cs) \<subseteq> insert x (set cs)"
  by (induction cs) auto

lemma choose_by_unpaired: "unpaired pr cs \<Longrightarrow> unpaired pr (choose_by pr pref x cs)"
proof (induction cs)
  case (Cons c cs)
  then have c: "\<forall>d \<in> set cs. \<not> same_pair (pr c) (pr d)" and cs: "unpaired pr cs"
    by (simp_all add: unpaired_def)
  show ?case
  proof (cases "same_pair (pr x) (pr c)")
    case True
    then have "\<forall>d \<in> set cs. \<not> same_pair (pr x) (pr d)"
      using c by (meson same_pair_sym same_pair_trans)
    with True c cs show ?thesis by (simp add: unpaired_def)
  next
    case False
    have "\<not> same_pair (pr c) (pr d)" if "d \<in> set (choose_by pr pref x cs)" for d
      using choose_by_mem [of pr pref x cs] that c False same_pair_sym by blast
    with False Cons.IH [OF cs] show ?thesis by (simp add: unpaired_def)
  qed
qed (simp add: unpaired_def)

lemma choose_by_keeps:
  "c \<in> insert x (set cs) \<Longrightarrow>
     \<exists>d \<in> set (choose_by pr pref x cs). same_pair (pr c) (pr d) \<and> pref c \<le> pref d"
proof (induction cs)
  case (Cons y cs)
  show ?case
  proof (cases "same_pair (pr x) (pr y)")
    case True
    then have sym: "same_pair (pr y) (pr x)" by (rule same_pair_sym)
    show ?thesis
    proof (cases "c \<in> set cs")
      case True
      with \<open>same_pair (pr x) (pr y)\<close> show ?thesis by (intro bexI [of _ c]) simp_all
    next
      case False
      with True sym Cons.prems show ?thesis
        by (cases "pref x > pref y") (auto intro: less_imp_le)
    qed
  qed (use Cons in auto)
qed simp

lemma chosen_spec:
  "unpaired pr (foldl (\<lambda>cs x. choose_by pr pref x cs) [] xs) \<and>
   set (foldl (\<lambda>cs x. choose_by pr pref x cs) [] xs) \<subseteq> set xs \<and>
   (\<forall>c \<in> set xs. \<exists>d \<in> set (foldl (\<lambda>cs x. choose_by pr pref x cs) [] xs).
      same_pair (pr c) (pr d) \<and> pref c \<le> pref d)"
proof (induction xs rule: rev_induct)
  case (snoc x xs)
  let ?r = "foldl (\<lambda>cs x. choose_by pr pref x cs) [] xs"
  have "\<exists>d \<in> set (choose_by pr pref x ?r). same_pair (pr c) (pr d) \<and> pref c \<le> pref d"
    if c: "c \<in> set (xs @ [x])" for c
  proof (cases "c \<in> set xs")
    case True
    with snoc obtain d where d: "d \<in> set ?r" "same_pair (pr c) (pr d)" "pref c \<le> pref d" by blast
    with choose_by_keeps [of d x ?r pr pref] obtain d' where
      "d' \<in> set (choose_by pr pref x ?r)" "same_pair (pr d) (pr d')" "pref d \<le> pref d'" by auto
    with d show ?thesis by (meson order_trans same_pair_trans)
  qed (use c choose_by_keeps [of x x ?r pr pref] in auto)
  moreover have "unpaired pr (choose_by pr pref x ?r)" using snoc by (simp add: choose_by_unpaired)
  moreover have "set (choose_by pr pref x ?r) \<subseteq> set (xs @ [x])"
    using choose_by_mem [of pr pref x ?r] snoc by auto
  ultimately show ?case by simp
qed (simp add: unpaired_def)

end
