(* ===== verification/Gate.thy ===== *)
theory Gate
  imports Causal_Graph Lagcorr
begin

text \<open>
  \<open>correlation/engine/gate.py\<close>: the physical witness and the three-clause evidence gate.  The
  pipeline relies on the two coupling tests only through the laws of the locale
  \<open>coupling_witness\<close>, which \<open>Witness.kinds\<close> interprets.
\<close>

definition R_PEAK :: real where "R_PEAK = 6/10"
definition R_ADJ :: real where "R_ADJ = 4/10"
definition TEMPORAL_TOL_S :: real where "TEMPORAL_TOL_S = 10"
definition COUPLING_KINDS :: "string list" where "COUPLING_KINDS = [''ebpf'', ''pvc'']"
definition SOURCE_COUPLING_KINDS :: "string list" where
  "SOURCE_COUPLING_KINDS = [''ebpf'', ''pvc'', ''node'']"

record witness =
  w_ebpf :: "(string \<times> string) list"
  w_psi :: pair_set
  w_shared :: pair_set
  w_node :: pair_set

definition kinds :: "witness \<Rightarrow> string \<Rightarrow> string \<Rightarrow> string list" where
  "kinds w src dst =
     (if (src, dst) \<in> set (w_ebpf w) \<or> (dst, src) \<in> set (w_ebpf w) then [''ebpf''] else []) @
     (if has_pair (w_psi w) src dst then [''psi''] else []) @
     (if has_pair (w_shared w) src dst then [''pvc''] else []) @
     (if has_pair (w_node w) src dst then [''node''] else [])"

definition couples :: "witness \<Rightarrow> string \<Rightarrow> string \<Rightarrow> bool" where
  "couples w src dst = list_ex (\<lambda>k. k \<in> set COUPLING_KINDS) (kinds w src dst)"

definition couples_source :: "witness \<Rightarrow> string \<Rightarrow> string \<Rightarrow> bool" where
  "couples_source w src dst = list_ex (\<lambda>k. k \<in> set SOURCE_COUPLING_KINDS) (kinds w src dst)"

definition accept_edge ::
    "string \<Rightarrow> string \<Rightarrow> real \<Rightarrow> int \<Rightarrow> profile \<Rightarrow> witness \<Rightarrow> (string \<rightharpoonup> real) \<Rightarrow> edge option" where
  "accept_edge src dst r lag_s prof w onset_s =
     (if r < R_PEAK \<or> \<not> adjacent_support prof lag_s R_ADJ then None
      else
        let ks = kinds w src dst in
        if \<not> list_ex (\<lambda>k. k \<in> set COUPLING_KINDS) ks then None
        else
          let mk = (\<lambda>temporal. Some \<lparr>e_src = src, e_dst = dst, e_r = py_round 3 r, e_lag = lag_s,
                e_evidence = [''stat''] @ ks @ (if temporal then [''temporal''] else [])\<rparr>)
          in (case (onset_s src, onset_s dst) of
                (Some t_src, Some t_dst) \<Rightarrow>
                  if t_src > t_dst + TEMPORAL_TOL_S then None
                  else if lag_s > 0 \<and> t_dst - t_src > 4 * of_int lag_s + TEMPORAL_TOL_S then None
                  else mk True
              | _ \<Rightarrow> mk False))"

section \<open>The witness\<close>

lemma kinds_sym: "kinds w a b = kinds w b a"
  by (auto simp: kinds_def has_pair_sym)

lemma set_kinds: "set (kinds w a b) \<subseteq> {''ebpf'', ''psi'', ''pvc'', ''node''}"
  by (auto simp: kinds_def)

lemma couples_iff:
  "couples w a b \<longleftrightarrow> (a, b) \<in> set (w_ebpf w) \<or> (b, a) \<in> set (w_ebpf w) \<or> has_pair (w_shared w) a b"
  by (auto simp: couples_def kinds_def COUPLING_KINDS_def)

lemma couples_source_iff:
  "couples_source w a b \<longleftrightarrow> couples w a b \<or> has_pair (w_node w) a b"
  by (auto simp: couples_source_def couples_iff kinds_def SOURCE_COUPLING_KINDS_def)

locale coupling_witness =
  fixes couples_by :: "string \<Rightarrow> string \<Rightarrow> bool"
    and couples_source_by :: "string \<Rightarrow> string \<Rightarrow> bool"
  assumes couples_sym: "couples_by a b \<Longrightarrow> couples_by b a"
    and couples_source_sym: "couples_source_by a b \<Longrightarrow> couples_source_by b a"
    and couples_imp_source: "couples_by a b \<Longrightarrow> couples_source_by a b"
begin

lemma couples_commute: "couples_by a b = couples_by b a"
  using couples_sym by blast

lemma uncoupled_source: "\<not> couples_source_by a b \<Longrightarrow> \<not> couples_by a b \<and> \<not> couples_by b a"
  using couples_imp_source couples_sym by blast

end

interpretation wit: coupling_witness "couples w" "couples_source w" for w
  by unfold_locales (auto simp: couples_source_iff couples_iff has_pair_sym)

section \<open>The gate\<close>

text \<open>The temporal clause, when both onsets are known.\<close>

definition temporal_ok :: "int \<Rightarrow> real \<Rightarrow> real \<Rightarrow> bool" where
  "temporal_ok lag_s t_src t_dst \<longleftrightarrow>
     t_src \<le> t_dst + TEMPORAL_TOL_S \<and>
     (lag_s > 0 \<longrightarrow> t_dst - t_src \<le> 4 * of_int lag_s + TEMPORAL_TOL_S)"

lemma accept_edge_fields:
  "accept_edge src dst r lag_s prof w onset_s = Some e \<Longrightarrow>
     e_src e = src \<and> e_dst e = dst \<and> e_r e = py_round 3 r \<and> e_lag e = lag_s \<and> R_PEAK \<le> r \<and>
     adjacent_support prof lag_s R_ADJ \<and> couples w src dst \<and> ''write'' \<notin> set (e_evidence e)"
  using set_kinds [of w src dst]
  by (auto simp: accept_edge_def couples_def Let_def split: if_splits option.splits)

text \<open>The gate accepts an edge exactly when its three clauses hold: a positive
  correlation of at least 0.6 supported at an adjacent lag, a real coupling of the two pods
  (disk or network, in either order), and, when both onsets are known, the source not later than
  the victim by more than the tolerance nor so early that the lag cannot explain it.\<close>

theorem accept_edge_iff:
  "(\<exists>e. accept_edge src dst r lag_s prof w onset_s = Some e) \<longleftrightarrow>
     R_PEAK \<le> r \<and> adjacent_support prof lag_s R_ADJ \<and>
     ((src, dst) \<in> set (w_ebpf w) \<or> (dst, src) \<in> set (w_ebpf w) \<or> has_pair (w_shared w) src dst) \<and>
     (case (onset_s src, onset_s dst) of
        (Some t_src, Some t_dst) \<Rightarrow> temporal_ok lag_s t_src t_dst | _ \<Rightarrow> True)"
  unfolding couples_iff [symmetric]
  by (auto simp: accept_edge_def couples_def temporal_ok_def Let_def not_less split: if_splits option.splits)

text \<open>Symptom coincidence is never an edge: if the two pods share no disk and no
  network flow, the gate rejects them whatever the correlation, however hot both are
  (PSI co-pressure) and wherever they run (same node).\<close>

theorem accept_edge_needs_coupling:
  assumes "\<not> has_pair (w_shared w) src dst"
    and "(src, dst) \<notin> set (w_ebpf w)" and "(dst, src) \<notin> set (w_ebpf w)"
  shows "accept_edge src dst r lag_s prof
    (w\<lparr>w_psi := (src, dst) # w_psi w, w_node := (src, dst) # w_node w\<rparr>) onset_s = None"
proof -
  have "\<not> couples (w\<lparr>w_psi := (src, dst) # w_psi w, w_node := (src, dst) # w_node w\<rparr>) src dst"
    using assms by (simp add: couples_iff)
  then show ?thesis by (metis accept_edge_fields option.exhaust)
qed

theorem accept_edge_needs_coupling_witness:
  "accept_edge ''a'' ''b'' 1 0 [(0, 1), (5, 1)]
     \<lparr>w_ebpf = [], w_psi = [(''a'', ''b'')], w_shared = [(''a'', ''c'')], w_node = [(''a'', ''b'')]\<rparr>
     (\<lambda>_. None) = None"
  using accept_edge_needs_coupling
    [of "\<lparr>w_ebpf = [], w_psi = [], w_shared = [(''a'', ''c'')], w_node = []\<rparr>" "''a''" "''b''"]
  by (simp add: has_pair_def)

text \<open>The clause of the module documentation reads \<open>|r| >= R_PEAK\<close>; the code rejects a negative
  correlation of any strength.\<close>

lemma accept_edge_rejects_anticorrelation:
  "accept_edge src dst (-1) lag_s prof w onset_s = None"
  by (simp add: accept_edge_def R_PEAK_def)

end
