(* ===== verification/Ranking.thy ===== *)
theory Ranking
  imports Causal_Graph Graph_Lib
begin

text \<open>
  \<open>correlation/engine/ranking.py\<close>: the causal graph, the decayed forward impact of a node, the
  ranking of root causes by explanatory reach and the blast radius.  The two worklist loops are
  \<open>while_option\<close> loops over the frontier, so that not returning is the value \<open>None\<close>; that they
  return on the graphs the engine builds (weights at most 1) is proved below.
\<close>

definition DECAY :: real where "DECAY = 7/10"
definition CUT :: real where "CUT = 15/100"
definition UPSTREAM_PENALTY :: real where "UPSTREAM_PENALTY = 1/2"

definition build_graph :: "'g nxlib \<Rightarrow> ('a) edge_scheme list \<Rightarrow> 'g" where
  "build_graph nx edges =
     foldl (\<lambda>g e. nx_add_edge nx g (e_src e) (e_dst e)
         \<lparr>d_weight = \<bar>e_r e\<bar>, d_lag = e_lag e, d_evidence = e_evidence e\<rparr>)
       (nx_digraph nx) edges"

type_synonym impact_map = "(string \<times> real) list"

definition impact_relax ::
    "real \<Rightarrow> string \<times> edge_data \<Rightarrow> (string \<times> real) list \<times> impact_map \<Rightarrow> (string \<times> real) list \<times> impact_map" where
  "impact_relax w e st =
     (let nxt = fst e; nw = w * d_weight (snd e) * DECAY
      in if nw < CUT \<or> nw \<le> (case map_of (snd st) nxt of None \<Rightarrow> 0 | Some v \<Rightarrow> v) then st
         else (fst st @ [(nxt, nw)], AList.update nxt nw (snd st)))"

definition impact_body ::
    "'g nxlib \<Rightarrow> 'g \<Rightarrow> (string \<times> real) list \<times> impact_map \<Rightarrow> (string \<times> real) list \<times> impact_map" where
  "impact_body nx g st =
     (case fst st of [] \<Rightarrow> st
      | (node, w) # rest \<Rightarrow> fold (impact_relax w) (nx_out_edges nx g node) (rest, snd st))"

definition forward_impact :: "'g nxlib \<Rightarrow> 'g \<Rightarrow> string \<Rightarrow> impact_map option" where
  "forward_impact nx g start =
     map_option snd (while_option (\<lambda>st. fst st \<noteq> []) (impact_body nx g) ([(start, 1)], []))"

definition node_score :: "'g nxlib \<Rightarrow> 'g \<Rightarrow> string set \<Rightarrow> string \<Rightarrow> real option" where
  "node_score nx g seed_set n =
     (case forward_impact nx g n of
        None \<Rightarrow> None
      | Some imp \<Rightarrow>
          (let explain = sum_list (map snd (filter (\<lambda>sv. fst sv \<in> seed_set) imp));
               explain = (if n \<in> seed_set \<and> nx_in_degree nx g n = 0 then explain + 1 else explain);
               explain = (if nx_in_degree nx g n > 0 then explain * UPSTREAM_PENALTY else explain)
           in Some explain))"

fun collect_scores :: "(string \<Rightarrow> real option) \<Rightarrow> string list \<Rightarrow> (string \<times> real) list option" where
  "collect_scores f [] = Some []"
| "collect_scores f (n # ns) =
     (case f n of None \<Rightarrow> None
      | Some explain \<Rightarrow>
          map_option (\<lambda>rest. if explain > 0 then (n, explain) # rest else rest) (collect_scores f ns))"

text \<open>\<open>onset_s.get(pod, inf)\<close> as a sort key: a known onset before an unknown one.\<close>

definition onset_key :: "(string \<rightharpoonup> real) \<Rightarrow> string \<Rightarrow> nat \<times> real" where
  "onset_key onset_s p = (case onset_s p of None \<Rightarrow> (1, 0) | Some t \<Rightarrow> (0, t))"

definition rank_root_causes ::
    "'g nxlib \<Rightarrow> 'g \<Rightarrow> string list \<Rightarrow> (string \<rightharpoonup> real) \<Rightarrow> nat \<Rightarrow> ranked list option" where
  "rank_root_causes nx g seeds onset_s topn =
     (let nodes = nx_nodes nx g;
          in_graph = filter (\<lambda>s. s \<in> set nodes) seeds;
          seed_set = (if in_graph = [] then set nodes else set in_graph)
      in if nx_number_of_edges nx g = 0 then Some []
         else (case collect_scores (node_score nx g seed_set) nodes of
             None \<Rightarrow> None
           | Some scores \<Rightarrow>
               if scores = [] then Some []
               else
                 let total = sum_list (map snd scores);
                     ranked = sort_key (\<lambda>kv. (- snd kv, onset_key onset_s (fst kv))) scores
                 in Some (map (\<lambda>kv. \<lparr>rc_pod = fst kv, rc_score = py_round 3 (snd kv / total),
                            rc_onset = onset_s (fst kv)\<rparr>) (take topn ranked))))"

definition TOP :: nat where "TOP = 3"

record blast_state =
  bs_frontier :: "(string \<times> real \<times> int) list"
  bs_seen :: "string set"
  bs_out :: "victim list"

definition blast_visit :: "real \<Rightarrow> int \<Rightarrow> string \<times> edge_data \<Rightarrow> blast_state \<Rightarrow> blast_state" where
  "blast_visit w eta e st =
     (let nxt = fst e; nw = w * d_weight (snd e) * DECAY
      in if nxt \<in> bs_seen st \<or> nw < CUT then st
         else
           let neta = eta + d_lag (snd e)
           in \<lparr>bs_frontier = bs_frontier st @ [(nxt, nw, neta)], bs_seen = insert nxt (bs_seen st),
               bs_out = bs_out st @ [\<lparr>v_pod = nxt, v_impact = py_round 3 nw, v_eta = neta\<rparr>]\<rparr>)"

definition blast_body :: "'g nxlib \<Rightarrow> 'g \<Rightarrow> blast_state \<Rightarrow> blast_state" where
  "blast_body nx g st =
     (case bs_frontier st of [] \<Rightarrow> st
      | (node, w, eta) # rest \<Rightarrow>
          fold (blast_visit w eta) (nx_out_edges nx g node) (st\<lparr>bs_frontier := rest\<rparr>))"

definition blast_radius :: "'g nxlib \<Rightarrow> 'g \<Rightarrow> string \<Rightarrow> victim list option" where
  "blast_radius nx g start =
     (if start \<notin> set (nx_nodes nx g) then Some []
      else map_option (\<lambda>st. sort_key (\<lambda>v. - v_impact v) (bs_out st))
        (while_option (\<lambda>st. bs_frontier st \<noteq> []) (blast_body nx g)
          \<lparr>bs_frontier = [(start, 1, 0)], bs_seen = {start}, bs_out = []\<rparr>))"

section \<open>The graph of a list of edges\<close>

definition edge_triple :: "('a) edge_scheme \<Rightarrow> string \<times> string \<times> edge_data" where
  "edge_triple e = (e_src e, e_dst e,
     \<lparr>d_weight = \<bar>e_r e\<bar>, d_lag = e_lag e, d_evidence = e_evidence e\<rparr>)"

lemma build_graph_built: "build_graph nx edges = nx_built nx (map edge_triple edges)"
proof -
  have "foldl (\<lambda>g e. nx_add_edge nx g (e_src e) (e_dst e)
         \<lparr>d_weight = \<bar>e_r e\<bar>, d_lag = e_lag e, d_evidence = e_evidence e\<rparr>) g edges =
    foldl (\<lambda>g (u, v, d). nx_add_edge nx g u v d) g (map edge_triple edges)" for g
    by (induction edges arbitrary: g) (auto simp: edge_triple_def)
  then show ?thesis by (simp add: build_graph_def nx_built_def)
qed

text \<open>A decayed walk of at least one edge from the start node, cut below \<open>CUT\<close>: the specification of
  what a node explains.\<close>

inductive explains :: "'g nxlib \<Rightarrow> 'g \<Rightarrow> string \<Rightarrow> string \<Rightarrow> real \<Rightarrow> bool" for nx g start where
  explains_first: "(v, d) \<in> set (nx_out_edges nx g start) \<Longrightarrow> CUT \<le> 1 * d_weight d * DECAY \<Longrightarrow>
     explains nx g start v (1 * d_weight d * DECAY)"
| explains_next: "explains nx g start u w \<Longrightarrow> (v, d) \<in> set (nx_out_edges nx g u) \<Longrightarrow>
     CUT \<le> w * d_weight d * DECAY \<Longrightarrow> explains nx g start v (w * d_weight d * DECAY)"

lemma explains_ge_CUT: "explains nx g start v w \<Longrightarrow> CUT \<le> w"
  by (induction rule: explains.induct) auto

lemma CUT_pos [simp]: "0 < CUT"
  by (simp add: CUT_def)

section \<open>One round of relaxation\<close>

definition covered :: "impact_map \<Rightarrow> string \<Rightarrow> real \<Rightarrow> bool" where
  "covered imp v x \<longleftrightarrow> x < CUT \<or> (\<exists>m. map_of imp v = Some m \<and> x \<le> m)"

text \<open>What the inner loop guarantees about the next frontier and impact map.\<close>

definition relaxed ::
    "real \<Rightarrow> (string \<times> edge_data) list \<Rightarrow> (string \<times> real) list \<times> impact_map \<Rightarrow>
       (string \<times> real) list \<times> impact_map \<Rightarrow> bool" where
  "relaxed w ds st st' \<longleftrightarrow>
     (\<exists>extra. fst st' = fst st @ extra \<and> length extra \<le> length ds \<and>
        (\<forall>(v, x) \<in> set extra. CUT \<le> x \<and> (\<exists>d. (v, d) \<in> set ds \<and> x = w * d_weight d * DECAY)) \<and>
        (\<forall>v m. map_of (snd st') v = Some m \<longrightarrow> map_of (snd st) v = Some m \<or> (v, m) \<in> set extra)) \<and>
     (\<forall>v x. covered (snd st) v x \<longrightarrow> covered (snd st') v x) \<and>
     (\<forall>(v, d) \<in> set ds. covered (snd st') v (w * d_weight d * DECAY)) \<and>
     (distinct (map fst (snd st)) \<longrightarrow> distinct (map fst (snd st')))"

lemma relaxed_step: "relaxed w [e] st (impact_relax w e st)"
proof -
  obtain v d where e: "e = (v, d)" by (cases e)
  let ?x = "w * d_weight d * DECAY"
  show ?thesis
  proof (cases "?x < CUT \<or> ?x \<le> (case map_of (snd st) v of None \<Rightarrow> 0 | Some v \<Rightarrow> v)")
    case True
    then have "impact_relax w e st = st" by (auto simp: impact_relax_def e Let_def)
    moreover have "covered (snd st) v ?x"
      using True by (auto simp: covered_def intro: le_less_trans [OF _ CUT_pos] split: option.splits)
    ultimately show ?thesis by (auto simp: relaxed_def e)
  next
    case False
    then have st': "impact_relax w (v, d) st = (fst st @ [(v, ?x)], AList.update v ?x (snd st))"
      by (auto simp: impact_relax_def e Let_def)
    have "covered (snd st) u y \<Longrightarrow> covered (AList.update v ?x (snd st)) u y" for u y
      using False by (auto simp: covered_def update_conv' split: option.splits)
    moreover have "covered (AList.update v ?x (snd st)) v ?x"
      by (simp add: covered_def update_conv')
    ultimately show ?thesis
      using False unfolding relaxed_def e st'
      by (auto simp: update_conv' distinct_update not_less split: if_splits)
  qed
qed

lemma relaxed_fold: "relaxed w ds st (fold (impact_relax w) ds st)"
proof (induction ds arbitrary: st)
  case Nil
  show ?case by (simp add: relaxed_def)
next
  case (Cons e ds)
  let ?s1 = "impact_relax w e st" and ?s2 = "fold (impact_relax w) ds (impact_relax w e st)"
  have 1: "relaxed w [e] st ?s1" by (rule relaxed_step)
  have 2: "relaxed w ds ?s1 ?s2" by (rule Cons.IH)
  from 1 obtain x1 where x1: "fst ?s1 = fst st @ x1" "length x1 \<le> 1"
    "\<forall>(v, x) \<in> set x1. CUT \<le> x \<and> (\<exists>d. (v, d) \<in> set [e] \<and> x = w * d_weight d * DECAY)"
    "\<forall>v m. map_of (snd ?s1) v = Some m \<longrightarrow> map_of (snd st) v = Some m \<or> (v, m) \<in> set x1"
    by (auto simp: relaxed_def)
  from 2 obtain x2 where x2: "fst ?s2 = fst ?s1 @ x2" "length x2 \<le> length ds"
    "\<forall>(v, x) \<in> set x2. CUT \<le> x \<and> (\<exists>d. (v, d) \<in> set ds \<and> x = w * d_weight d * DECAY)"
    "\<forall>v m. map_of (snd ?s2) v = Some m \<longrightarrow> map_of (snd ?s1) v = Some m \<or> (v, m) \<in> set x2"
    by (auto simp: relaxed_def)
  have "fst ?s2 = fst st @ (x1 @ x2) \<and> length (x1 @ x2) \<le> length (e # ds) \<and>
      (\<forall>(v, x) \<in> set (x1 @ x2). CUT \<le> x \<and> (\<exists>d. (v, d) \<in> set (e # ds) \<and> x = w * d_weight d * DECAY)) \<and>
      (\<forall>v m. map_of (snd ?s2) v = Some m \<longrightarrow> map_of (snd st) v = Some m \<or> (v, m) \<in> set (x1 @ x2))"
    using x1 x2 by fastforce
  moreover have "\<forall>v x. covered (snd st) v x \<longrightarrow> covered (snd ?s2) v x"
    using 1 2 by (simp add: relaxed_def)
  moreover have "\<forall>(v, d) \<in> set (e # ds). covered (snd ?s2) v (w * d_weight d * DECAY)"
    using 1 2 by (auto simp: relaxed_def)
  moreover have "distinct (map fst (snd st)) \<longrightarrow> distinct (map fst (snd ?s2))"
    using 1 2 by (simp add: relaxed_def)
  ultimately show ?case unfolding relaxed_def by simp
qed

section \<open>The loop: invariant and termination\<close>

definition origin :: "'g nxlib \<Rightarrow> 'g \<Rightarrow> string \<Rightarrow> string \<Rightarrow> real \<Rightarrow> bool" where
  "origin nx g start u w \<longleftrightarrow> (u = start \<and> w = 1) \<or> explains nx g start u w"

definition closed_at :: "'g nxlib \<Rightarrow> 'g \<Rightarrow> impact_map \<Rightarrow> string \<Rightarrow> real \<Rightarrow> bool" where
  "closed_at nx g imp u w \<longleftrightarrow>
     (\<forall>(v, d) \<in> set (nx_out_edges nx g u). covered imp v (w * d_weight d * DECAY))"

definition impact_inv ::
    "'g nxlib \<Rightarrow> 'g \<Rightarrow> string \<Rightarrow> (string \<times> real) list \<times> impact_map \<Rightarrow> bool" where
  "impact_inv nx g start st \<longleftrightarrow>
     distinct (map fst (snd st)) \<and>
     (\<forall>v m. map_of (snd st) v = Some m \<longrightarrow> explains nx g start v m) \<and>
     (\<forall>(u, w) \<in> set (fst st). origin nx g start u w) \<and>
     (\<forall>u w. (u = start \<and> w = 1) \<or> map_of (snd st) u = Some w \<longrightarrow>
        (u, w) \<in> set (fst st) \<or> closed_at nx g (snd st) u w)"

lemma impact_inv_init: "impact_inv nx g start ([(start, 1)], [])"
  by (simp add: impact_inv_def origin_def)

lemma origin_step:
  "origin nx g start u w \<Longrightarrow> (v, d) \<in> set (nx_out_edges nx g u) \<Longrightarrow> CUT \<le> w * d_weight d * DECAY \<Longrightarrow>
     explains nx g start v (w * d_weight d * DECAY)"
  unfolding origin_def using explains_first [of v d nx g start] explains_next [of nx g start u w v d]
  by auto

lemma impact_body_relaxed:
  assumes "fst st = (n, w) # rest"
  shows "relaxed w (nx_out_edges nx g n) (rest, snd st) (impact_body nx g st)"
  using relaxed_fold [of w "nx_out_edges nx g n" "(rest, snd st)"] assms by (simp add: impact_body_def)

lemma impact_inv_body:
  assumes inv: "impact_inv nx g start st" and "fst st \<noteq> []"
  shows "impact_inv nx g start (impact_body nx g st)"
proof -
  from assms(2) obtain n w rest where fr: "fst st = (n, w) # rest" by (cases "fst st") auto
  let ?st' = "impact_body nx g st" and ?ds = "nx_out_edges nx g n"
  from impact_body_relaxed [OF fr, of nx g] obtain extra where
    ex: "fst ?st' = rest @ extra"
      "\<forall>(v, x) \<in> set extra. CUT \<le> x \<and> (\<exists>d. (v, d) \<in> set ?ds \<and> x = w * d_weight d * DECAY)"
      "\<forall>v m. map_of (snd ?st') v = Some m \<longrightarrow> map_of (snd st) v = Some m \<or> (v, m) \<in> set extra"
    and mono: "\<And>v x. covered (snd st) v x \<Longrightarrow> covered (snd ?st') v x"
    and here: "closed_at nx g (snd ?st') n w"
    and dist: "distinct (map fst (snd ?st'))"
    using inv by (auto simp: relaxed_def closed_at_def impact_inv_def)
  have i1: "\<And>v m. map_of (snd st) v = Some m \<Longrightarrow> explains nx g start v m"
    and i2: "\<And>u w. (u = start \<and> w = 1) \<or> map_of (snd st) u = Some w \<Longrightarrow>
        (u, w) \<in> set (fst st) \<or> closed_at nx g (snd st) u w"
    using inv unfolding impact_inv_def by (elim conjE, blast)+
  have n: "origin nx g start n w" using inv fr by (simp add: impact_inv_def)
  have new: "explains nx g start v x" if "(v, x) \<in> set extra" for v x
    using that ex(2) origin_step [OF n] by fastforce
  have keep: "closed_at nx g (snd st) u x \<Longrightarrow> closed_at nx g (snd ?st') u x" for u x
    using mono by (auto simp: closed_at_def)
  have "(u, x) \<in> set (fst ?st') \<or> closed_at nx g (snd ?st') u x"
    if "(u = start \<and> x = 1) \<or> map_of (snd ?st') u = Some x" for u x
  proof (cases "(u, x) \<in> set extra")
    case False
    with that ex(3) have "(u = start \<and> x = 1) \<or> map_of (snd st) u = Some x" by blast
    then have "(u, x) \<in> set (fst st) \<or> closed_at nx g (snd st) u x" by (rule i2)
    with keep here show ?thesis by (auto simp: fr ex(1))
  qed (simp add: ex(1))
  moreover have "explains nx g start v m" if "map_of (snd ?st') v = Some m" for v m
    using that i1 ex(3) new by blast
  moreover have "\<forall>(u, x) \<in> set (fst ?st'). origin nx g start u x"
    using inv new by (auto simp: ex(1) fr impact_inv_def origin_def)
  ultimately show ?thesis using dist unfolding impact_inv_def by simp
qed

text \<open>How many more hops a weight survives the cut: at most six from weight 1.\<close>

definition level :: "real \<Rightarrow> nat" where
  "level w = card {k \<in> {1..6}. CUT \<le> w * DECAY ^ k}"

lemma level_decreases:
  assumes "w \<le> 1" "x \<le> w * DECAY" "CUT \<le> x"
  shows "level x < level w"
proof -
  let ?S = "\<lambda>w. {k \<in> {1..6}. CUT \<le> w * DECAY ^ k}"
  have step: "CUT \<le> w * DECAY ^ Suc k" if "CUT \<le> x * DECAY ^ k" for k
  proof -
    have "x * DECAY ^ k \<le> w * DECAY * DECAY ^ k"
      using assms(2) by (intro mult_right_mono) (simp_all add: DECAY_def)
    with that show ?thesis by (simp add: mult.assoc)
  qed
  have "\<not> CUT \<le> w * DECAY ^ 7"
  proof -
    have "w * DECAY ^ 7 \<le> 1 * DECAY ^ 7"
      using assms(1) by (intro mult_right_mono) (simp_all add: DECAY_def)
    also have "\<dots> < CUT" by (simp add: DECAY_def CUT_def power_divide)
    finally show ?thesis by simp
  qed
  then have "k \<noteq> 6" if "k \<in> ?S x" for k using that step [of 6] by auto
  with step have "Suc ` ?S x \<subseteq> ?S w - {1}" by fastforce
  then have "card (Suc ` ?S x) \<le> card (?S w - {1})" by (intro card_mono) auto
  moreover have "1 \<in> ?S w" using assms by simp
  then have "card (?S w - {1}) < card (?S w)" by (intro card_Diff1_less) auto
  ultimately show ?thesis by (simp add: level_def card_image)
qed

definition light :: "'g nxlib \<Rightarrow> 'g \<Rightarrow> nat \<Rightarrow> bool" where
  "light nx g B \<longleftrightarrow> (\<forall>u. length (nx_out_edges nx g u) \<le> B \<and>
     (\<forall>(v, d) \<in> set (nx_out_edges nx g u). 0 \<le> d_weight d \<and> d_weight d \<le> 1))"

definition frontier_cost :: "nat \<Rightarrow> (string \<times> real) list \<Rightarrow> nat" where
  "frontier_cost B fr = sum_list (map (\<lambda>vw. Suc B ^ level (snd vw)) fr)"

lemma frontier_cost_extra:
  assumes "\<forall>vw \<in> set extra. level (snd vw) < l" "length extra \<le> B"
  shows "frontier_cost B extra < Suc B ^ l"
proof (cases extra)
  case Nil
  then show ?thesis by (simp add: frontier_cost_def)
next
  case (Cons vw vws)
  with assms(1) have "level (snd vw) < l" by simp
  then obtain l' where l: "l = Suc l'" by (cases l) auto
  have "Suc B ^ level (snd vw) \<le> Suc B ^ l'" if "vw \<in> set extra" for vw
    using assms(1) that by (intro power_increasing) (auto simp: l less_Suc_eq_le)
  then have "frontier_cost B extra \<le> sum_list (map (\<lambda>_. Suc B ^ l') extra)"
    unfolding frontier_cost_def by (intro sum_list_mono) auto
  also have "\<dots> = length extra * Suc B ^ l'" by (simp add: sum_list_triv)
  also have "\<dots> \<le> B * Suc B ^ l'" using assms(2) by (intro mult_right_mono) auto
  also have "\<dots> < Suc B ^ l" by (simp add: l)
  finally show ?thesis .
qed

lemma child_weight:
  assumes "0 \<le> w" "w \<le> 1" "0 \<le> c" "c \<le> 1"
  shows "0 \<le> w * c * DECAY" "w * c * DECAY \<le> w * DECAY" "w * c * DECAY \<le> 1"
proof -
  have D: "0 \<le> DECAY" "DECAY \<le> 1" by (simp_all add: DECAY_def)
  show "0 \<le> w * c * DECAY" using assms D by simp
  show le: "w * c * DECAY \<le> w * DECAY"
    using assms D by (intro mult_right_mono) (simp_all add: mult_left_le)
  have "w * DECAY \<le> 1" using assms D by (simp add: mult_le_one)
  with le show "w * c * DECAY \<le> 1" by simp
qed

lemma impact_body_cost:
  assumes lt: "light nx g B" and w01: "\<forall>(u, w) \<in> set (fst st). 0 \<le> w \<and> w \<le> 1" and "fst st \<noteq> []"
  shows "(\<forall>(u, w) \<in> set (fst (impact_body nx g st)). 0 \<le> w \<and> w \<le> 1) \<and>
    frontier_cost B (fst (impact_body nx g st)) < frontier_cost B (fst st)"
proof -
  from assms(3) obtain n w rest where fr: "fst st = (n, w) # rest" by (cases "fst st") auto
  with w01 have w: "0 \<le> w" "w \<le> 1" by auto
  from impact_body_relaxed [OF fr, of nx g] obtain extra where
    ex: "fst (impact_body nx g st) = rest @ extra" "length extra \<le> length (nx_out_edges nx g n)"
      "\<forall>(v, x) \<in> set extra. CUT \<le> x \<and> (\<exists>d. (v, d) \<in> set (nx_out_edges nx g n) \<and> x = w * d_weight d * DECAY)"
    by (auto simp: relaxed_def)
  have child: "0 \<le> x \<and> x \<le> 1 \<and> level x < level w" if vx: "(v, x) \<in> set extra" for v x
  proof -
    from bspec [OF ex(3) vx] obtain d where d: "(v, d) \<in> set (nx_out_edges nx g n)"
      "x = w * d_weight d * DECAY" and cut: "CUT \<le> x" by auto
    from lt d(1) have c: "0 \<le> d_weight d" "d_weight d \<le> 1" by (auto simp: light_def)
    from child_weight [OF w c] cut show ?thesis
      using level_decreases [OF w(2), of x] by (simp add: d(2))
  qed
  have "length extra \<le> B" using ex(2) lt by (meson light_def order_trans)
  with child have "frontier_cost B extra < Suc B ^ level w"
    by (intro frontier_cost_extra) auto
  then have "frontier_cost B (rest @ extra) < frontier_cost B ((n, w) # rest)"
    by (simp add: frontier_cost_def)
  with child w01 show ?thesis by (fastforce simp: ex(1) fr)
qed

lemma forward_impact_total:
  assumes "light nx g B"
  shows "\<exists>imp. forward_impact nx g start = Some imp"
proof -
  have "\<exists>st. while_option (\<lambda>st. fst st \<noteq> []) (impact_body nx g) ([(start, 1)], []) = Some st"
    using impact_body_cost [OF assms]
    by (intro measure_while_option_Some
        [where P = "\<lambda>st. \<forall>(u, w) \<in> set (fst st). 0 \<le> w \<and> w \<le> 1" and f = "\<lambda>st. frontier_cost B (fst st)"]) auto
  then show ?thesis by (auto simp: forward_impact_def)
qed

text \<open>At the end nothing is pending, so the map is closed under the edges: it dominates every
  decayed walk, and its entries are walks themselves.\<close>

lemma forward_impact_inv:
  assumes "forward_impact nx g start = Some imp"
  shows "impact_inv nx g start ([], imp)"
proof -
  from assms obtain st where st: "while_option (\<lambda>st. fst st \<noteq> []) (impact_body nx g) ([(start, 1)], []) = Some st"
    and imp: "imp = snd st" by (auto simp: forward_impact_def)
  have "impact_inv nx g start st"
    by (rule while_option_rule [OF _ st]) (auto intro: impact_inv_body impact_inv_init)
  moreover have "fst st = []" using while_option_stop [OF st] by simp
  ultimately show ?thesis unfolding imp by (metis prod.collapse)
qed

lemma forward_impact_dominates:
  assumes lt: "light nx g B" and fi: "forward_impact nx g start = Some imp"
    and ex: "explains nx g start v x"
  shows "\<exists>m \<ge> x. map_of imp v = Some m"
proof -
  from forward_impact_inv [OF fi]
  have closed: "\<And>u w. (u = start \<and> w = 1) \<or> map_of imp u = Some w \<Longrightarrow> closed_at nx g imp u w"
    by (auto simp: impact_inv_def)
  from ex show ?thesis
  proof induction
    case (explains_first v d)
    with closed [of start 1] show ?case by (fastforce simp: closed_at_def covered_def)
  next
    case (explains_next u w v d)
    then obtain m where m: "w \<le> m" "map_of imp u = Some m" by blast
    have "0 \<le> d_weight d" using lt explains_next.hyps(2) by (auto simp: light_def)
    then have le: "w * d_weight d * DECAY \<le> m * d_weight d * DECAY"
      using m(1) by (intro mult_right_mono) (simp_all add: DECAY_def)
    have "covered imp v (m * d_weight d * DECAY)"
      using closed [of u m] m(2) explains_next.hyps(2) by (auto simp: closed_at_def)
    with le explains_next.hyps(3) show ?case by (force simp: covered_def)
  qed
qed

lemma forward_impact_best:
  assumes lt: "light nx g B" and fi: "forward_impact nx g start = Some imp"
  shows "map_of imp v = Some m \<longleftrightarrow>
    explains nx g start v m \<and> (\<forall>x. explains nx g start v x \<longrightarrow> x \<le> m)"
proof -
  note dom = forward_impact_dominates [OF lt fi]
  from forward_impact_inv [OF fi]
  have sound: "\<And>v m. map_of imp v = Some m \<Longrightarrow> explains nx g start v m"
    by (auto simp: impact_inv_def)
  show ?thesis
  proof
    assume m: "map_of imp v = Some m"
    then show "explains nx g start v m \<and> (\<forall>x. explains nx g start v x \<longrightarrow> x \<le> m)"
      using sound dom by fastforce
  next
    assume m: "explains nx g start v m \<and> (\<forall>x. explains nx g start v x \<longrightarrow> x \<le> m)"
    then obtain m' where "m \<le> m'" "map_of imp v = Some m'" using dom by blast
    with m sound [of v m'] show "map_of imp v = Some m" by force
  qed
qed

lemma forward_impact_distinct: "forward_impact nx g start = Some imp \<Longrightarrow> distinct (map fst imp)"
  using forward_impact_inv [of nx g start imp] by (simp add: impact_inv_def)

definition causal_edges :: "('a) edge_scheme list \<Rightarrow> bool" where
  "causal_edges edges \<longleftrightarrow> (\<forall>e \<in> set edges. \<bar>e_r e\<bar> \<le> 1)"

context digraph_library
begin

lemma length_out_built: "length (nx_out_edges nx (nx_built nx es) n) \<le> length es"
proof (induction es rule: rev_induct)
  case (snoc e es)
  have "length (AList.update b c al) \<le> Suc (length al)" for b c and al :: "(string \<times> edge_data) list"
    by (induction al) auto
  with snoc show ?case
    by (cases e) (auto simp: built_snoc out_add intro: order_trans le_SucI)
qed (simp add: built_Nil out_empty)

lemma light_build_graph: "causal_edges edges \<Longrightarrow> light nx (build_graph nx edges) (length edges)"
  using length_out_built [of "map edge_triple edges"]
  by (fastforce simp: light_def build_graph_built causal_edges_def edge_triple_def dest: out_built_mem)

lemma nodes_build_graph:
  "set (nx_nodes nx (build_graph nx edges)) = e_src ` set edges \<union> e_dst ` set edges"
  by (auto simp: build_graph_built nodes_built edge_triple_def)

lemma distinct_nodes_build_graph: "distinct (nx_nodes nx (build_graph nx edges))"
  by (simp add: build_graph_built distinct_nodes_built)

lemma out_build_graph:
  "(v, d) \<in> set (nx_out_edges nx (build_graph nx edges) u) \<Longrightarrow>
     \<exists>e \<in> set edges. e_src e = u \<and> e_dst e = v \<and> d_weight d = \<bar>e_r e\<bar> \<and> d_lag d = e_lag e"
  unfolding build_graph_built by (drule out_built_mem) (force simp: edge_triple_def)

lemma out_build_graph_ex:
  "e \<in> set edges \<Longrightarrow> \<exists>d. (e_dst e, d) \<in> set (nx_out_edges nx (build_graph nx edges) (e_src e))"
  using out_built_keys [of "map edge_triple edges" "e_src e"]
  by (force simp: build_graph_built edge_triple_def image_iff)

lemma in_degree_build_graph:
  "nx_in_degree nx (build_graph nx edges) n = 0 \<longleftrightarrow> (\<forall>e \<in> set edges. e_dst e \<noteq> n)"
  by (auto simp: build_graph_built in_degree_0_iff edge_triple_def)

lemma no_edges_build_graph: "nx_number_of_edges nx (build_graph nx edges) = 0 \<longleftrightarrow> edges = []"
  by (simp add: build_graph_built number_of_edges_0_iff)

end

text \<open>C11 (equivalence).  The impact computed by the worklist is the best decayed walk: on a graph
  whose edges carry correlations, the loop returns, each entry of the map is the product of
  weights and decays along an actual walk from the start, every walk above the cut is dominated
  by the entry of its end point, and no node occurs twice.\<close>

theorem forward_impact_is_best_walk:
  assumes "digraph_library nx" and "causal_edges edges"
  shows "\<exists>imp. forward_impact nx (build_graph nx edges) start = Some imp \<and> distinct (map fst imp) \<and>
    (\<forall>v m. map_of imp v = Some m \<longleftrightarrow>
       explains nx (build_graph nx edges) start v m \<and>
       (\<forall>x. explains nx (build_graph nx edges) start v x \<longrightarrow> x \<le> m))"
proof -
  note lt = digraph_library.light_build_graph [OF assms]
  from forward_impact_total [OF lt] obtain imp where
    imp: "forward_impact nx (build_graph nx edges) start = Some imp" by blast
  show ?thesis
    using imp forward_impact_distinct [OF imp] forward_impact_best [OF lt imp] by blast
qed

definition chain_edges :: "edge list" where
  "chain_edges =
     [\<lparr>e_src = ''cooling-monitor'', e_dst = ''timescaledb'', e_r = 8/10, e_lag = 30, e_evidence = [''write'', ''pvc'']\<rparr>,
      \<lparr>e_src = ''timescaledb'', e_dst = ''dcim-bridge'', e_r = -1/2, e_lag = 5, e_evidence = [''stat'', ''pvc'']\<rparr>]"

lemma causal_chain_edges: "causal_edges chain_edges"
  by (simp add: causal_edges_def chain_edges_def)

definition chain_graph :: dict_graph where
  "chain_graph = [(''cooling-monitor'', [(''timescaledb'', \<lparr>d_weight = 8/10, d_lag = 30, d_evidence = [''write'', ''pvc'']\<rparr>)]),
     (''timescaledb'', [(''dcim-bridge'', \<lparr>d_weight = 1/2, d_lag = 5, d_evidence = [''stat'', ''pvc'']\<rparr>)]),
     (''dcim-bridge'', [])]"

lemma build_chain: "build_graph dict_nx chain_edges = chain_graph"
  by (simp add: build_graph_def chain_edges_def dict_nx_def dg_add_edge_def dg_node_def dg_out_def chain_graph_def)

lemma chain_impacts:
  "forward_impact dict_nx chain_graph ''cooling-monitor'' = Some [(''timescaledb'', 56/100), (''dcim-bridge'', 196/1000)]"
  "forward_impact dict_nx chain_graph ''timescaledb'' = Some [(''dcim-bridge'', 35/100)]"
  "forward_impact dict_nx chain_graph ''dcim-bridge'' = Some []"
  by (simp_all add: forward_impact_def while_option_unfold impact_body_def impact_relax_def
     dict_nx_def dg_out_def chain_graph_def DECAY_def CUT_def Let_def)

theorem forward_impact_is_best_walk_witness:
  "explains dict_nx (build_graph dict_nx chain_edges) ''cooling-monitor'' ''dcim-bridge'' (196/1000) \<and>
     \<not> explains dict_nx (build_graph dict_nx chain_edges) ''cooling-monitor'' ''dcim-bridge'' (1/5)"
proof -
  from forward_impact_is_best_walk [OF dict.digraph_library_axioms causal_chain_edges, of "''cooling-monitor''"]
  obtain imp where fi: "forward_impact dict_nx (build_graph dict_nx chain_edges) ''cooling-monitor'' = Some imp"
    and best: "\<And>v m. map_of imp v = Some m \<longleftrightarrow>
      explains dict_nx (build_graph dict_nx chain_edges) ''cooling-monitor'' v m \<and>
      (\<forall>x. explains dict_nx (build_graph dict_nx chain_edges) ''cooling-monitor'' v x \<longrightarrow> x \<le> m)"
    by blast
  from fi have "map_of imp ''dcim-bridge'' = Some (196/1000)" by (auto simp: build_chain chain_impacts)
  then have "explains dict_nx (build_graph dict_nx chain_edges) ''cooling-monitor'' ''dcim-bridge'' (196/1000) \<and>
     (\<forall>x. explains dict_nx (build_graph dict_nx chain_edges) ''cooling-monitor'' ''dcim-bridge'' x \<longrightarrow> x \<le> 196/1000)"
    unfolding best .
  then show ?thesis by force
qed

section \<open>Ranking\<close>

lemma sum_list_filter_nonneg:
  fixes f :: "'a \<Rightarrow> real"
  shows "\<forall>x \<in> set xs. 0 \<le> f x \<Longrightarrow> 0 \<le> sum_list (map f (filter P xs))"
  by (intro sum_list_nonneg) auto

lemma sum_list_filter_ge:
  fixes f :: "'a \<Rightarrow> real"
  assumes "\<forall>x \<in> set xs. 0 \<le> f x" and "x \<in> set xs" and "P x"
  shows "f x \<le> sum_list (map f (filter P xs))"
  using assms by (induction xs) (auto simp: sum_list_filter_nonneg intro: add_increasing add_increasing2)

lemma collect_scores_spec:
  assumes "\<forall>n \<in> set ns. \<exists>x. f n = Some x"
  shows "\<exists>sc. collect_scores f ns = Some sc \<and>
    (\<forall>n x. (n, x) \<in> set sc \<longleftrightarrow> n \<in> set ns \<and> f n = Some x \<and> 0 < x) \<and>
    (distinct ns \<longrightarrow> distinct (map fst sc))"
  using assms
proof (induction ns)
  case (Cons n ns)
  then obtain sc x where sc: "collect_scores f ns = Some sc"
    "\<forall>n x. (n, x) \<in> set sc \<longleftrightarrow> n \<in> set ns \<and> f n = Some x \<and> 0 < x"
    "distinct ns \<longrightarrow> distinct (map fst sc)" and x: "f n = Some x" by auto
  have "n \<notin> fst ` set sc" if "n \<notin> set ns" using sc(2) that by auto
  with sc x show ?case by auto
qed simp

text \<open>The score of a node: its explained share of the seeds, plus one when it is an unexplained
  symptom, halved when it has an upstream explainer.\<close>

lemma node_score_eq:
  assumes "forward_impact nx g n = Some imp"
  shows "node_score nx g S n =
    Some (if nx_in_degree nx g n = 0
          then sum_list (map snd (filter (\<lambda>sv. fst sv \<in> S) imp)) + (if n \<in> S then 1 else 0)
          else sum_list (map snd (filter (\<lambda>sv. fst sv \<in> S) imp)) / 2)"
  by (simp add: node_score_def assms Let_def UPSTREAM_PENALTY_def)


lemma collect_scores_mono:
  "collect_scores f ns = Some sc \<Longrightarrow> \<forall>n \<in> set ns. \<exists>x. f n = Some x"
  by (induction ns arbitrary: sc) (auto split: option.splits)

lemma impact_nonneg:
  "forward_impact nx g n = Some imp \<Longrightarrow> \<forall>sv \<in> set imp. 0 \<le> snd sv"
proof -
  assume fi: "forward_impact nx g n = Some imp"
  have "0 \<le> x" if "(v, x) \<in> set imp" for v x
  proof -
    have "map_of imp v = Some x" using forward_impact_distinct [OF fi] that by simp
    then have "explains nx g n v x" using forward_impact_inv [OF fi] by (simp add: impact_inv_def)
    from explains_ge_CUT [OF this] show ?thesis by (simp add: CUT_def)
  qed
  then show ?thesis by auto
qed

text \<open>What a returned ranking is: the sorted positive scores, normalised by their sum.\<close>

definition seed_nodes :: "'g nxlib \<Rightarrow> 'g \<Rightarrow> string list \<Rightarrow> string set" where
  "seed_nodes nx g seeds =
     (if filter (\<lambda>s. s \<in> set (nx_nodes nx g)) seeds = [] then set (nx_nodes nx g)
      else set (filter (\<lambda>s. s \<in> set (nx_nodes nx g)) seeds))"

lemma rank_root_causes_alt:
  "rank_root_causes nx g seeds onset_s topn =
     (if nx_number_of_edges nx g = 0 then Some []
      else map_option (\<lambda>scores. map (\<lambda>kv. \<lparr>rc_pod = fst kv,
              rc_score = py_round 3 (snd kv / sum_list (map snd scores)), rc_onset = onset_s (fst kv)\<rparr>)
            (take topn (sort_key (\<lambda>kv. (- snd kv, onset_key onset_s (fst kv))) scores)))
          (collect_scores (node_score nx g (seed_nodes nx g seeds)) (nx_nodes nx g)))"
  by (simp add: rank_root_causes_def seed_nodes_def Let_def split: option.splits)

lemma share_bounds:
  fixes scores :: "(string \<times> real) list"
  assumes "\<forall>kv \<in> set scores. 0 < snd kv" and "kv \<in> set scores"
  shows "0 \<le> snd kv / sum_list (map snd scores)" "snd kv / sum_list (map snd scores) \<le> 1"
proof -
  have "snd kv \<le> sum_list (map snd scores)"
    using sum_list_filter_ge [of scores snd kv "\<lambda>_. True"] assms by (auto intro: less_imp_le)
  moreover have "0 < snd kv" using assms by blast
  ultimately show "0 \<le> snd kv / sum_list (map snd scores)" "snd kv / sum_list (map snd scores) \<le> 1"
    by (auto simp: divide_le_eq_1)
qed

lemma sorted_ranked_scores:
  fixes scores :: "(string \<times> real) list"
  assumes "\<forall>kv \<in> set scores. 0 < snd kv"
  shows "sorted_wrt (\<ge>) (map (\<lambda>kv. py_round 3 (snd kv / sum_list (map snd scores)))
    (take k (sort_key (\<lambda>kv. (- snd kv, onset_key onset_s (fst kv))) scores)))"
proof -
  let ?key = "\<lambda>kv. (- snd kv, onset_key onset_s (fst kv)) :: real \<times> nat \<times> real"
  let ?ys = "sort_key ?key scores"
  have T: "0 \<le> sum_list (map snd scores)"
    using sum_list_filter_nonneg [of scores snd "\<lambda>_. True"] assms by (auto intro: less_imp_le)
  have "sorted (map ?key ?ys)" by simp
  then have "sorted_wrt (\<lambda>a b. ?key a \<le> ?key b) ?ys" by (simp add: sorted_wrt_map)
  then have "sorted_wrt (\<lambda>a b. snd b \<le> snd a) ?ys"
    by (rule sorted_wrt_mono_rel [rotated]) (auto simp: less_eq_prod_def)
  then have "sorted_wrt (\<lambda>a b. snd b \<le> snd a) (take k ?ys)" by (rule sorted_wrt_take)
  then have "sorted_wrt (\<lambda>a b. py_round 3 (snd b / sum_list (map snd scores))
      \<le> py_round 3 (snd a / sum_list (map snd scores))) (take k ?ys)"
    by (rule sorted_wrt_mono_rel [rotated]) (intro py_round_mono divide_right_mono T)
  then show ?thesis by (simp add: sorted_wrt_map)
qed

lemma rank_root_causes_returns:
  "collect_scores (node_score nx g (seed_nodes nx g seeds)) (nx_nodes nx g) = Some sc \<Longrightarrow>
     \<exists>rs. rank_root_causes nx g seeds onset_s topn = Some rs"
  by (simp add: rank_root_causes_alt)

lemma node_score_total:
  assumes "light nx g B" shows "\<forall>n \<in> A. \<exists>x. node_score nx g S n = Some x"
proof
  fix n assume "n \<in> A"
  from forward_impact_total [OF assms] obtain imp where "forward_impact nx g n = Some imp" by blast
  then show "\<exists>x. node_score nx g S n = Some x" by (auto simp: node_score_eq)
qed

text \<open>A node scores exactly when it explains some seed itself or is an unexplained seed.\<close>

lemma node_score_pos:
  assumes lt: "light nx g B" and sc: "node_score nx g S n = Some x"
  shows "0 < x \<longleftrightarrow> (\<exists>s \<in> S. \<exists>w. explains nx g n s w) \<or> (n \<in> S \<and> nx_in_degree nx g n = 0)"
proof -
  from forward_impact_total [OF lt] obtain imp where imp: "forward_impact nx g n = Some imp" by blast
  let ?E = "sum_list (map snd (filter (\<lambda>sv. fst sv \<in> S) imp))"
  have best: "map_of imp v = Some m \<longleftrightarrow>
      explains nx g n v m \<and> (\<forall>x. explains nx g n v x \<longrightarrow> x \<le> m)" for v m
    by (rule forward_impact_best [OF lt imp])
  have nn: "0 \<le> ?E" using impact_nonneg [OF imp] by (rule sum_list_filter_nonneg)
  have "0 < ?E \<longleftrightarrow> (\<exists>s \<in> S. \<exists>w. explains nx g n s w)"
  proof
    assume "0 < ?E"
    then have "filter (\<lambda>sv. fst sv \<in> S) imp \<noteq> []" by auto
    then obtain s w where "(s, w) \<in> set imp" "s \<in> S" by (auto simp: filter_empty_conv)
    then have "map_of imp s = Some w" using forward_impact_distinct [OF imp] by simp
    then have "explains nx g n s w" unfolding best by (rule conjunct1)
    with \<open>s \<in> S\<close> show "\<exists>s \<in> S. \<exists>w. explains nx g n s w" by (intro bexI exI)
  next
    assume "\<exists>s \<in> S. \<exists>w. explains nx g n s w"
    then obtain s w where s: "s \<in> S" "explains nx g n s w" by blast
    from forward_impact_dominates [OF lt imp s(2)] obtain m where m: "map_of imp s = Some m"
      by (elim exE conjE)
    then have mem: "(s, m) \<in> set imp" by (rule map_of_SomeD)
    have "m \<le> ?E"
      using sum_list_filter_ge [OF impact_nonneg [OF imp] mem, of "\<lambda>sv. fst sv \<in> S"] s(1) by simp
    moreover from m have "explains nx g n s m" unfolding best by (rule conjunct1)
    then have "CUT \<le> m" by (rule explains_ge_CUT)
    ultimately show "0 < ?E" using CUT_pos by linarith
  qed
  then show ?thesis
    using sc nn unfolding node_score_eq [OF imp] by (auto split: if_splits)
qed

lemma chain_facts:
  "nx_nodes dict_nx chain_graph = [''cooling-monitor'', ''timescaledb'', ''dcim-bridge'']"
  "nx_in_degree dict_nx chain_graph ''cooling-monitor'' = 0"
  "nx_in_degree dict_nx chain_graph ''timescaledb'' = 1"
  "nx_in_degree dict_nx chain_graph ''dcim-bridge'' = 1"
  "nx_number_of_edges dict_nx chain_graph = 2"
  by (simp_all add: dict_nx_def dg_out_def chain_graph_def)

lemma rank_chain:
  "rank_root_causes dict_nx (build_graph dict_nx chain_edges) [''dcim-bridge''] (\<lambda>_. None) TOP =
     Some [\<lparr>rc_pod = ''cooling-monitor'', rc_score = 528/1000, rc_onset = None\<rparr>,
           \<lparr>rc_pod = ''timescaledb'', rc_score = 472/1000, rc_onset = None\<rparr>]"
  by (simp add: build_chain rank_root_causes_def node_score_def chain_impacts chain_facts Let_def TOP_def
      UPSTREAM_PENALTY_def onset_key_def less_prod_def' py_round_def round_half_even_def floor_eq_iff)

text \<open>The ranking of a graph of correlations always returns: at most \<open>topn\<close> distinct
  pods of the graph, by decreasing score, each score a share between 0 and 1, each with its own
  onset.\<close>

theorem rank_root_causes_wellformed:
  assumes "digraph_library nx" and "causal_edges edges"
  shows "\<exists>rs. rank_root_causes nx (build_graph nx edges) seeds onset_s topn = Some rs \<and>
    length rs \<le> topn \<and> distinct (map rc_pod rs) \<and>
    (\<forall>r \<in> set rs. rc_pod r \<in> e_src ` set edges \<union> e_dst ` set edges \<and>
       0 \<le> rc_score r \<and> rc_score r \<le> 1 \<and> rc_onset r = onset_s (rc_pod r)) \<and>
    sorted_wrt (\<ge>) (map rc_score rs)"
proof (cases "nx_number_of_edges nx (build_graph nx edges) = 0")
  case False
  let ?g = "build_graph nx edges"
  let ?ns = "nx_nodes nx ?g" and ?f = "node_score nx ?g (seed_nodes nx ?g seeds)"
  note lt = digraph_library.light_build_graph [OF assms]
  from collect_scores_spec [OF node_score_total [OF lt]] obtain sc where
    sc: "collect_scores ?f ?ns = Some sc"
      "\<forall>n x. (n, x) \<in> set sc \<longleftrightarrow> n \<in> set ?ns \<and> ?f n = Some x \<and> 0 < x"
      "distinct ?ns \<longrightarrow> distinct (map fst sc)" by blast
  let ?ys = "take topn (sort_key (\<lambda>kv. (- snd kv, onset_key onset_s (fst kv))) sc)"
  let ?mk = "\<lambda>kv. \<lparr>rc_pod = fst kv, rc_score = py_round 3 (snd kv / sum_list (map snd sc)),
      rc_onset = onset_s (fst kv)\<rparr>"
  have pos: "\<forall>kv \<in> set sc. 0 < snd kv" using sc(2) by auto
  have rk: "rank_root_causes nx ?g seeds onset_s topn = Some (map ?mk ?ys)"
    using False by (simp add: rank_root_causes_alt sc(1))
  have sub: "kv \<in> set sc" if "kv \<in> set ?ys" for kv using in_set_takeD [OF that] by simp
  have "distinct (map fst sc)"
    using sc(3) digraph_library.distinct_nodes_build_graph [OF assms(1)] by blast
  then have "distinct (map fst ?ys)" by (rule distinct_take_sort)
  then have "distinct (map rc_pod (map ?mk ?ys))" by (simp add: comp_def)
  moreover have "rc_pod r \<in> e_src ` set edges \<union> e_dst ` set edges \<and>
       0 \<le> rc_score r \<and> rc_score r \<le> 1 \<and> rc_onset r = onset_s (rc_pod r)"
    if "r \<in> set (map ?mk ?ys)" for r
  proof -
    from that obtain kv where kv: "r = ?mk kv" "kv \<in> set sc" using sub by auto
    then have "fst kv \<in> set ?ns" using sc(2) by (metis prod.collapse)
    with share_bounds [OF pos kv(2)] show ?thesis
      by (simp add: kv(1) digraph_library.nodes_build_graph [OF assms(1)] py_round_nonneg py_round_le_1)
  qed
  moreover have "sorted_wrt (\<ge>) (map rc_score (map ?mk ?ys))"
    using sorted_ranked_scores [OF pos, of topn onset_s] by (simp add: comp_def)
  moreover have "length (map ?mk ?ys) \<le> topn" by simp
  ultimately show ?thesis unfolding rk by blast
qed (simp add: rank_root_causes_alt)

theorem rank_root_causes_wellformed_witness:
  "\<exists>rs. rank_root_causes dict_nx (build_graph dict_nx chain_edges) [''dcim-bridge''] (\<lambda>_. None) TOP = Some rs \<and>
     length rs \<le> 3"
  using rank_root_causes_wellformed [OF dict.digraph_library_axioms causal_chain_edges,
      of "[''dcim-bridge'']" "\<lambda>_. None" TOP]
  by (auto simp: TOP_def)

lemma rank_root_causes_pods:
  assumes lib: "digraph_library nx" and ce: "causal_edges edges"
    and rk: "rank_root_causes nx (build_graph nx edges) seeds onset_s topn = Some rs"
  shows "r \<in> set rs \<Longrightarrow>
      \<exists>x. node_score nx (build_graph nx edges) (seed_nodes nx (build_graph nx edges) seeds) (rc_pod r) = Some x \<and> 0 < x"
    and "edges \<noteq> [] \<Longrightarrow> 0 < topn \<Longrightarrow> n \<in> set (nx_nodes nx (build_graph nx edges)) \<Longrightarrow>
      node_score nx (build_graph nx edges) (seed_nodes nx (build_graph nx edges) seeds) n = Some x \<Longrightarrow> 0 < x \<Longrightarrow> rs \<noteq> []"
proof -
  let ?g = "build_graph nx edges"
  let ?ns = "nx_nodes nx ?g" and ?f = "node_score nx ?g (seed_nodes nx ?g seeds)"
  from collect_scores_spec [OF node_score_total [OF digraph_library.light_build_graph [OF lib ce]]]
  obtain sc where sc: "collect_scores ?f ?ns = Some sc"
    "\<forall>n x. (n, x) \<in> set sc \<longleftrightarrow> n \<in> set ?ns \<and> ?f n = Some x \<and> 0 < x" by blast
  note rs = rk [unfolded rank_root_causes_alt sc(1)]
  show "\<exists>x. ?f (rc_pod r) = Some x \<and> 0 < x" if "r \<in> set rs"
    using that rs sc(2) by (auto split: if_splits dest!: in_set_takeD)
  show "rs \<noteq> []" if "edges \<noteq> []" "0 < topn" "n \<in> set ?ns" "?f n = Some x" "0 < x"
  proof -
    have "(n, x) \<in> set sc" using sc(2) that by blast
    then show ?thesis
      using rs that(1,2) digraph_library.no_edges_build_graph [OF lib, of edges]
      by (auto split: if_splits)
  qed
qed



text \<open>Edges strong enough to survive one decay; every edge the gate accepts is one.\<close>

definition strong_edges :: "('a) edge_scheme list \<Rightarrow> bool" where
  "strong_edges edges \<longleftrightarrow> (\<forall>e \<in> set edges. CUT \<le> \<bar>e_r e\<bar> * DECAY)"

context digraph_library
begin

lemma explains_edge:
  assumes "strong_edges edges" and "e \<in> set edges"
  shows "\<exists>w. explains nx (build_graph nx edges) (e_src e) (e_dst e) w"
proof -
  from out_build_graph_ex [OF assms(2)] obtain d where
    d: "(e_dst e, d) \<in> set (nx_out_edges nx (build_graph nx edges) (e_src e))" by blast
  with out_build_graph [OF d] assms(1) have "CUT \<le> 1 * d_weight d * DECAY"
    by (auto simp: strong_edges_def)
  with explains_first [OF d] show ?thesis by blast
qed

end

text \<open>An incident with accepted edges is always attributed: whatever the symptoms, the ranking of a
  non-empty graph whose edges survive one decay names at least one pod.\<close>

lemma rank_attributes:
  assumes lib: "digraph_library nx" and ce: "causal_edges edges" and st: "strong_edges edges"
    and ne: "edges \<noteq> []" and tn: "0 < topn"
  shows "\<exists>rs. rank_root_causes nx (build_graph nx edges) seeds onset_s topn = Some rs \<and> rs \<noteq> []"
proof -
  let ?g = "build_graph nx edges"
  let ?S = "seed_nodes nx ?g seeds"
  note lt = digraph_library.light_build_graph [OF lib ce]
  note nodes = digraph_library.nodes_build_graph [OF lib, of edges]
  from collect_scores_spec [OF node_score_total [OF lt, of "set (nx_nodes nx ?g)" ?S]]
  obtain sc where sc: "collect_scores (node_score nx ?g ?S) (nx_nodes nx ?g) = Some sc" by (elim exE conjE)
  from rank_root_causes_returns [OF sc, of onset_s topn] obtain rs where
    rs: "rank_root_causes nx ?g seeds onset_s topn = Some rs" by (elim exE)
  have "set (nx_nodes nx ?g) \<noteq> {}" using ne by (auto simp: nodes)
  then have "?S \<noteq> {}" "?S \<subseteq> set (nx_nodes nx ?g)"
    by (auto simp: seed_nodes_def filter_empty_conv)
  then obtain s where s: "s \<in> ?S" "s \<in> set (nx_nodes nx ?g)" by blast
  have "\<exists>n \<in> set (nx_nodes nx ?g). (\<exists>s \<in> ?S. \<exists>w. explains nx ?g n s w) \<or> (n \<in> ?S \<and> nx_in_degree nx ?g n = 0)"
  proof (cases "nx_in_degree nx ?g s = 0")
    case False
    then obtain e where e: "e \<in> set edges" "e_dst e = s"
      by (auto simp: digraph_library.in_degree_build_graph [OF lib])
    with digraph_library.explains_edge [OF lib st e(1)] s(1) show ?thesis
      by (intro bexI [of _ "e_src e"]) (auto simp: nodes)
  qed (use s in blast)
  then obtain n where n: "n \<in> set (nx_nodes nx ?g)"
    "(\<exists>s \<in> ?S. \<exists>w. explains nx ?g n s w) \<or> (n \<in> ?S \<and> nx_in_degree nx ?g n = 0)" by blast
  obtain x where x: "node_score nx ?g ?S n = Some x"
    using node_score_total [OF lt, of UNIV ?S] by blast
  from n(2) have "0 < x" by (rule iffD2 [OF node_score_pos [OF lt x]])
  from rank_root_causes_pods(2) [OF lib ce rs ne tn n(1) x this] rs show ?thesis by blast
qed

section \<open>Blast radius\<close>

text \<open>A prediction: a decayed walk together with the sum of its lags.\<close>

inductive predicted :: "'g nxlib \<Rightarrow> 'g \<Rightarrow> string \<Rightarrow> string \<Rightarrow> real \<Rightarrow> int \<Rightarrow> bool" for nx g start where
  predicted_start: "predicted nx g start start 1 0"
| predicted_hop: "predicted nx g start u w t \<Longrightarrow> (v, d) \<in> set (nx_out_edges nx g u) \<Longrightarrow>
     CUT \<le> w * d_weight d * DECAY \<Longrightarrow>
     predicted nx g start v (w * d_weight d * DECAY) (t + d_lag d)"

definition blast_inv :: "'g nxlib \<Rightarrow> 'g \<Rightarrow> string \<Rightarrow> blast_state \<Rightarrow> bool" where
  "blast_inv nx g start st \<longleftrightarrow>
     distinct (start # map v_pod (bs_out st)) \<and>
     bs_seen st = insert start (v_pod ` set (bs_out st)) \<and>
     (\<forall>(u, w, t) \<in> set (bs_frontier st). predicted nx g start u w t) \<and>
     (\<forall>v \<in> set (bs_out st). \<exists>w. predicted nx g start (v_pod v) w (v_eta v) \<and> CUT \<le> w \<and>
        v_impact v = py_round 3 w)"

lemma blast_visit_inv:
  assumes "blast_inv nx g start st" "predicted nx g start n w t" "e \<in> set (nx_out_edges nx g n)"
  shows "blast_inv nx g start (blast_visit w t e st)"
proof (cases "fst e \<in> bs_seen st \<or> w * d_weight (snd e) * DECAY < CUT")
  case True
  with assms(1) show ?thesis by (simp add: blast_visit_def Let_def)
next
  case False
  then have "predicted nx g start (fst e) (w * d_weight (snd e) * DECAY) (t + d_lag (snd e))"
    using predicted_hop [OF assms(2), of "fst e" "snd e"] assms(3) by simp
  with False assms(1) show ?thesis
    by (auto simp: blast_visit_def Let_def blast_inv_def not_less)
qed

lemma blast_body_inv: "blast_inv nx g start st \<Longrightarrow> blast_inv nx g start (blast_body nx g st)"
proof (cases "bs_frontier st")
  case (Cons f rest)
  obtain n w t where f: "f = (n, w, t)" by (cases f) auto
  assume inv: "blast_inv nx g start st"
  then have n: "predicted nx g start n w t" by (simp add: blast_inv_def Cons f)
  from inv have "blast_inv nx g start (st\<lparr>bs_frontier := rest\<rparr>)" by (simp add: blast_inv_def Cons)
  then have "blast_inv nx g start (fold (blast_visit w t) (nx_out_edges nx g n) (st\<lparr>bs_frontier := rest\<rparr>))"
    by (rule fold_invariant [where Q = "\<lambda>e. e \<in> set (nx_out_edges nx g n)", rotated])
      (auto intro: blast_visit_inv n)
  then show ?thesis by (simp add: blast_body_def Cons f)
qed (simp add: blast_body_def)

text \<open>Each round takes one entry off the frontier and a visit adds one only for a node not seen
  before: the number of unseen nodes plus the length of the frontier decreases.\<close>

definition blast_cost :: "string set \<Rightarrow> blast_state \<Rightarrow> nat" where
  "blast_cost N st = card (N - bs_seen st) + length (bs_frontier st)"

lemma blast_visit_cost:
  assumes "finite N" "fst e \<in> N" shows "blast_cost N (blast_visit w t e st) \<le> blast_cost N st"
proof -
  have "card (N - insert (fst e) (bs_seen st)) < card (N - bs_seen st)" if "fst e \<notin> bs_seen st"
    using assms that by (intro psubset_card_mono) auto
  then show ?thesis by (auto simp: blast_visit_def Let_def blast_cost_def)
qed

lemma fold_visit_cost:
  assumes "finite N" "fst ` set ds \<subseteq> N"
  shows "blast_cost N (fold (blast_visit w t) ds st) \<le> blast_cost N st"
  using assms(2)
proof (induction ds arbitrary: st)
  case (Cons e ds)
  then have "blast_cost N (fold (blast_visit w t) ds (blast_visit w t e st)) \<le> blast_cost N (blast_visit w t e st)"
    by simp
  also have "\<dots> \<le> blast_cost N st" using blast_visit_cost [OF assms(1)] Cons.prems by simp
  finally show ?case by simp
qed simp

lemma blast_body_cost:
  assumes "finite N" "\<forall>u. fst ` set (nx_out_edges nx g u) \<subseteq> N" "bs_frontier st \<noteq> []"
  shows "blast_cost N (blast_body nx g st) < blast_cost N st"
proof -
  from assms(3) obtain n w t rest where f: "bs_frontier st = (n, w, t) # rest"
    by (cases "bs_frontier st") auto
  have "blast_cost N (fold (blast_visit w t) (nx_out_edges nx g n) (st\<lparr>bs_frontier := rest\<rparr>))
      \<le> blast_cost N (st\<lparr>bs_frontier := rest\<rparr>)"
    by (rule fold_visit_cost [OF assms(1) assms(2) [rule_format]])
  also have "\<dots> < blast_cost N st" by (simp add: blast_cost_def f)
  finally show ?thesis by (simp add: blast_body_def f)
qed

text \<open>Direct successors above the cut are seen in the first round, and stay seen.\<close>

lemma blast_visit_seen: "bs_seen st \<subseteq> bs_seen (blast_visit w t e st)"
  by (auto simp: blast_visit_def Let_def)

lemma fold_visit_seen:
  "bs_seen st \<subseteq> bs_seen (fold (blast_visit w t) ds st) \<and>
   (\<forall>(v, d) \<in> set ds. CUT \<le> w * d_weight d * DECAY \<longrightarrow> v \<in> bs_seen (fold (blast_visit w t) ds st))"
proof (induction ds arbitrary: st)
  case (Cons e ds)
  have "CUT \<le> w * d_weight (snd e) * DECAY \<Longrightarrow> fst e \<in> bs_seen (blast_visit w t e st)"
    by (auto simp: blast_visit_def Let_def)
  with Cons [of "blast_visit w t e st"] blast_visit_seen [of st w t e] show ?case
    by (cases e) auto
qed simp

definition direct_seen :: "'g nxlib \<Rightarrow> 'g \<Rightarrow> string \<Rightarrow> blast_state \<Rightarrow> bool" where
  "direct_seen nx g start st \<longleftrightarrow> (start, 1, 0) \<in> set (bs_frontier st) \<or>
     (\<forall>(v, d) \<in> set (nx_out_edges nx g start). CUT \<le> d_weight d * DECAY \<longrightarrow> v \<in> bs_seen st)"

lemma fold_visit_frontier: "set (bs_frontier st) \<subseteq> set (bs_frontier (fold (blast_visit w t) ds st))"
proof (induction ds arbitrary: st)
  case (Cons e ds)
  have "set (bs_frontier st) \<subseteq> set (bs_frontier (blast_visit w t e st))"
    by (auto simp: blast_visit_def Let_def)
  with Cons [of "blast_visit w t e st"] show ?case by auto
qed simp

lemma direct_seen_body: "direct_seen nx g start st \<Longrightarrow> direct_seen nx g start (blast_body nx g st)"
proof (cases "bs_frontier st")
  case (Cons f rest)
  obtain n w t where f: "f = (n, w, t)" by (cases f) auto
  let ?s = "st\<lparr>bs_frontier := rest\<rparr>"
  note seen = fold_visit_seen [of ?s w t "nx_outs" for nx_outs]
  assume "direct_seen nx g start st"
  then consider "f = (start, 1, 0)" | "(start, 1, 0) \<in> set rest"
    | "\<forall>(v, d) \<in> set (nx_out_edges nx g start). CUT \<le> d_weight d * DECAY \<longrightarrow> v \<in> bs_seen ?s"
    by (auto simp: direct_seen_def Cons)
  then have "direct_seen nx g start (fold (blast_visit w t) (nx_out_edges nx g n) ?s)"
  proof cases
    case 1
    with seen [of "nx_out_edges nx g n"] show ?thesis by (auto simp: direct_seen_def f)
  next
    case 2
    with fold_visit_frontier [of ?s w t "nx_out_edges nx g n"] show ?thesis
      by (auto simp: direct_seen_def)
  next
    case 3
    with seen [of "nx_out_edges nx g n"] show ?thesis by (fastforce simp: direct_seen_def)
  qed
  then show ?thesis by (simp add: blast_body_def Cons f)
qed (simp add: blast_body_def)

lemma blast_loop_returns:
  assumes "digraph_library nx"
  shows "\<exists>st. while_option (\<lambda>st. bs_frontier st \<noteq> []) (blast_body nx (build_graph nx edges)) st0 = Some st"
proof -
  let ?g = "build_graph nx edges"
  have N: "\<forall>u. fst ` set (nx_out_edges nx ?g u) \<subseteq> set (nx_nodes nx ?g)"
    using digraph_library.out_target_node [OF assms] by (fastforce simp: build_graph_built)
  show ?thesis
    by (rule measure_while_option_Some [where P = "\<lambda>_. True" and f = "blast_cost (set (nx_nodes nx ?g))"])
      (simp_all add: blast_body_cost [OF _ N])
qed

lemma blast_radius_returns:
  "digraph_library nx \<Longrightarrow> \<exists>vs. blast_radius nx (build_graph nx edges) start = Some vs"
  using blast_loop_returns [of nx edges] by (fastforce simp: blast_radius_def)

text \<open>Ranking and then the blast radius of the first root, as the pass, the memory and the merge do.\<close>

lemma rank_root_causes_total:
  assumes "digraph_library nx" and "causal_edges edges"
  shows "\<exists>rs. rank_root_causes nx (build_graph nx edges) seeds onset_s topn = Some rs"
proof -
  note lt = digraph_library.light_build_graph [OF assms]
  from collect_scores_spec [OF node_score_total [OF lt, of "set (nx_nodes nx (build_graph nx edges))"
        "seed_nodes nx (build_graph nx edges) seeds"]] obtain sc where
    "collect_scores (node_score nx (build_graph nx edges) (seed_nodes nx (build_graph nx edges) seeds))
       (nx_nodes nx (build_graph nx edges)) = Some sc" by (elim exE conjE)
  from rank_root_causes_returns [OF this] show ?thesis .
qed

lemma diagnosis_returns:
  assumes "digraph_library nx" and "causal_edges edges"
  shows "\<exists>rs bs. rank_root_causes nx (build_graph nx edges) seeds onset_s topn = Some rs \<and>
    (case rs of [] \<Rightarrow> Ret [] | r # _ \<Rightarrow> returned (blast_radius nx (build_graph nx edges) (rc_pod r))) = Ret bs"
proof -
  from rank_root_causes_total [OF assms, of seeds onset_s topn] obtain rs where
    rs: "rank_root_causes nx (build_graph nx edges) seeds onset_s topn = Some rs" by (elim exE)
  show ?thesis
  proof (cases rs)
    case (Cons r rest)
    from blast_radius_returns [OF assms(1), of edges "rc_pod r"] obtain bs where
      "blast_radius nx (build_graph nx edges) (rc_pod r) = Some bs" by (elim exE)
    with rs Cons show ?thesis by simp
  qed (use rs in simp)
qed

text \<open>C28 (functional).  The blast radius of a node always returns, whatever the weights: every victim
  comes with the rounded impact and the summed lags of one walk from the node that stays above
  the cut, no victim is named twice nor is it the node itself, the list is sorted by decreasing
  impact, and every direct successor above the cut is on it.\<close>

theorem blast_radius_predicts:
  assumes "digraph_library nx"
  shows "\<exists>vs. blast_radius nx (build_graph nx edges) start = Some vs \<and>
    distinct (start # map v_pod vs) \<and> sorted_wrt (\<ge>) (map v_impact vs) \<and>
    (\<forall>v \<in> set vs. \<exists>w. predicted nx (build_graph nx edges) start (v_pod v) w (v_eta v) \<and> CUT \<le> w \<and>
       v_impact v = py_round 3 w) \<and>
    (\<forall>(v, d) \<in> set (nx_out_edges nx (build_graph nx edges) start).
       CUT \<le> d_weight d * DECAY \<and> v \<noteq> start \<longrightarrow> v \<in> v_pod ` set vs)"
proof (cases "start \<in> set (nx_nodes nx (build_graph nx edges))")
  case True
  let ?g = "build_graph nx edges" and ?s0 = "\<lparr>bs_frontier = [(start, 1, 0)], bs_seen = {start}, bs_out = []\<rparr>"
  from blast_loop_returns [OF assms] obtain st where
    st: "while_option (\<lambda>st. bs_frontier st \<noteq> []) (blast_body nx ?g) ?s0 = Some st" by blast
  let ?P = "\<lambda>st. blast_inv nx ?g start st \<and> direct_seen nx ?g start st"
  have "?P ?s0" by (simp add: blast_inv_def direct_seen_def predicted_start)
  then have P: "?P st"
    by (rule while_option_rule [OF _ st, rotated]) (auto intro: blast_body_inv direct_seen_body)
  have fr: "bs_frontier st = []" using while_option_stop [OF st] by simp
  let ?vs = "sort_key (\<lambda>v. - v_impact v) (bs_out st)"
  have vs: "blast_radius nx ?g start = Some ?vs" using True by (simp add: blast_radius_def st)
  have "sorted_wrt (\<lambda>a b. - v_impact a \<le> - v_impact b) ?vs"
    using sorted_sort_key [of "\<lambda>v. - v_impact v" "bs_out st"] by (simp add: sorted_wrt_map)
  then have "sorted_wrt (\<ge>) (map v_impact ?vs)" by (simp add: sorted_wrt_map)
  moreover have "distinct (start # map v_pod ?vs)"
    using P distinct_take_sort [of v_pod "bs_out st" "length (bs_out st)"] by (simp add: blast_inv_def)
  ultimately show ?thesis
    using P fr unfolding vs by (auto simp: blast_inv_def direct_seen_def)
next
  case False
  then have "nx_out_edges nx (build_graph nx edges) start = []"
    using digraph_library.out_build_graph_ex [OF assms] digraph_library.out_build_graph [OF assms, of _ _ edges start]
      digraph_library.nodes_build_graph [OF assms, of edges]
    by (cases "nx_out_edges nx (build_graph nx edges) start") fastforce+
  with False show ?thesis by (simp add: blast_radius_def)
qed

theorem blast_radius_predicts_witness:
  "\<exists>vs. blast_radius dict_nx (build_graph dict_nx chain_edges) ''cooling-monitor'' = Some vs \<and>
     ''timescaledb'' \<in> v_pod ` set vs"
proof -
  have out: "nx_out_edges dict_nx (build_graph dict_nx chain_edges) ''cooling-monitor'' =
      [(''timescaledb'', \<lparr>d_weight = 8/10, d_lag = 30, d_evidence = [''write'', ''pvc'']\<rparr>)]"
    unfolding build_chain by (simp add: chain_graph_def dict_nx_def dg_out_def)
  from blast_radius_predicts [OF dict.digraph_library_axioms, of chain_edges "''cooling-monitor''"]
  show ?thesis by (auto simp: out CUT_def DECAY_def)
qed

end
