(* ===== verification/Pipeline.thy ===== *)
theory Pipeline
  imports Gate Ranking
begin

text \<open>
  \<open>correlation/engine/pipeline.py\<close>: one correlation pass, signal vectors in, causal graph out.
  The dictionaries of the code are association lists in insertion order; \<open>pass_args\<close> bundles the
  keyword arguments of \<open>run_pass\<close> (an absent list or dictionary is the empty one, as the code
  treats both alike; an absent \<open>window\<close> or \<open>recent\<close> is 0, which Python also counts as false).
  A pass returns, raises (numpy and scipy on arrays of the wrong length) or hangs (the worklists of
  the ranking); which of them happens is proved below.
\<close>

definition R_SRC :: real where "R_SRC = 1/2"

definition edge_pref :: "('a) edge_scheme \<Rightarrow> nat \<times> real" where
  "edge_pref e = (if ''write'' \<in> set (e_evidence e) then 1 else 0, \<bar>e_r e\<bar>)"

definition writer_edge ::
    "numlib \<Rightarrow> string \<Rightarrow> string \<Rightarrow> vec \<Rightarrow> vec \<Rightarrow> witness \<Rightarrow> real option \<Rightarrow> real option \<Rightarrow> edge option outcome" where
  "writer_edge np src dst wsrc vdst w w_onset v_onset =
     (let ks = filter (\<lambda>k. k \<in> set SOURCE_COUPLING_KINDS) (kinds w src dst) in
      if ks = [] then Ret None
      else if profile_raises np wsrc vdst then Raise ValueError
      else
        let prof = lag_profile np wsrc vdst in
        (case max_by snd prof of
           None \<Rightarrow> Ret None
         | Some (lag, r) \<Rightarrow>
             if r < R_SRC \<or> \<not> adjacent_support prof lag R_ADJ then Ret None
             else if (case (w_onset, v_onset) of
                        (Some tw, Some tv) \<Rightarrow> tw > tv + TEMPORAL_TOL_S | _ \<Rightarrow> False) then Ret None
             else
               let temporal = (w_onset \<noteq> None \<and> v_onset \<noteq> None)
               in Ret (Some \<lparr>e_src = src, e_dst = dst, e_r = py_round 3 r, e_lag = lag,
                    e_evidence = [''write''] @ ks @ (if temporal then [''temporal''] else [])\<rparr>)))"

type_synonym vectors = "(string \<times> vec) list"

record pass_args =
  pa_vectors :: vectors
  pa_witness :: witness
  pa_slo_breach :: "string list"
  pa_caps :: "string \<rightharpoonup> real"
  pa_window :: nat
  pa_write_vectors :: vectors
  pa_baselines :: "(string \<rightharpoonup> real) option"
  pa_recent :: nat

section \<open>Detection\<close>

definition strong_onsets :: "numlib \<Rightarrow> vec \<Rightarrow> onset list" where
  "strong_onsets np v = filter (\<lambda>x. \<bar>o_zpeak x\<bar> \<ge> 3) (cusum_onsets np v)"

definition deviates :: "numlib \<Rightarrow> pass_args \<Rightarrow> string \<Rightarrow> vec \<Rightarrow> bool" where
  "deviates np a pod v =
     (case pa_baselines a of
        None \<Rightarrow> True
      | Some baselines \<Rightarrow>
          let gate_vec = (if pa_recent a > 0 then tail_slice (pa_recent a) v else v)
          in (case baselines pod of
                None \<Rightarrow> False
              | Some thr \<Rightarrow> \<not> np_percentile np gate_vec 90 \<le> thr))"

definition raw_onsets :: "numlib \<Rightarrow> pass_args \<Rightarrow> (string \<times> onset list) list" where
  "raw_onsets np a =
     map (\<lambda>(pod, v). (pod, strong_onsets np v))
       (filter (\<lambda>(pod, v). strong_onsets np v \<noteq> [] \<and> deviates np a pod v) (pa_vectors a))"

text \<open>The event centre: the strongest onset among the pods coupled to another anomalous pod,
  among all of them when none is.\<close>

definition centre_step :: "real \<times> nat option \<Rightarrow> string \<times> onset list \<Rightarrow> real \<times> nat option" where
  "centre_step best p =
     (case max_by (\<lambda>x. \<bar>o_zpeak x\<bar>) (snd p) of
        None \<Rightarrow> best
      | Some o1 \<Rightarrow> if \<bar>o_zpeak o1\<bar> > fst best then (\<bar>o_zpeak o1\<bar>, Some (o_idx o1)) else best)"

definition event_centre :: "witness \<Rightarrow> (string \<times> onset list) list \<Rightarrow> nat option" where
  "event_centre w raw =
     (let onset_pods = map fst raw;
          coupled = filter (\<lambda>p. list_ex (\<lambda>q. q \<noteq> fst p \<and> couples w (fst p) q) onset_pods) raw
      in snd (foldl centre_step (-1, None) (if coupled \<noteq> [] then coupled else raw)))"

definition event_onset :: "nat option \<Rightarrow> onset list \<Rightarrow> onset" where
  "event_onset centre ons =
     (case centre of
        None \<Rightarrow> hd ons
      | Some c \<Rightarrow> the (min_by (\<lambda>x. \<bar>int (o_idx x) - int c\<bar>) ons))"

definition onset_time :: "onset \<Rightarrow> real" where
  "onset_time o1 = real (o_idx o1) * DT_S"

definition pass_findings :: "numlib \<Rightarrow> pass_args \<Rightarrow> nat option \<Rightarrow> (string \<times> onset list) list \<Rightarrow> finding list" where
  "pass_findings np a centre raw =
     map (\<lambda>(pod, ons).
         let ev = event_onset centre ons
         in \<lparr>f_pod = pod,
             f_class = classify np (the (map_of (pa_vectors a) pod)) (o_idx ev) (pa_caps a pod),
             f_onset = onset_time ev,
             f_severity = min (\<bar>o_zpeak ev\<bar> / 10) 1,
             f_n_onsets = length ons\<rparr>) raw"

definition finding_onsets :: "finding list \<Rightarrow> string \<rightharpoonup> real" where
  "finding_onsets fs = map_of (map (\<lambda>f. (f_pod f, f_onset f)) fs)"

definition write_onsets :: "numlib \<Rightarrow> nat option \<Rightarrow> vectors \<Rightarrow> string \<rightharpoonup> real" where
  "write_onsets np centre wvs =
     map_of (map (\<lambda>(pod, wv). (pod, onset_time (event_onset centre (strong_onsets np wv))))
       (filter (\<lambda>(pod, wv). strong_onsets np wv \<noteq> []) wvs))"

section \<open>Correlation\<close>

text \<open>The slice centred on the event, in Python's integers.\<close>

definition slice_lo :: "nat \<Rightarrow> nat \<Rightarrow> nat \<Rightarrow> nat" where
  "slice_lo window n centre =
     nat (max 0 (min (int centre - int (window div 3)) (int n - int window)))"

definition narrow :: "pass_args \<Rightarrow> nat option \<Rightarrow> vectors \<Rightarrow> vectors" where
  "narrow a centre vs =
     (case centre of
        None \<Rightarrow> vs
      | Some c \<Rightarrow>
          if pa_window a = 0 then vs
          else
            let n = length (snd (hd (pa_vectors a)));
                lo = slice_lo (pa_window a) n c
            in map (\<lambda>(p, v). (p, take (pa_window a) (drop lo v))) vs)"

fun combinations2 :: "'a list \<Rightarrow> ('a \<times> 'a) list" where
  "combinations2 [] = []"
| "combinations2 (x # xs) = map (Pair x) xs @ combinations2 xs"

definition lookup_vec :: "vectors \<Rightarrow> string \<Rightarrow> vec" where
  "lookup_vec vs p = the (map_of vs p)"

definition pair_edge ::
    "numlib \<Rightarrow> witness \<Rightarrow> vectors \<Rightarrow> (string \<rightharpoonup> real) \<Rightarrow> string \<times> string \<Rightarrow> edge option" where
  "pair_edge np w cvec onset_s ab =
     (if \<not> couples w (fst ab) (snd ab) then None
      else if fst ab \<notin> dom onset_s \<and> snd ab \<notin> dom onset_s \<and> dom onset_s = {} then None
      else
        let d = best_directed np (lookup_vec cvec (fst ab)) (lookup_vec cvec (snd ab));
            src = (if bd_forward d then fst ab else snd ab);
            dst = (if bd_forward d then snd ab else fst ab)
        in accept_edge src dst (bd_r d) (bd_lag d) (bd_profile d) w onset_s)"

definition pair_edges :: "numlib \<Rightarrow> witness \<Rightarrow> vectors \<Rightarrow> (string \<rightharpoonup> real) \<Rightarrow> edge list" where
  "pair_edges np w cvec onset_s =
     List.map_filter (pair_edge np w cvec onset_s) (combinations2 (sort (map fst cvec)))"
text \<open>Source attribution: the writers in order, each against the victims in order.\<close>

definition write_activity :: "vectors \<Rightarrow> (string \<rightharpoonup> real) outcome" where
  "write_activity wvs =
     (if list_ex (\<lambda>(p, wv). wv = []) wvs then Raise ValueError
      else Ret (map_of (map (\<lambda>(p, wv). (p, arr_max (map abs wv))) wvs)))"

definition act_of :: "(string \<rightharpoonup> real) \<Rightarrow> string \<Rightarrow> real" where
  "act_of write_act p = (case write_act p of None \<Rightarrow> 0 | Some x \<Rightarrow> x)"

fun collect_edges :: "('a \<Rightarrow> edge option outcome) \<Rightarrow> 'a list \<Rightarrow> edge list outcome" where
  "collect_edges f [] = Ret []"
| "collect_edges f (x # xs) =
     and_then (f x) (\<lambda>e. and_then (collect_edges f xs)
       (\<lambda>es. Ret (case e of None \<Rightarrow> es | Some e \<Rightarrow> e # es)))"

definition source_edge ::
    "numlib \<Rightarrow> witness \<Rightarrow> vectors \<Rightarrow> vectors \<Rightarrow> (string \<rightharpoonup> real) \<Rightarrow> (string \<rightharpoonup> real) \<Rightarrow> (string \<rightharpoonup> real) \<Rightarrow>
       string \<times> string \<Rightarrow> edge option outcome" where
  "source_edge np w cvec write_cvec write_act write_onset_s onset_s wv =
     (if fst wv \<notin> dom write_onset_s then Ret None
      else if snd wv = fst wv \<or> \<not> couples_source w (fst wv) (snd wv) then Ret None
      else if snd wv \<notin> dom onset_s then Ret None
      else if act_of write_act (fst wv) \<le> act_of write_act (snd wv) then Ret None
      else writer_edge np (fst wv) (snd wv) (lookup_vec write_cvec (fst wv)) (lookup_vec cvec (snd wv)) w
             (write_onset_s (fst wv)) (onset_s (snd wv)))"

definition source_edges ::
    "numlib \<Rightarrow> witness \<Rightarrow> vectors \<Rightarrow> vectors \<Rightarrow> (string \<rightharpoonup> real) \<Rightarrow> (string \<rightharpoonup> real) \<Rightarrow> edge list outcome" where
  "source_edges np w cvec write_cvec write_onset_s onset_s =
     and_then (write_activity write_cvec) (\<lambda>write_act.
       collect_edges (source_edge np w cvec write_cvec write_act write_onset_s onset_s)
         (List.product (sort (map fst write_cvec)) (sort (map fst cvec))))"

text \<open>One edge per unordered pair, by preference: the dictionary \<open>chosen\<close>.\<close>

definition choose_edge :: "edge \<Rightarrow> edge list \<Rightarrow> edge list" where
  "choose_edge = choose_by (\<lambda>e. (e_src e, e_dst e)) edge_pref"

definition dedup_edges :: "edge list \<Rightarrow> edge list" where
  "dedup_edges edges = sort_key (\<lambda>e. (e_src e, e_dst e)) (foldl (\<lambda>cs e. choose_edge e cs) [] edges)"

section \<open>The pass\<close>

definition pass_edges ::
    "numlib \<Rightarrow> pass_args \<Rightarrow> nat option \<Rightarrow> (string \<rightharpoonup> real) \<Rightarrow> edge list outcome" where
  "pass_edges np a centre onset_s =
     (let cvec = narrow a centre (pa_vectors a);
          write_cvec = narrow a centre (pa_write_vectors a);
          edges = pair_edges np (pa_witness a) cvec onset_s
      in if pa_write_vectors a = [] then Ret edges
         else and_then (source_edges np (pa_witness a) cvec write_cvec
                  (write_onsets np centre (pa_write_vectors a)) onset_s)
                (\<lambda>es. Ret (dedup_edges (edges @ es))))"

definition run_pass :: "numlib \<Rightarrow> 'g nxlib \<Rightarrow> pass_args \<Rightarrow> pass_graph outcome" where
  "run_pass np nx a =
     (let raw = raw_onsets np a;
          centre = event_centre (pa_witness a) raw;
          findings = pass_findings np a centre raw;
          onset_s = finding_onsets findings
      in and_then (pass_edges np a centre onset_s) (\<lambda>edges.
           let g = build_graph nx edges;
               seeds = (if pa_slo_breach a \<noteq> [] then pa_slo_breach a else sort (map f_pod findings))
           in and_then (returned (rank_root_causes nx g seeds onset_s TOP)) (\<lambda>ranking.
                and_then (case ranking of [] \<Rightarrow> Ret [] | r # _ \<Rightarrow> returned (blast_radius nx g (rc_pod r))) (\<lambda>blast.
                  Ret \<lparr>pg_findings = sort_key f_onset findings, pg_edges = edges, pg_ranking = ranking,
                       pg_blast = blast, pg_pods = length (pa_vectors a), pg_active = length findings,
                       pg_accepted = length edges\<rparr>))))"

section \<open>Pairs and their edges\<close>

lemma combinations2_mem:
  "p \<in> set (combinations2 xs) \<Longrightarrow> fst p \<in> set xs \<and> snd p \<in> set xs"
  by (induction xs) auto

lemma combinations2_neq: "distinct xs \<Longrightarrow> p \<in> set (combinations2 xs) \<Longrightarrow> fst p \<noteq> snd p"
  by (induction xs) (auto dest: combinations2_mem)

lemma combinations2_all:
  "a \<in> set xs \<Longrightarrow> b \<in> set xs \<Longrightarrow> a \<noteq> b \<Longrightarrow> (a, b) \<in> set (combinations2 xs) \<or> (b, a) \<in> set (combinations2 xs)"
  by (induction xs) auto

lemma combinations2_once:
  "distinct xs \<Longrightarrow> sorted_wrt (\<lambda>p q. \<not> same_pair p q) (combinations2 xs)"
proof (induction xs)
  case (Cons x xs)
  have "sorted_wrt (\<lambda>p q. \<not> same_pair p q) (map (Pair x) xs)"
    using Cons.prems by (auto simp: sorted_wrt_iff_nth_less same_pair_def nth_eq_iff_index_eq)
  with Cons show ?case by (auto simp: sorted_wrt_append same_pair_def dest: combinations2_mem)
qed simp

lemma sorted_wrt_map_filter:
  "sorted_wrt P xs \<Longrightarrow> (\<And>x y a b. P x y \<Longrightarrow> f x = Some a \<Longrightarrow> f y = Some b \<Longrightarrow> Q a b) \<Longrightarrow>
     sorted_wrt Q (List.map_filter f xs)"
  by (induction xs) (auto simp: List.map_filter_def split: option.splits)

lemma map_filter_mem: "y \<in> set (List.map_filter f xs) \<longleftrightarrow> (\<exists>x \<in> set xs. f x = Some y)"
  by (force simp: List.map_filter_def)

lemma pair_edge_pair: "pair_edge np w cvec os ab = Some e \<Longrightarrow> same_pair (pair_of e) ab"
  by (auto simp: pair_edge_def Let_def same_pair_def pair_of_def dest: accept_edge_fields split: if_splits)

lemma pair_edges_once: "distinct (map fst cvec) \<Longrightarrow> one_per_pair (pair_edges np w cvec os)"
  unfolding one_per_pair_def unpaired_def pair_edges_def
  by (rule sorted_wrt_map_filter [OF combinations2_once])
    (simp, meson pair_edge_pair same_pair_trans same_pair_sym)

section \<open>The choice of one edge per pair\<close>

lemma chosen_edges_spec:
  "one_per_pair (foldl (\<lambda>cs e. choose_edge e cs) [] es) \<and>
   set (foldl (\<lambda>cs e. choose_edge e cs) [] es) \<subseteq> set es \<and>
   (\<forall>e \<in> set es. \<exists>c \<in> set (foldl (\<lambda>cs e. choose_edge e cs) [] es).
      same_pair (pair_of e) (pair_of c) \<and> edge_pref e \<le> edge_pref c)"
  using chosen_spec [of pair_of edge_pref es]
  by (simp add: choose_edge_def pair_of_def [abs_def] one_per_pair_def)

lemma one_per_pair_iff:
  "one_per_pair es \<longleftrightarrow> distinct es \<and>
     (\<forall>e \<in> set es. \<forall>f \<in> set es. same_pair (pair_of e) (pair_of f) \<longrightarrow> e = f)"
  by (simp add: one_per_pair_def unpaired_iff)

lemma dedup_edges_once: "one_per_pair (dedup_edges edges)"
  and dedup_edges_subset: "set (dedup_edges edges) \<subseteq> set edges"
  using chosen_edges_spec [of edges]
  by (simp_all add: one_per_pair_iff dedup_edges_def)

text \<open>When source edges and symptom edges compete, each unordered pair of pods keeps
  exactly one of its edges, and it is a most preferred one: a write-evidenced edge beats every
  symptom edge of the pair, then the stronger correlation wins.  No pair is lost, and the result
  is sorted by its end points.\<close>

theorem dedup_edges_best:
  "one_per_pair (dedup_edges edges) \<and> set (dedup_edges edges) \<subseteq> set edges \<and>
   (\<forall>e \<in> set edges. \<exists>c \<in> set (dedup_edges edges). same_pair (pair_of e) (pair_of c) \<and> edge_pref e \<le> edge_pref c) \<and>
   sorted (map pair_of (dedup_edges edges))"
proof -
  have "sorted (map pair_of (dedup_edges edges))"
    by (simp add: dedup_edges_def pair_of_def [abs_def])
  with dedup_edges_once dedup_edges_subset chosen_edges_spec [of edges] show ?thesis
    by (simp add: dedup_edges_def)
qed

theorem dedup_edges_best_witness:
  "\<exists>c \<in> set (dedup_edges
      [\<lparr>e_src = ''api'', e_dst = ''db'', e_r = 99/100, e_lag = 5, e_evidence = [''stat'', ''pvc'']\<rparr>,
       \<lparr>e_src = ''db'', e_dst = ''api'', e_r = 1/2, e_lag = 0, e_evidence = [''write'', ''pvc'']\<rparr>]).
     ''write'' \<in> set (e_evidence c)"
proof -
  let ?p = "\<lparr>e_src = ''api'', e_dst = ''db'', e_r = 99/100, e_lag = 5, e_evidence = [''stat'', ''pvc'']\<rparr>"
  let ?w = "\<lparr>e_src = ''db'', e_dst = ''api'', e_r = 1/2, e_lag = 0, e_evidence = [''write'', ''pvc'']\<rparr>"
  from dedup_edges_best [of "[?p, ?w]"] obtain c where
    "c \<in> set (dedup_edges [?p, ?w])" "edge_pref ?w \<le> edge_pref c" by auto
  then show ?thesis by (auto simp: edge_pref_def less_eq_prod_def split: if_splits)
qed

section \<open>The edges of a pass\<close>

definition wf_pass :: "pass_args \<Rightarrow> bool" where
  "wf_pass a \<longleftrightarrow> distinct (map fst (pa_vectors a)) \<and> distinct (map fst (pa_write_vectors a))"

text \<open>What a pass may draw between two pods.\<close>

definition symptom_edge_ok :: "pass_args \<Rightarrow> edge \<Rightarrow> bool" where
  "symptom_edge_ok a e \<longleftrightarrow> ''write'' \<notin> set (e_evidence e) \<and>
     e_src e \<in> fst ` set (pa_vectors a) \<and> e_dst e \<in> fst ` set (pa_vectors a) \<and>
     couples (pa_witness a) (e_src e) (e_dst e) \<and> R_PEAK \<le> e_r e"

definition source_edge_ok :: "pass_args \<Rightarrow> (string \<rightharpoonup> real) \<Rightarrow> (string \<rightharpoonup> real) \<Rightarrow> edge \<Rightarrow> bool" where
  "source_edge_ok a write_onset_s onset_s e \<longleftrightarrow> ''write'' \<in> set (e_evidence e) \<and>
     e_src e \<in> fst ` set (pa_write_vectors a) \<and> e_src e \<in> dom write_onset_s \<and> e_dst e \<in> dom onset_s \<and>
     the (write_onset_s (e_src e)) \<le> the (onset_s (e_dst e)) + TEMPORAL_TOL_S \<and>
     couples_source (pa_witness a) (e_src e) (e_dst e) \<and> R_SRC \<le> e_r e"

lemma py_round_ge: "of_int k / 10 ^ n \<le> x \<Longrightarrow> of_int k / 10 ^ n \<le> py_round n x"
  using py_round_mono [of "of_int k / 10 ^ n" x n] by (simp add: py_round_def)

lemma R_PEAK_round: "R_PEAK \<le> r \<Longrightarrow> R_PEAK \<le> py_round 3 r"
  using py_round_ge [of 600 3 r] by (simp add: R_PEAK_def)

lemma R_SRC_round: "R_SRC \<le> r \<Longrightarrow> R_SRC \<le> py_round 3 r"
  using py_round_ge [of 500 3 r] by (simp add: R_SRC_def)

lemma map_fst_narrow [simp]: "map fst (narrow a c vs) = map fst vs"
  by (auto simp: narrow_def Let_def comp_def case_prod_beta split: option.splits)

lemma pair_edge_ok:
  assumes "pair_edge np w cvec os ab = Some e"
  shows "(e_src e, e_dst e) \<in> {ab, (snd ab, fst ab)} \<and> couples w (e_src e) (e_dst e) \<and>
    ''write'' \<notin> set (e_evidence e) \<and> R_PEAK \<le> e_r e"
  using assms
  by (auto simp: pair_edge_def Let_def dest!: accept_edge_fields intro: R_PEAK_round split: if_splits)

lemma pair_edges_ok:
  assumes "wf_pass a" "e \<in> set (pair_edges np (pa_witness a) (narrow a c (pa_vectors a)) os)"
  shows "symptom_edge_ok a e \<and> e_src e \<noteq> e_dst e"
proof -
  from assms(2) obtain ab where
    ab: "ab \<in> set (combinations2 (sort (map fst (pa_vectors a))))"
      "pair_edge np (pa_witness a) (narrow a c (pa_vectors a)) os ab = Some e"
    by (auto simp: pair_edges_def map_filter_mem)
  have "fst ab \<in> fst ` set (pa_vectors a)" "snd ab \<in> fst ` set (pa_vectors a)"
    using combinations2_mem [OF ab(1)] by simp_all
  moreover have "fst ab \<noteq> snd ab"
    using combinations2_neq [OF _ ab(1)] assms(1) by (simp add: wf_pass_def)
  ultimately show ?thesis
    using pair_edge_ok [OF ab(2)] by (cases ab) (auto simp: symptom_edge_ok_def)
qed

lemma writer_edge_ok:
  assumes "writer_edge np src dst wsrc vdst w wo vo = Ret (Some e)"
  shows "e_src e = src \<and> e_dst e = dst \<and> ''write'' \<in> set (e_evidence e) \<and> R_SRC \<le> e_r e \<and>
    (\<forall>tw tv. wo = Some tw \<longrightarrow> vo = Some tv \<longrightarrow> tw \<le> tv + TEMPORAL_TOL_S) \<and>
    (\<exists>lag r. (lag, r) \<in> set (lag_profile np wsrc vdst) \<and> e_lag e = lag \<and> e_r e = py_round 3 r)"
proof -
  from assms obtain lag r where m: "max_by snd (lag_profile np wsrc vdst) = Some (lag, r)"
    by (auto simp: writer_edge_def Let_def split: if_splits option.splits)
  from m have "(lag, r) \<in> set (lag_profile np wsrc vdst)" by (rule max_by_mem)
  moreover from assms m have "e_lag e = lag" "e_r e = py_round 3 r" "R_SRC \<le> r" "e_src e = src"
    "e_dst e = dst" "''write'' \<in> set (e_evidence e)"
    "\<forall>tw tv. wo = Some tw \<longrightarrow> vo = Some tv \<longrightarrow> tw \<le> tv + TEMPORAL_TOL_S"
    by (auto simp: writer_edge_def Let_def split: if_splits option.splits)
  ultimately show ?thesis by (auto intro: R_SRC_round)
qed

lemma collect_edges_mem:
  "collect_edges f xs = Ret es \<Longrightarrow> e \<in> set es \<Longrightarrow> \<exists>x \<in> set xs. f x = Ret (Some e)"
  by (induction xs arbitrary: es) (auto split: option.splits)

lemma source_edges_ok:
  assumes "source_edges np (pa_witness a) cvec (narrow a c (pa_write_vectors a)) wo os = Ret es" "e \<in> set es"
  shows "source_edge_ok a wo os e \<and> e_src e \<noteq> e_dst e"
proof -
  from assms obtain act wv where
    wv: "wv \<in> set (List.product (sort (map fst (pa_write_vectors a))) (sort (map fst cvec)))"
      "source_edge np (pa_witness a) cvec (narrow a c (pa_write_vectors a)) act wo os wv = Ret (Some e)"
    by (auto simp: source_edges_def dest!: collect_edges_mem)
  from wv(1) have "fst wv \<in> fst ` set (pa_write_vectors a)" by (simp add: mem_Times_iff)
  moreover from wv(2) obtain tw tv where "wo (fst wv) = Some tw" "os (snd wv) = Some tv"
    "snd wv \<noteq> fst wv" "couples_source (pa_witness a) (fst wv) (snd wv)"
    "writer_edge np (fst wv) (snd wv) (lookup_vec (narrow a c (pa_write_vectors a)) (fst wv))
       (lookup_vec cvec (snd wv)) (pa_witness a) (Some tw) (Some tv) = Ret (Some e)"
    by (auto simp: source_edge_def split: if_splits)
  ultimately show ?thesis
    using writer_edge_ok [of np "fst wv" "snd wv" _ _ "pa_witness a" "Some tw" "Some tv" e]
    by (simp add: source_edge_ok_def dom_def)
qed

lemma pass_edges_ok:
  assumes "wf_pass a" "pass_edges np a c os = Ret es" "e \<in> set es"
  shows "(symptom_edge_ok a e \<or> source_edge_ok a (write_onsets np c (pa_write_vectors a)) os e) \<and>
    e_src e \<noteq> e_dst e"
proof -
  let ?pe = "pair_edges np (pa_witness a) (narrow a c (pa_vectors a)) os"
  consider "es = ?pe"
    | ws where "source_edges np (pa_witness a) (narrow a c (pa_vectors a)) (narrow a c (pa_write_vectors a))
        (write_onsets np c (pa_write_vectors a)) os = Ret ws" "es = dedup_edges (?pe @ ws)"
    using assms(2) by (auto simp: pass_edges_def Let_def split: if_splits)
  then show ?thesis
  proof cases
    case 1
    with pair_edges_ok [OF assms(1)] assms(3) show ?thesis by blast
  next
    case 2
    with assms(3) have "e \<in> set ?pe \<or> e \<in> set ws" using dedup_edges_subset by fastforce
    with pair_edges_ok [OF assms(1)] source_edges_ok [OF 2(1)] show ?thesis by blast
  qed
qed

lemma pass_edges_once:
  assumes "wf_pass a" "pass_edges np a c os = Ret es" shows "one_per_pair es"
  using assms
  by (auto simp: pass_edges_def Let_def wf_pass_def dedup_edges_once intro: pair_edges_once split: if_splits)

section \<open>Strength of the edges and totality of a pass\<close>

lemma pair_edge_range:
  assumes "numeric_library np" "pair_edge np w cvec os ab = Some e"
  shows "\<bar>e_r e\<bar> \<le> 1"
  using assms(2) numeric_library.best_directed_range [OF assms(1)]
  by (auto simp: pair_edge_def Let_def dest!: accept_edge_fields intro!: py_round_abs_le_1 split: if_splits)

lemma source_edge_range:
  assumes "numeric_library np" "source_edge np w cvec wcvec act wo os wv = Ret (Some e)"
  shows "\<bar>e_r e\<bar> \<le> 1"
proof -
  from assms(2) have "writer_edge np (fst wv) (snd wv) (lookup_vec wcvec (fst wv)) (lookup_vec cvec (snd wv)) w
      (wo (fst wv)) (os (snd wv)) = Ret (Some e)"
    by (auto simp: source_edge_def split: if_splits)
  from writer_edge_ok [OF this] numeric_library.lag_profile_range [OF assms(1)] show ?thesis
    by (auto intro!: py_round_abs_le_1)
qed

lemma pass_edges_causal:
  assumes "numeric_library np" "pass_edges np a c os = Ret es"
  shows "causal_edges es"
  unfolding causal_edges_def
proof
  fix e assume e: "e \<in> set es"
  let ?pe = "pair_edges np (pa_witness a) (narrow a c (pa_vectors a)) os"
  from assms(2) e consider "e \<in> set ?pe"
    | ws where "source_edges np (pa_witness a) (narrow a c (pa_vectors a)) (narrow a c (pa_write_vectors a))
        (write_onsets np c (pa_write_vectors a)) os = Ret ws" "e \<in> set ws"
    by (auto simp: pass_edges_def Let_def split: if_splits dest!: subsetD [OF dedup_edges_subset])
  then show "\<bar>e_r e\<bar> \<le> 1"
  proof cases
    case 1
    then show ?thesis by (auto simp: pair_edges_def map_filter_mem intro: pair_edge_range [OF assms(1)])
  next
    case 2
    then show ?thesis
      by (auto simp: source_edges_def intro: source_edge_range [OF assms(1)] dest!: collect_edges_mem)
  qed
qed

lemma pass_edges_strong:
  assumes "wf_pass a" "pass_edges np a c os = Ret es"
  shows "strong_edges es"
proof -
  have "R_SRC \<le> e_r e" if "e \<in> set es" for e
    using pass_edges_ok [OF assms that]
    by (auto simp: symptom_edge_ok_def source_edge_ok_def R_PEAK_def R_SRC_def)
  then have "CUT \<le> e_r e * DECAY" if "e \<in> set es" for e
    using that by (force simp: R_SRC_def CUT_def DECAY_def)
  then show ?thesis by (fastforce simp: strong_edges_def DECAY_def)
qed

text \<open>All vectors of the pass have the same positive number of samples, as the service's resampling
  onto one grid guarantees.\<close>

definition lengths_are :: "nat \<Rightarrow> vectors \<Rightarrow> bool" where
  "lengths_are n vs = list_all (\<lambda>pv. length (snd pv) = n) vs"

lemma lengths_areD: "lengths_are n vs \<Longrightarrow> (p, v) \<in> set vs \<Longrightarrow> length v = n"
  by (auto simp: lengths_are_def list_all_iff)

definition uniform_pass :: "pass_args \<Rightarrow> nat \<Rightarrow> bool" where
  "uniform_pass a n \<longleftrightarrow> 0 < n \<and> lengths_are n (pa_vectors a) \<and> lengths_are n (pa_write_vectors a)"

lemma slice_lo_less: "0 < n \<Longrightarrow> c < n \<Longrightarrow> slice_lo w n c < n"
  by (auto simp: slice_lo_def nat_less_iff)

lemma event_centre_idx:
  assumes "event_centre w raw = Some i"
  shows "\<exists>(p, ons) \<in> set raw. \<exists>x \<in> set ons. o_idx x = i"
proof -
  have step: "snd (foldl centre_step b ps) = Some i \<Longrightarrow>
      snd b = Some i \<or> (\<exists>(p, ons) \<in> set ps. \<exists>x \<in> set ons. o_idx x = i)" for b ps
  proof (induction ps arbitrary: b)
    case (Cons p ps)
    from Cons.prems have "snd (centre_step b p) = Some i \<or> (\<exists>(p, ons) \<in> set ps. \<exists>x \<in> set ons. o_idx x = i)"
      by (intro Cons.IH) simp
    moreover have "snd (centre_step b p) = Some i \<Longrightarrow> snd b = Some i \<or> (\<exists>x \<in> set (snd p). o_idx x = i)"
      by (auto simp: centre_step_def split: option.splits if_splits dest: max_by_mem)
    ultimately show ?case by (cases p) auto
  qed simp
  from assms step [of "(-1, None)"] show ?thesis
    by (fastforce simp: event_centre_def Let_def split: if_splits)
qed

lemma raw_onsets_mem:
  "(p, ons) \<in> set (raw_onsets np a) \<longleftrightarrow>
     (\<exists>v. (p, v) \<in> set (pa_vectors a) \<and> ons = strong_onsets np v \<and> ons \<noteq> [] \<and> deviates np a p v)"
  by (auto simp: raw_onsets_def image_iff)

lemma strong_onsets_idx: "x \<in> set (strong_onsets np v) \<Longrightarrow> o_idx x < length v"
  by (auto simp: strong_onsets_def intro: cusum_onset_idx_less)

lemma centre_in_range:
  assumes "uniform_pass a n" "event_centre (pa_witness a) (raw_onsets np a) = Some i"
  shows "i < n"
proof -
  from event_centre_idx [OF assms(2)] obtain p v x where
    "(p, v) \<in> set (pa_vectors a)" "x \<in> set (strong_onsets np v)" "o_idx x = i"
    by (auto simp: raw_onsets_mem)
  with strong_onsets_idx [of x np v] assms(1) lengths_areD [of n "pa_vectors a" p v] show ?thesis
    by (simp add: uniform_pass_def)
qed

lemma collect_edges_returns:
  "\<forall>x \<in> set xs. \<exists>e. f x = Ret e \<Longrightarrow> \<exists>es. collect_edges f xs = Ret es"
  by (induction xs) auto

lemma narrow_lengths:
  assumes "uniform_pass a n" "c = event_centre (pa_witness a) (raw_onsets np a)"
  shows "\<exists>m > 0. lengths_are m (narrow a c (pa_vectors a)) \<and> lengths_are m (narrow a c (pa_write_vectors a))"
proof (cases c)
  case None
  with assms(1) show ?thesis by (auto simp: narrow_def uniform_pass_def)
next
  case (Some i)
  have i: "i < n" using centre_in_range [OF assms(1)] assms(2) Some by simp
  from event_centre_idx [of _ _ i] assms(2) Some obtain p v where "(p, v) \<in> set (pa_vectors a)"
    by (fastforce simp: raw_onsets_mem)
  then have hd: "length (snd (hd (pa_vectors a))) = n"
    using assms(1) by (cases "pa_vectors a") (auto simp: uniform_pass_def lengths_are_def)
  let ?lo = "slice_lo (pa_window a) n i"
  have lo: "?lo < n" using assms(1) i by (auto simp: uniform_pass_def intro: slice_lo_less)
  show ?thesis
  proof (cases "pa_window a = 0")
    case False
    have "lengths_are (min (pa_window a) (n - ?lo)) (narrow a c vs)" if "lengths_are n vs" for vs
      using that False by (auto simp: narrow_def Some Let_def hd lengths_are_def list_all_iff min.commute)
    with False lo assms(1) show ?thesis
      by (intro exI [of _ "min (pa_window a) (n - ?lo)"]) (auto simp: uniform_pass_def)
  qed (use assms(1) in \<open>auto simp: narrow_def Some uniform_pass_def\<close>)
qed

lemma lookup_vec_mem: "p \<in> fst ` set vs \<Longrightarrow> (p, lookup_vec vs p) \<in> set vs"
  unfolding lookup_vec_def by (metis imageE map_of_SomeD option.sel prod.collapse weak_map_of_SomeI)

lemma source_edges_return:
  assumes "lengths_are m cvec" "lengths_are m wcvec" "0 < m"
  shows "\<exists>es. source_edges np w cvec wcvec wo os = Ret es"
proof -
  have "write_activity wcvec = Ret (map_of (map (\<lambda>(p, wv). (p, arr_max (map abs wv))) wcvec))"
    using lengths_areD [OF assms(2)] assms(3) by (fastforce simp: write_activity_def list_ex_iff)
  moreover have "\<exists>e. source_edge np w cvec wcvec act wo os wv = Ret e"
    if "wv \<in> set (List.product (sort (map fst wcvec)) (sort (map fst cvec)))" for act wv
  proof -
    from that have "(fst wv, lookup_vec wcvec (fst wv)) \<in> set wcvec" "(snd wv, lookup_vec cvec (snd wv)) \<in> set cvec"
      by (auto simp: mem_Times_iff intro!: lookup_vec_mem simp del: imageE)
    then have "length (lookup_vec wcvec (fst wv)) = length (lookup_vec cvec (snd wv))"
      using lengths_areD [OF assms(1)] lengths_areD [OF assms(2)] by metis
    then have "\<not> profile_raises np (lookup_vec wcvec (fst wv)) (lookup_vec cvec (snd wv))"
      by (simp add: profile_raises_def)
    then show ?thesis
      by (auto simp: source_edge_def writer_edge_def Let_def split: option.splits)
  qed
  ultimately show ?thesis by (auto simp: source_edges_def intro!: collect_edges_returns)
qed

lemma pass_edges_return:
  assumes "uniform_pass a n" "c = event_centre (pa_witness a) (raw_onsets np a)"
  shows "\<exists>es. pass_edges np a c os = Ret es"
proof -
  from narrow_lengths [OF assms] obtain m where
    m: "0 < m" "lengths_are m (narrow a c (pa_vectors a))" "lengths_are m (narrow a c (pa_write_vectors a))"
    by blast
  from source_edges_return [OF m(2,3,1), of np "pa_witness a" "write_onsets np c (pa_write_vectors a)" os] obtain es where
    "source_edges np (pa_witness a) (narrow a c (pa_vectors a)) (narrow a c (pa_write_vectors a))
        (write_onsets np c (pa_write_vectors a)) os = Ret es" by (elim exE)
  then show ?thesis by (simp add: pass_edges_def Let_def)
qed

section \<open>The pass as a whole\<close>

lemma dom_finding_onsets [simp]:
  "dom (finding_onsets (pass_findings np a c raw)) = fst ` set raw"
  by (force simp: finding_onsets_def pass_findings_def dom_map_of_conv_image_fst Let_def)

lemma run_pass_Ret:
  assumes "run_pass np nx a = Ret g"
  defines "raw \<equiv> raw_onsets np a"
  defines "c \<equiv> event_centre (pa_witness a) raw"
  shows "pass_edges np a c (finding_onsets (pass_findings np a c raw)) = Ret (pg_edges g) \<and>
    pg_findings g = sort_key f_onset (pass_findings np a c raw)"
  using assms(1) by (auto simp: run_pass_def Let_def raw_def c_def)

lemma run_pass_returns_aux:
  assumes np: "numeric_library np" and nx: "digraph_library nx" and wf: "wf_pass a" and u: "uniform_pass a n"
  shows "\<exists>g. run_pass np nx a = Ret g \<and> (pg_ranking g = [] \<longleftrightarrow> pg_edges g = [])"
proof -
  let ?raw = "raw_onsets np a"
  let ?c = "event_centre (pa_witness a) ?raw"
  let ?f = "pass_findings np a ?c ?raw"
  let ?seeds = "if pa_slo_breach a \<noteq> [] then pa_slo_breach a else sort (map f_pod ?f)"
  obtain es where es: "pass_edges np a ?c (finding_onsets ?f) = Ret es"
    using pass_edges_return [OF u] by blast
  have ce: "causal_edges es" by (rule pass_edges_causal [OF np es])
  have st: "strong_edges es" by (rule pass_edges_strong [OF wf es])
  obtain rs where rs: "rank_root_causes nx (build_graph nx es) ?seeds (finding_onsets ?f) TOP = Some rs"
    "rs = [] \<longleftrightarrow> es = []"
  proof (cases "es = []")
    case True
    then have "nx_number_of_edges nx (build_graph nx es) = 0"
      by (simp add: digraph_library.no_edges_build_graph [OF nx])
    then show ?thesis using True by (intro that) (simp_all add: rank_root_causes_alt)
  next
    case False
    from rank_attributes [OF nx ce st False, of TOP ?seeds "finding_onsets ?f"] that False show ?thesis
      by (auto simp: TOP_def)
  qed
  obtain bs where "(case rs of [] \<Rightarrow> Ret [] | r # _ \<Rightarrow>
      returned (blast_radius nx (build_graph nx es) (rc_pod r))) = Ret bs"
    using blast_radius_returns [OF nx, of es] by (cases rs) fastforce+
  with es rs show ?thesis by (simp add: run_pass_def Let_def)
qed

text \<open>C9 (termination).  A pass over a uniform ring always returns: no array of the wrong length reaches
  numpy or scipy, neither worklist loops, and a root cause is ranked exactly when an edge was
  accepted.\<close>

theorem run_pass_returns:
  assumes "numeric_library np" and "digraph_library nx" and "wf_pass a" and "uniform_pass a n"
  shows "\<exists>g. run_pass np nx a = Ret g \<and> (pg_ranking g = [] \<longleftrightarrow> pg_edges g = [])"
  by (rule run_pass_returns_aux [OF assms])


text \<open>A pass is quiet when every pod is still learning or inside its learned band.\<close>

definition quiet_pass :: "numlib \<Rightarrow> pass_args \<Rightarrow> bool" where
  "quiet_pass np a \<longleftrightarrow> (case pa_baselines a of None \<Rightarrow> False | Some baselines \<Rightarrow>
     list_all (\<lambda>(p, v). case baselines p of None \<Rightarrow> True | Some thr \<Rightarrow>
         np_percentile np (if pa_recent a > 0 then tail_slice (pa_recent a) v else v) 90 \<le> thr)
       (pa_vectors a)) \<and> list_all (\<lambda>(p, v). v \<noteq> []) (pa_write_vectors a)"

lemma run_pass_silent_aux:
  assumes "digraph_library nx" and "quiet_pass np a"
  shows "run_pass np nx a = Ret \<lparr>pg_findings = [], pg_edges = [], pg_ranking = [], pg_blast = [],
    pg_pods = length (pa_vectors a), pg_active = 0, pg_accepted = 0\<rparr>"
proof -
  from assms(2) obtain bl where bl: "pa_baselines a = Some bl" by (auto simp: quiet_pass_def split: option.splits)
  have "\<not> deviates np a p v" if "(p, v) \<in> set (pa_vectors a)" for p v
  proof -
    have "case bl p of None \<Rightarrow> True | Some thr \<Rightarrow>
        np_percentile np (if pa_recent a > 0 then tail_slice (pa_recent a) v else v) 90 \<le> thr"
    proof -
      have "list_all (\<lambda>(p, v). case bl p of None \<Rightarrow> True | Some thr \<Rightarrow>
          np_percentile np (if pa_recent a > 0 then tail_slice (pa_recent a) v else v) 90 \<le> thr) (pa_vectors a)"
        using assms(2) by (simp add: quiet_pass_def bl)
      with that show ?thesis unfolding list_all_iff by blast
    qed
    then show ?thesis by (cases "bl p") (simp_all add: deviates_def bl Let_def)
  qed
  then have raw: "raw_onsets np a = []" by (auto simp: raw_onsets_def filter_empty_conv)
  have c: "event_centre (pa_witness a) [] = None" by (simp add: event_centre_def)
  have nar: "narrow a None vs = vs" for vs by (simp add: narrow_def)
  have pe: "pair_edges np w cvec Map.empty = []" for w cvec
    by (auto simp: pair_edges_def pair_edge_def List.map_filter_def)
  have se: "source_edge np w cvec wcvec act wo Map.empty wv = Ret None" for w cvec wcvec act wo wv
    by (simp add: source_edge_def)
  have ce: "collect_edges (source_edge np w cvec wcvec act wo Map.empty) xs = Ret []" for w cvec wcvec act wo xs
    by (induction xs) (simp_all add: se)
  have "source_edges np w cvec (pa_write_vectors a) wo Map.empty = Ret []" for w cvec wo
    using assms(2) by (auto simp: source_edges_def write_activity_def quiet_pass_def list_all_iff list_ex_iff ce)
  then have "pass_edges np a None Map.empty = Ret []"
    by (simp add: pass_edges_def nar pe dedup_edges_def Let_def)
  moreover have "nx_number_of_edges nx (build_graph nx ([] :: edge list)) = 0"
    by (simp add: digraph_library.no_edges_build_graph [OF assms(1)])
  ultimately show ?thesis
    by (simp add: run_pass_def Let_def c raw pass_findings_def finding_onsets_def rank_root_causes_alt)
qed

text \<open>C8 (safety).  Steady state is silent: when no pod leaves its learned band, whatever the onsets
  detected inside it, whatever the correlations and however hard pods write, the pass
  reports nothing - no finding, no edge, no root cause, no blast radius.\<close>

theorem run_pass_silent:
  assumes "digraph_library nx" and "quiet_pass np a"
  shows "run_pass np nx a = Ret \<lparr>pg_findings = [], pg_edges = [], pg_ranking = [], pg_blast = [],
    pg_pods = length (pa_vectors a), pg_active = 0, pg_accepted = 0\<rparr>"
  by (rule run_pass_silent_aux [OF assms])

lemma event_onset_nearest:
  assumes "ons \<noteq> []"
  shows "event_onset c ons \<in> set ons \<and> (\<forall>i. c = Some i \<longrightarrow>
    (\<forall>y \<in> set ons. \<bar>int (o_idx (event_onset c ons)) - int i\<bar> \<le> \<bar>int (o_idx y) - int i\<bar>))"
proof (cases c)
  case (Some i)
  obtain m where m: "min_by (\<lambda>x. \<bar>int (o_idx x) - int i\<bar>) ons = Some m"
    using assms by (cases ons) auto
  with min_by_mem [OF m] min_by_le [OF m] show ?thesis by (simp add: event_onset_def Some)
qed (use assms in \<open>simp add: event_onset_def\<close>)

text \<open>The findings of a pass are exactly the pods that left their learned band with a
  strong onset; each is reported once with the onset of its own series nearest to the event
  centre, a severity between 0.3 and 1 and the number of its strong onsets, and the list is
  sorted by onset time.\<close>

theorem run_pass_findings:
  assumes "wf_pass a" and "run_pass np nx a = Ret g"
  shows "distinct (map f_pod (pg_findings g)) \<and> sorted (map f_onset (pg_findings g)) \<and>
    f_pod ` set (pg_findings g) =
      {p. \<exists>v. (p, v) \<in> set (pa_vectors a) \<and> strong_onsets np v \<noteq> [] \<and> deviates np a p v} \<and>
    (\<forall>f \<in> set (pg_findings g). \<exists>v. (f_pod f, v) \<in> set (pa_vectors a) \<and>
       f_n_onsets f = length (strong_onsets np v) \<and> 3/10 \<le> f_severity f \<and> f_severity f \<le> 1 \<and>
       (\<exists>x \<in> set (strong_onsets np v). f_onset f = real (o_idx x) * DT_S \<and>
          (\<forall>c. event_centre (pa_witness a) (raw_onsets np a) = Some c \<longrightarrow>
             (\<forall>y \<in> set (strong_onsets np v). \<bar>int (o_idx x) - int c\<bar> \<le> \<bar>int (o_idx y) - int c\<bar>))))"
proof -
  let ?raw = "raw_onsets np a"
  let ?c = "event_centre (pa_witness a) ?raw"
  have pf: "pg_findings g = sort_key f_onset (pass_findings np a ?c ?raw)"
    using run_pass_Ret [OF assms(2)] by blast
  have "distinct (map fst ?raw)"
    using assms(1) by (auto simp: raw_onsets_def wf_pass_def comp_def case_prod_beta distinct_map_filter)
  moreover have "map f_pod (pass_findings np a ?c ?raw) = map fst ?raw"
    by (auto simp: pass_findings_def Let_def)
  ultimately have "distinct (map f_pod (pg_findings g))"
    by (simp add: pf)
  moreover have "sorted (map f_onset (pg_findings g))" by (simp add: pf)
  moreover have "f_pod ` set (pg_findings g) =
      {p. \<exists>v. (p, v) \<in> set (pa_vectors a) \<and> strong_onsets np v \<noteq> [] \<and> deviates np a p v}"
    by (force simp: pf pass_findings_def Let_def raw_onsets_mem image_iff)
  moreover have "\<exists>v. (f_pod f, v) \<in> set (pa_vectors a) \<and>
       f_n_onsets f = length (strong_onsets np v) \<and> 3/10 \<le> f_severity f \<and> f_severity f \<le> 1 \<and>
       (\<exists>x \<in> set (strong_onsets np v). f_onset f = real (o_idx x) * DT_S \<and>
          (\<forall>c. ?c = Some c \<longrightarrow> (\<forall>y \<in> set (strong_onsets np v). \<bar>int (o_idx x) - int c\<bar> \<le> \<bar>int (o_idx y) - int c\<bar>)))"
    if "f \<in> set (pg_findings g)" for f
  proof -
    from that obtain p v where v: "(p, v) \<in> set (pa_vectors a)" "strong_onsets np v \<noteq> []"
      and f: "f_pod f = p" "f_n_onsets f = length (strong_onsets np v)"
        "f_onset f = onset_time (event_onset ?c (strong_onsets np v))"
        "f_severity f = min (\<bar>o_zpeak (event_onset ?c (strong_onsets np v))\<bar> / 10) 1"
      by (auto simp: pf pass_findings_def Let_def raw_onsets_mem)
    note ev = event_onset_nearest [OF v(2), of ?c]
    then have "3 \<le> \<bar>o_zpeak (event_onset ?c (strong_onsets np v))\<bar>" by (auto simp: strong_onsets_def)
    with f ev v show ?thesis
      by (intro exI [of _ v] conjI bexI [of _ "event_onset ?c (strong_onsets np v)"])
        (simp_all add: onset_time_def)
  qed
  ultimately show ?thesis by blast
qed

section \<open>A concrete pass\<close>

text \<open>Two pods that share a disk step up together; a third one, on the node of the first, writes at
  the same moment.  Correlations are those of a library whose pearson coefficient is 0.9
  everywhere; medians and percentiles are the reference ones.\<close>

definition flat_np :: numlib where
  "flat_np = ref_np\<lparr>np_mean := (\<lambda>_. 0), np_std := (\<lambda>_. 1), st_skew := (\<lambda>_. None),
     st_pearsonr := (\<lambda>_ _. Some (9/10))\<rparr>"

interpretation flat: numeric_library flat_np
  using ref.numeric_library_axioms
  unfolding flat_np_def numeric_library_def by simp

definition storm_args :: pass_args where
  "storm_args = \<lparr>pa_vectors = [(''db'', step_series), (''api'', step_series)],
     pa_witness = \<lparr>w_ebpf = [], w_psi = [], w_shared = [(''api'', ''db'')], w_node = [(''hog'', ''db'')]\<rparr>,
     pa_slo_breach = [], pa_caps = Map.empty, pa_window = 0,
     pa_write_vectors = [(''hog'', step_series)], pa_baselines = None, pa_recent = 0\<rparr>"

lemma wf_storm: "wf_pass storm_args" "uniform_pass storm_args 16"
  by (simp_all add: wf_pass_def uniform_pass_def storm_args_def lengths_are_def step_series_def)

lemma flat_onsets: "strong_onsets flat_np step_series =
  [\<lparr>o_idx = 10, o_dir = Up, o_zpeak = 490000\<rparr>, \<lparr>o_idx = 10, o_dir = Up, o_zpeak = 168070\<rparr>]"
proof -
  have "cusum_onsets flat_np step_series = cusum_onsets ref_np step_series"
    by (simp add: cusum_onsets_def cusum_onsets_with_def cusum_z_def robust_sigma_def flat_np_def cong: outcome.case_cong)
  then show ?thesis by (simp add: strong_onsets_def step_onsets)
qed

lemma storm_raw: "raw_onsets flat_np storm_args =
  [(''db'', strong_onsets flat_np step_series), (''api'', strong_onsets flat_np step_series)]"
  by (simp add: raw_onsets_def storm_args_def deviates_def flat_onsets)

lemma storm_centre: "event_centre (pa_witness storm_args) (raw_onsets flat_np storm_args) = Some 10"
  unfolding storm_raw flat_onsets
  by (simp add: event_centre_def storm_args_def couples_iff has_pair_def centre_step_def)

lemma flat_corr: "corr_at_lag flat_np a b l =
  (if length (if l > 0 then take (length a - nat l) a else a) < 12 then 0 else 9/10)"
  by (simp add: corr_at_lag_def flat_np_def nan_abs_greater_def)

lemma flat_znorm: "znorm flat_np x = x"
  by (simp add: znorm_def flat_np_def)

lemma flat_profile:
  "lag_profile flat_np step_series step_series = [(0, 9/10), (5, 9/10), (15, 9/10)]"
  by (simp add: lag_profile_def LAGS_S_def lag_samples_def DT_S_def round_half_even_def flat_corr flat_znorm
      step_series_def)

lemma flat_support: "adjacent_support [(0, 9/10), (5, 9/10), (15, 9/10)] 0 R_ADJ"
  by (simp add: adjacent_support_def R_ADJ_def)

lemma flat_best: "best_directed flat_np step_series step_series =
  \<lparr>bd_forward = True, bd_r = 9/10, bd_lag = 0, bd_profile = [(0, 9/10), (5, 9/10), (15, 9/10)]\<rparr>"
  by (simp add: best_directed_def Let_def flat_profile strongest_def)

lemma round_9: "py_round 3 (9/10) = 9/10"
  by (simp add: py_round_def round_half_even_def floor_eq_iff)

lemma storm_onset_s:
  "finding_onsets (pass_findings flat_np storm_args (Some 10) (raw_onsets flat_np storm_args)) =
     [''db'' \<mapsto> 50, ''api'' \<mapsto> 50]"
  unfolding storm_raw flat_onsets
  by (simp add: finding_onsets_def pass_findings_def event_onset_def onset_time_def DT_S_def fun_eq_iff)

lemma storm_pair_edges:
  "pair_edges flat_np (pa_witness storm_args) (pa_vectors storm_args) [''db'' \<mapsto> 50, ''api'' \<mapsto> 50] =
   [\<lparr>e_src = ''api'', e_dst = ''db'', e_r = 9/10, e_lag = 0, e_evidence = [''stat'', ''pvc'', ''temporal'']\<rparr>]"
  by (simp add: pair_edges_def storm_args_def List.map_filter_def pair_edge_def couples_iff has_pair_def
      lookup_vec_def flat_best accept_edge_def R_PEAK_def flat_support kinds_def COUPLING_KINDS_def
      TEMPORAL_TOL_S_def round_9 Let_def)

lemma storm_write_onsets:
  "write_onsets flat_np (Some 10) (pa_write_vectors storm_args) = [''hog'' \<mapsto> 50]"
  by (simp add: write_onsets_def storm_args_def flat_onsets event_onset_def onset_time_def DT_S_def)

lemma storm_source_edges:
  "source_edges flat_np (pa_witness storm_args) (pa_vectors storm_args) (pa_write_vectors storm_args)
     [''hog'' \<mapsto> 50] [''db'' \<mapsto> 50, ''api'' \<mapsto> 50] =
   Ret [\<lparr>e_src = ''hog'', e_dst = ''db'', e_r = 9/10, e_lag = 0, e_evidence = [''write'', ''node'', ''temporal'']\<rparr>]"
proof -
  have "write_activity (pa_write_vectors storm_args) = Ret [''hog'' \<mapsto> 1]"
    by (simp add: write_activity_def storm_args_def step_series_def)
  then show ?thesis
    by (simp add: source_edges_def storm_args_def source_edge_def couples_source_iff couples_iff has_pair_def
      act_of_def writer_edge_def lookup_vec_def kinds_def SOURCE_COUPLING_KINDS_def profile_raises_def flat_profile
      R_SRC_def flat_support TEMPORAL_TOL_S_def round_9)
qed

lemma storm_pass_edges:
  "pass_edges flat_np storm_args (Some 10) [''db'' \<mapsto> 50, ''api'' \<mapsto> 50] =
   Ret [\<lparr>e_src = ''api'', e_dst = ''db'', e_r = 9/10, e_lag = 0, e_evidence = [''stat'', ''pvc'', ''temporal'']\<rparr>,
        \<lparr>e_src = ''hog'', e_dst = ''db'', e_r = 9/10, e_lag = 0, e_evidence = [''write'', ''node'', ''temporal'']\<rparr>]"
proof -
  have "narrow storm_args (Some 10) vs = vs" for vs by (simp add: narrow_def storm_args_def)
  moreover have "pa_write_vectors storm_args \<noteq> []" by (simp add: storm_args_def)
  ultimately show ?thesis
    by (simp add: pass_edges_def Let_def storm_pair_edges storm_write_onsets storm_source_edges
        dedup_edges_def choose_edge_def same_pair_def)
qed

lemma storm_graph:
  "\<exists>g. run_pass flat_np dict_nx storm_args = Ret g \<and>
     map pair_of (pg_edges g) = [(''api'', ''db''), (''hog'', ''db'')]"
proof -
  obtain g where g: "run_pass flat_np dict_nx storm_args = Ret g"
    using run_pass_returns_aux [OF flat.numeric_library_axioms dict.digraph_library_axioms wf_storm] by blast
  from run_pass_Ret [OF g] have "pg_edges g =
      [\<lparr>e_src = ''api'', e_dst = ''db'', e_r = 9/10, e_lag = 0, e_evidence = [''stat'', ''pvc'', ''temporal'']\<rparr>,
       \<lparr>e_src = ''hog'', e_dst = ''db'', e_r = 9/10, e_lag = 0, e_evidence = [''write'', ''node'', ''temporal'']\<rparr>]"
    by (simp add: storm_centre storm_onset_s storm_pass_edges)
  with g show ?thesis by (simp add: pair_of_def)
qed

theorem run_pass_returns_witness:
  "\<exists>g. run_pass flat_np dict_nx storm_args = Ret g \<and> pg_ranking g \<noteq> []"
proof -
  obtain g where g: "run_pass flat_np dict_nx storm_args = Ret g" "map pair_of (pg_edges g) \<noteq> []"
    using storm_graph by force
  from run_pass_returns [OF flat.numeric_library_axioms dict.digraph_library_axioms wf_storm] g show ?thesis
    by auto
qed


theorem run_pass_findings_witness:
  "\<exists>g. run_pass flat_np dict_nx storm_args = Ret g \<and> f_pod ` set (pg_findings g) = {''api'', ''db''}"
proof -
  obtain g where g: "run_pass flat_np dict_nx storm_args = Ret g" using storm_graph by force
  have "{p. \<exists>v. (p, v) \<in> set (pa_vectors storm_args) \<and> strong_onsets flat_np v \<noteq> [] \<and>
      deviates flat_np storm_args p v} = {''api'', ''db''}"
    by (auto simp: storm_args_def deviates_def flat_onsets)
  with run_pass_findings [OF wf_storm(1) g] g show ?thesis by auto
qed

text \<open>The same storm against learned thresholds no sample exceeds.\<close>

definition calm_args :: pass_args where
  "calm_args = storm_args\<lparr>pa_baselines := Some (\<lambda>_. Some 1)\<rparr>"

theorem run_pass_silent_witness:
  "run_pass ref_np dict_nx calm_args = Ret \<lparr>pg_findings = [], pg_edges = [], pg_ranking = [], pg_blast = [],
    pg_pods = 2, pg_active = 0, pg_accepted = 0\<rparr>"
proof -
  have "np_percentile ref_np step_series 90 \<le> 1"
    by (rule ref.percentile_le) (simp_all add: step_series_def)
  then have "quiet_pass ref_np calm_args"
    by (simp add: quiet_pass_def calm_args_def storm_args_def) (simp add: step_series_def)
  from run_pass_silent [OF dict.digraph_library_axioms this] show ?thesis
    by (simp add: calm_args_def storm_args_def)
qed

end
