(* ===== verification/Edge_Memory.thy ===== *)
theory Edge_Memory
  imports Gate Sql_Table
begin

text \<open>
  \<open>correlation/engine/state.py\<close>, the running belief about edges: the configuration, the workload
  name a pod belongs to, and the three operations on the table \<open>edge_memory\<close> - seeding the
  structural backbone, confirming a live edge, decaying the absent ones.  A JSON column holds the
  value it encodes.  The locale \<open>sane_config\<close> collects what the operations need of the
  configuration; it is interpreted on the defaults.
\<close>

record memory_config =
  cf_signal :: string
  cf_alpha :: real
  cf_decay :: real
  cf_show :: real
  cf_hide :: real
  cf_prior :: real
  cf_floor_frac :: real
  cf_tau_merge :: real
  cf_tau_family :: real
  cf_base_alpha :: real
  cf_dev_k :: real
  cf_mad_floor :: real
  cf_base_min_n :: nat

definition default_config :: memory_config where
  "default_config = \<lparr>cf_signal = ''psi_io'', cf_alpha = 4/10, cf_decay = 1/10, cf_show = 6/10,
     cf_hide = 25/100, cf_prior = 2/10, cf_floor_frac = 4/10, cf_tau_merge = 85/100,
     cf_tau_family = 60/100, cf_base_alpha = 5/100, cf_dev_k = 4, cf_mad_floor = 1/100,
     cf_base_min_n = 12\<rparr>"

text \<open>\<open>parts[:-2]\<close> drops the last two parts.\<close>

definition stable_workload :: "string \<Rightarrow> string" where
  "stable_workload pod =
     (let parts = split_on CHR ''-'' pod
      in if length parts > 2 then join_with ''-'' (take (length parts - 2) parts) else pod)"

record edge_row =
  er_src :: string
  er_dst :: string
  er_signal :: string
  er_confidence :: real
  er_r :: real
  er_lag :: int
  er_evidence :: "string list"
  er_hits :: nat
  er_visible :: bool
  er_state :: edge_state
  er_first_seen :: real
  er_last_seen :: real
  er_updated :: real
  er_base_conf :: real

type_synonym edge_id = "string \<times> string \<times> string"

definition edge_key :: "edge_row \<Rightarrow> edge_id" where
  "edge_key r = (er_src r, er_dst r, er_signal r)"

interpretation edge_tbl: keyed_table edge_key "tbl_select edge_key" "tbl_upsert edge_key"
  "tbl_insert_ignore edge_key" "tbl_update edge_key"
  by (rule keyed_table_lists)

section \<open>Operations\<close>

text \<open>One pair of the shared-disk relation: \<open>sorted\<close> of the set of its two workloads.\<close>

definition seed_pair ::
    "memory_config \<Rightarrow> string set \<Rightarrow> real \<Rightarrow> string \<times> string \<Rightarrow> edge_row list \<Rightarrow> edge_row list" where
  "seed_pair cfg pods_present ts pair rows =
     (let a = stable_workload (fst pair); b = stable_workload (snd pair);
          lo = min a b; hi = max a b
      in if a = b \<or> lo \<notin> pods_present \<or> hi \<notin> pods_present then rows
         else (case tbl_select edge_key (lo, hi, cf_signal cfg) rows of
             None \<Rightarrow> rows @ [\<lparr>er_src = lo, er_dst = hi, er_signal = cf_signal cfg,
                er_confidence = cf_prior cfg, er_r = 0, er_lag = 0, er_evidence = [''pvc''],
                er_hits = 0, er_visible = False, er_state = Steady, er_first_seen = ts,
                er_last_seen = ts, er_updated = ts, er_base_conf = cf_prior cfg\<rparr>]
           | Some row \<Rightarrow>
               if er_base_conf row < cf_prior cfg
               then tbl_update edge_key (lo, hi, cf_signal cfg) (\<lambda>r. r\<lparr>er_base_conf := cf_prior cfg\<rparr>) rows
               else rows))"

definition seed_structural ::
    "memory_config \<Rightarrow> witness \<Rightarrow> string set \<Rightarrow> real \<Rightarrow> edge_row list \<Rightarrow> edge_row list" where
  "seed_structural cfg w pods_present ts rows =
     foldl (\<lambda>rows pair. seed_pair cfg pods_present ts pair rows) rows (w_shared w)"

definition confirm_edge :: "memory_config \<Rightarrow> real \<Rightarrow> ('a) edge_scheme \<Rightarrow> edge_row list \<Rightarrow> edge_row list" where
  "confirm_edge cfg ts e rows =
     (let src_w = stable_workload (e_src e); dst_w = stable_workload (e_dst e);
          (prev_base, conf, hits, first_seen, visible) =
            (case tbl_select edge_key (src_w, dst_w, cf_signal cfg) rows of
               Some row \<Rightarrow>
                 let conf = er_confidence row + cf_alpha cfg * (1 - er_confidence row)
                 in (er_base_conf row, conf, er_hits row + 1, er_first_seen row,
                     er_visible row \<or> conf \<ge> cf_show cfg)
             | None \<Rightarrow> (0, cf_alpha cfg, 1, ts, cf_alpha cfg \<ge> cf_show cfg));
          base_conf = max prev_base (cf_floor_frac cfg * conf);
          state = (if visible then Active else Confirming)
      in tbl_upsert edge_key \<lparr>er_src = src_w, er_dst = dst_w, er_signal = cf_signal cfg,
           er_confidence = conf, er_r = e_r e, er_lag = e_lag e, er_evidence = e_evidence e,
           er_hits = hits, er_visible = visible, er_state = state, er_first_seen = first_seen,
           er_last_seen = ts, er_updated = ts, er_base_conf = base_conf\<rparr> rows)"

definition decay_row :: "memory_config \<Rightarrow> real \<Rightarrow> edge_row \<Rightarrow> edge_row" where
  "decay_row cfg ts row =
     (let base = er_base_conf row;
          conf = max base (er_confidence row * (1 - cf_decay cfg));
          visible = (er_visible row \<and> conf \<ge> cf_hide cfg);
          at_floor = (conf \<le> base + 1 / 10 ^ 9 \<and> base > 0);
          state = (if at_floor then Steady else if visible then Decaying else Hidden)
      in row\<lparr>er_confidence := conf, er_visible := visible, er_state := state, er_updated := ts\<rparr>)"

definition decay_absent_edges ::
    "memory_config \<Rightarrow> edge_id set \<Rightarrow> string set \<Rightarrow> real \<Rightarrow> edge_row list \<Rightarrow> edge_row list" where
  "decay_absent_edges cfg seen pods_present ts rows =
     foldl (\<lambda>rows row.
         if \<not> (edge_key row \<in> seen \<or> er_src row \<notin> pods_present \<or> er_dst row \<notin> pods_present)
         then tbl_update edge_key (edge_key row) (\<lambda>_. decay_row cfg ts row) rows
         else rows)
       rows (filter (\<lambda>row. er_signal row = cf_signal cfg) rows)"

text \<open>The edge part of \<open>observe\<close>: seed, confirm every live edge in order, decay the rest.\<close>

definition edge_pass ::
    "memory_config \<Rightarrow> witness option \<Rightarrow> string set \<Rightarrow> real \<Rightarrow> ('a) edge_scheme list \<Rightarrow> edge_row list \<Rightarrow> edge_row list" where
  "edge_pass cfg w pods_present ts edges rows =
     (let seen = (\<lambda>e. (stable_workload (e_src e), stable_workload (e_dst e), cf_signal cfg)) ` set edges;
          rows = (case w of None \<Rightarrow> rows | Some w \<Rightarrow> seed_structural cfg w pods_present ts rows);
          rows = foldl (\<lambda>rows e. confirm_edge cfg ts e rows) rows edges
      in decay_absent_edges cfg seen pods_present ts rows)"

section \<open>The decay of a table\<close>

lemma edge_key_make [simp]:
  "edge_key \<lparr>er_src = s, er_dst = d, er_signal = g, er_confidence = c, er_r = r, er_lag = l, er_evidence = v,
     er_hits = h, er_visible = vis, er_state = st, er_first_seen = t1, er_last_seen = t2, er_updated = t3,
     er_base_conf = b\<rparr> = (s, d, g)"
  by (simp add: edge_key_def)

lemma edge_key_update [simp]:
  "edge_key (r\<lparr>er_base_conf := b\<rparr>) = edge_key r" "edge_key (decay_row cfg ts r) = edge_key r"
  by (simp_all add: edge_key_def decay_row_def Let_def)

definition decays :: "memory_config \<Rightarrow> edge_id set \<Rightarrow> string set \<Rightarrow> edge_row \<Rightarrow> bool" where
  "decays cfg seen present r \<longleftrightarrow> er_signal r = cf_signal cfg \<and> edge_key r \<notin> seen \<and>
     er_src r \<in> present \<and> er_dst r \<in> present"

text \<open>The loop of updates is one map over the table: every row is touched by its own update only.\<close>

lemma decay_absent_map:
  assumes "distinct (map edge_key rows)"
  shows "decay_absent_edges cfg seen present ts rows =
    map (\<lambda>r. if decays cfg seen present r then decay_row cfg ts r else r) rows"
  unfolding decay_absent_edges_def
  by (subst edge_tbl.fold_updates [OF assms]) (auto simp: decays_def)

section \<open>What the memory keeps true\<close>

definition row_shape :: "memory_config \<Rightarrow> edge_row \<Rightarrow> bool" where
  "row_shape cfg r \<longleftrightarrow> 0 \<le> er_base_conf r \<and> 0 \<le> er_confidence r \<and> er_confidence r \<le> 1 \<and>
     (er_visible r \<longrightarrow> cf_hide cfg \<le> er_confidence r) \<and>
     (er_state r \<in> {Active, Decaying} \<longrightarrow> er_visible r) \<and>
     (er_state r \<in> {Confirming, Hidden} \<longrightarrow> \<not> er_visible r)"

definition row_ok :: "memory_config \<Rightarrow> edge_row \<Rightarrow> bool" where
  "row_ok cfg r \<longleftrightarrow> row_shape cfg r \<and> er_base_conf r \<le> er_confidence r"

definition memory_ok :: "memory_config \<Rightarrow> edge_row list \<Rightarrow> bool" where
  "memory_ok cfg rows \<longleftrightarrow> distinct (map edge_key rows) \<and> (\<forall>r \<in> set rows. row_ok cfg r)"

text \<open>Between the steps of a pass a seeded row may have a floor above its confidence; the decay
  that follows lifts it.\<close>

definition row_pending :: "memory_config \<Rightarrow> string set \<Rightarrow> edge_row \<Rightarrow> bool" where
  "row_pending cfg present r \<longleftrightarrow> row_shape cfg r \<and> er_base_conf r \<le> cf_prior cfg \<and>
     er_signal r = cf_signal cfg \<and> er_src r \<in> present \<and> er_dst r \<in> present"

locale sane_config =
  fixes cfg :: memory_config
  assumes alpha: "0 \<le> cf_alpha cfg" "cf_alpha cfg \<le> 1"
    and decay: "0 \<le> cf_decay cfg" "cf_decay cfg \<le> 1"
    and thresholds: "cf_hide cfg \<le> cf_show cfg"
    and prior: "0 \<le> cf_prior cfg" "cf_prior cfg \<le> cf_alpha cfg"
    and floor_frac: "0 \<le> cf_floor_frac cfg" "cf_floor_frac cfg \<le> 1"
begin

lemma grow_bounds:
  assumes "0 \<le> c" "c \<le> 1"
  shows "c \<le> c + cf_alpha cfg * (1 - c)" "c + cf_alpha cfg * (1 - c) \<le> 1"
    "cf_alpha cfg \<le> c + cf_alpha cfg * (1 - c)"
proof -
  have "cf_alpha cfg * (1 - c) \<le> 1 * (1 - c)" using assms alpha by (intro mult_right_mono) auto
  then show "c + cf_alpha cfg * (1 - c) \<le> 1" by simp
  show "c \<le> c + cf_alpha cfg * (1 - c)" using assms alpha by simp
  have "cf_alpha cfg * c \<le> 1 * c" using assms alpha by (intro mult_right_mono) auto
  then show "cf_alpha cfg \<le> c + cf_alpha cfg * (1 - c)" by (simp add: algebra_simps)
qed

lemma floor_le: "0 \<le> c \<Longrightarrow> cf_floor_frac cfg * c \<le> c"
  using floor_frac mult_right_mono [of "cf_floor_frac cfg" 1 c] by simp

lemma seed_pair_step:
  assumes "distinct (map edge_key rows)" "\<forall>r \<in> set rows. row_ok cfg r \<or> row_pending cfg present r"
  shows "distinct (map edge_key (seed_pair cfg present ts pair rows)) \<and>
    (\<forall>r \<in> set (seed_pair cfg present ts pair rows). row_ok cfg r \<or> row_pending cfg present r)"
proof -
  let ?a = "stable_workload (fst pair)" and ?b = "stable_workload (snd pair)"
  let ?k = "(min ?a ?b, max ?a ?b, cf_signal cfg)"
  consider "seed_pair cfg present ts pair rows = rows"
    | "min ?a ?b \<in> present" "max ?a ?b \<in> present" "tbl_select edge_key ?k rows = None"
    | row where "min ?a ?b \<in> present" "max ?a ?b \<in> present" "tbl_select edge_key ?k rows = Some row"
      "er_base_conf row < cf_prior cfg"
      "seed_pair cfg present ts pair rows =
         tbl_update edge_key ?k (\<lambda>r. r\<lparr>er_base_conf := cf_prior cfg\<rparr>) rows"
    by (fastforce simp: seed_pair_def Let_def split: option.splits if_splits)
  then show ?thesis
  proof cases
    case 1
    with assms show ?thesis by simp
  next
    case 2
    let ?new = "\<lparr>er_src = min ?a ?b, er_dst = max ?a ?b, er_signal = cf_signal cfg,
        er_confidence = cf_prior cfg, er_r = 0, er_lag = 0, er_evidence = [''pvc''], er_hits = 0,
        er_visible = False, er_state = Steady, er_first_seen = ts, er_last_seen = ts,
        er_updated = ts, er_base_conf = cf_prior cfg\<rparr>"
    have "row_ok cfg ?new" using prior alpha by (simp add: row_ok_def row_shape_def)
    moreover have "edge_key ?new = ?k" by (simp add: edge_key_def)
    ultimately show ?thesis
      using assms 2 edge_tbl.select_None_iff [of ?k rows]
      by (auto simp: seed_pair_def Let_def)
  next
    case 3
    have "row_pending cfg present (r\<lparr>er_base_conf := cf_prior cfg\<rparr>)"
      if "r \<in> set rows" "edge_key r = ?k" for r
      using that assms(2) 3(1,2) prior
      by (auto simp: row_pending_def row_ok_def row_shape_def edge_key_def)
    with assms(2) have "\<forall>r \<in> set (seed_pair cfg present ts pair rows). row_ok cfg r \<or> row_pending cfg present r"
      unfolding 3(5) by (intro edge_tbl.update_Ball) auto
    moreover have "distinct (map edge_key (seed_pair cfg present ts pair rows))"
      unfolding 3(5) using assms(1) by (subst edge_tbl.keys_update) simp_all
    ultimately show ?thesis by blast
  qed
qed

lemma seed_structural_step:
  assumes "distinct (map edge_key rows)" "\<forall>r \<in> set rows. row_ok cfg r \<or> row_pending cfg present r"
  shows "distinct (map edge_key (seed_structural cfg w present ts rows)) \<and>
    (\<forall>r \<in> set (seed_structural cfg w present ts rows). row_ok cfg r \<or> row_pending cfg present r)"
proof -
  have "distinct (map edge_key (foldl (\<lambda>rows pair. seed_pair cfg present ts pair rows) rows ps)) \<and>
    (\<forall>r \<in> set (foldl (\<lambda>rows pair. seed_pair cfg present ts pair rows) rows ps).
       row_ok cfg r \<or> row_pending cfg present r)" for ps
    using assms
  proof (induction ps arbitrary: rows)
    case (Cons p ps)
    note s = seed_pair_step [OF Cons.prems, of ts p]
    from Cons.IH [OF conjunct1 [OF s] conjunct2 [OF s]] show ?case by simp
  qed simp
  then show ?thesis by (simp add: seed_structural_def)
qed

text \<open>The row a confirmation writes.\<close>

lemma confirm_edge_row:
  assumes "\<forall>r \<in> set rows. row_ok cfg r \<or> row_pending cfg present r"
  shows "\<exists>r. confirm_edge cfg ts e rows = tbl_upsert edge_key r rows \<and> row_ok cfg r \<and>
    edge_key r = (stable_workload (e_src e), stable_workload (e_dst e), cf_signal cfg)"
proof -
  let ?k = "(stable_workload (e_src e), stable_workload (e_dst e), cf_signal cfg)"
  show ?thesis
  proof (cases "tbl_select edge_key ?k rows")
    case None
    with alpha floor_le [OF alpha(1)] floor_frac thresholds show ?thesis
      by (auto simp: confirm_edge_def Let_def row_ok_def row_shape_def edge_key_def)
  next
    case (Some row)
    let ?c = "er_confidence row + cf_alpha cfg * (1 - er_confidence row)"
    from edge_tbl.select_SomeD [OF Some] assms
    have row: "row_ok cfg row \<or> row_pending cfg present row" by blast
    then have sh: "row_shape cfg row" by (auto simp: row_ok_def row_pending_def)
    then have c: "0 \<le> er_confidence row" "er_confidence row \<le> 1" by (simp_all add: row_shape_def)
    note g = grow_bounds [OF c]
    have "0 \<le> ?c" using c g by linarith
    then have "cf_floor_frac cfg * ?c \<le> ?c" "0 \<le> cf_floor_frac cfg * ?c"
      using floor_le floor_frac by simp_all
    moreover have "er_base_conf row \<le> ?c"
      using row g prior by (auto simp: row_ok_def row_pending_def)
    ultimately show ?thesis
      using sh g thresholds c Some
      by (auto simp: confirm_edge_def Let_def row_ok_def row_shape_def edge_key_def)
  qed
qed

lemma confirm_edges_step:
  assumes "distinct (map edge_key rows)" "\<forall>r \<in> set rows. row_ok cfg r \<or> row_pending cfg present r"
  defines "k \<equiv> \<lambda>e. (stable_workload (e_src e), stable_workload (e_dst e), cf_signal cfg)"
  shows "distinct (map edge_key (foldl (\<lambda>rows e. confirm_edge cfg ts e rows) rows es)) \<and>
    (\<forall>r \<in> set (foldl (\<lambda>rows e. confirm_edge cfg ts e rows) rows es).
       row_ok cfg r \<or> (row_pending cfg present r \<and> edge_key r \<notin> k ` set es))"
proof (induction es rule: rev_induct)
  case Nil
  with assms(1,2) show ?case by simp
next
  case (snoc e es)
  let ?rows = "foldl (\<lambda>rows e. confirm_edge cfg ts e rows) rows es"
  from snoc have "\<forall>r \<in> set ?rows. row_ok cfg r \<or> row_pending cfg present r" by blast
  from confirm_edge_row [OF this, of ts e] obtain r where
    r: "confirm_edge cfg ts e ?rows = tbl_upsert edge_key r ?rows" "row_ok cfg r" "edge_key r = k e"
    by (auto simp: k_def)
  have "distinct (map edge_key (tbl_upsert edge_key r ?rows))"
    using snoc by (simp add: edge_tbl.distinct_upsert)
  moreover have "\<forall>x \<in> set (tbl_upsert edge_key r ?rows).
      row_ok cfg x \<or> (row_pending cfg present x \<and> edge_key x \<notin> k ` set (es @ [e]))"
    using snoc r(2,3) by (auto simp: edge_tbl.set_upsert)
  ultimately show ?case by (simp add: r(1))
qed

lemma decay_row_ok:
  assumes "row_shape cfg r" "er_base_conf r \<le> 1" shows "row_ok cfg (decay_row cfg ts r)"
proof -
  have "er_confidence r * (1 - cf_decay cfg) \<le> er_confidence r * 1"
    using assms decay by (intro mult_left_mono) (auto simp: row_shape_def)
  with assms decay show ?thesis
    by (auto simp: row_ok_def row_shape_def decay_row_def Let_def max_def)
qed

lemma edge_pass_ok:
  assumes "memory_ok cfg rows"
  shows "memory_ok cfg (edge_pass cfg w present ts es rows)"
proof -
  let ?k = "\<lambda>e. (stable_workload (e_src e), stable_workload (e_dst e), cf_signal cfg)"
  let ?r1 = "case w of None \<Rightarrow> rows | Some w \<Rightarrow> seed_structural cfg w present ts rows"
  let ?r2 = "foldl (\<lambda>rows e. confirm_edge cfg ts e rows) ?r1 es"
  have "distinct (map edge_key rows)" "\<forall>r \<in> set rows. row_ok cfg r \<or> row_pending cfg present r"
    using assms by (auto simp: memory_ok_def)
  then have r1: "distinct (map edge_key ?r1)" "\<forall>r \<in> set ?r1. row_ok cfg r \<or> row_pending cfg present r"
    using seed_structural_step by (auto split: option.split)
  note r2 = confirm_edges_step [OF r1, of ts es]
  have "row_ok cfg (if decays cfg (?k ` set es) present r then decay_row cfg ts r else r)"
    if "r \<in> set ?r2" for r
  proof (cases "row_ok cfg r")
    case True
    then have "row_shape cfg r" "er_base_conf r \<le> 1" by (auto simp: row_ok_def row_shape_def)
    from decay_row_ok [OF this] True show ?thesis by simp
  next
    case False
    with r2 that have p: "row_pending cfg present r" "edge_key r \<notin> ?k ` set es" by auto
    then have "decays cfg (?k ` set es) present r" by (simp add: decays_def row_pending_def)
    moreover have "row_ok cfg (decay_row cfg ts r)"
      using p(1) prior alpha by (intro decay_row_ok) (auto simp: row_pending_def)
    ultimately show ?thesis by simp
  qed
  moreover have "map edge_key (map (\<lambda>r. if decays cfg (?k ` set es) present r then decay_row cfg ts r else r) ?r2) =
      map edge_key ?r2" by auto
  moreover have "edge_pass cfg w present ts es rows =
      map (\<lambda>r. if decays cfg (?k ` set es) present r then decay_row cfg ts r else r) ?r2"
    using r2 by (simp add: edge_pass_def Let_def decay_absent_map)
  ultimately show ?thesis using r2 unfolding memory_ok_def by (simp only: set_map ball_simps) blast
qed

end

interpretation default: sane_config default_config
  by unfold_locales (simp_all add: default_config_def)


definition old_row :: edge_row where
  "old_row = \<lparr>er_src = ''cooling-monitor'', er_dst = ''timescaledb'', er_signal = ''psi_io'',
     er_confidence = 64/100, er_r = 8/10, er_lag = 5, er_evidence = [''stat'', ''pvc''], er_hits = 2,
     er_visible = True, er_state = Active, er_first_seen = 10, er_last_seen = 20, er_updated = 20,
     er_base_conf = 256/1000\<rparr>"

lemma old_row_ok: "memory_ok default_config [old_row]"
  by (simp add: memory_ok_def row_ok_def row_shape_def old_row_def default_config_def)


section \<open>Growth\<close>

lemma confirm_new:
  assumes "tbl_select edge_key (stable_workload (e_src e), stable_workload (e_dst e), cf_signal cfg) rows = None"
  shows "confirm_edge cfg ts e rows = tbl_upsert edge_key
    \<lparr>er_src = stable_workload (e_src e), er_dst = stable_workload (e_dst e), er_signal = cf_signal cfg,
     er_confidence = cf_alpha cfg, er_r = e_r e, er_lag = e_lag e, er_evidence = e_evidence e, er_hits = 1,
     er_visible = (cf_show cfg \<le> cf_alpha cfg),
     er_state = (if cf_show cfg \<le> cf_alpha cfg then Active else Confirming), er_first_seen = ts,
     er_last_seen = ts, er_updated = ts, er_base_conf = max 0 (cf_floor_frac cfg * cf_alpha cfg)\<rparr> rows"
  by (simp add: confirm_edge_def assms)

lemma confirm_known:
  assumes "tbl_select edge_key (stable_workload (e_src e), stable_workload (e_dst e), cf_signal cfg) rows = Some r"
  defines "c \<equiv> er_confidence r + cf_alpha cfg * (1 - er_confidence r)"
  shows "confirm_edge cfg ts e rows = tbl_upsert edge_key
    \<lparr>er_src = stable_workload (e_src e), er_dst = stable_workload (e_dst e), er_signal = cf_signal cfg,
     er_confidence = c, er_r = e_r e, er_lag = e_lag e, er_evidence = e_evidence e, er_hits = er_hits r + 1,
     er_visible = (er_visible r \<or> cf_show cfg \<le> c),
     er_state = (if er_visible r \<or> cf_show cfg \<le> c then Active else Confirming),
     er_first_seen = er_first_seen r, er_last_seen = ts, er_updated = ts,
     er_base_conf = max (er_base_conf r) (cf_floor_frac cfg * c)\<rparr> rows"
  by (simp add: confirm_edge_def assms)

lemma confirm_upsert:
  "\<exists>r. confirm_edge cfg ts e rows = tbl_upsert edge_key r rows \<and>
     edge_key r = (stable_workload (e_src e), stable_workload (e_dst e), cf_signal cfg)"
  by (cases "tbl_select edge_key (stable_workload (e_src e), stable_workload (e_dst e), cf_signal cfg) rows")
    (auto simp: confirm_edge_def Let_def)

lemma confirm_edge_distinct:
  "distinct (map edge_key rows) \<Longrightarrow> distinct (map edge_key (confirm_edge cfg ts e rows))"
  using confirm_upsert [of cfg ts e rows] edge_tbl.distinct_upsert by auto

definition grown :: "memory_config \<Rightarrow> real \<Rightarrow> nat \<Rightarrow> edge_row \<Rightarrow> bool" where
  "grown cfg t0 n r \<longleftrightarrow> er_confidence r = 1 - (1 - cf_alpha cfg) ^ n \<and> er_hits r = n \<and>
     er_first_seen r = t0 \<and> (er_visible r \<longleftrightarrow> cf_show cfg \<le> er_confidence r) \<and>
     er_base_conf r = cf_floor_frac cfg * er_confidence r"

context sane_config
begin

lemma grown_step:
  assumes d: "distinct (map edge_key rows)"
    and sel: "tbl_select edge_key (stable_workload (e_src e), stable_workload (e_dst e), cf_signal cfg) rows = Some r"
    and g: "grown cfg t0 n r"
  shows "\<exists>r'. tbl_select edge_key (stable_workload (e_src e), stable_workload (e_dst e), cf_signal cfg)
      (confirm_edge cfg ts e rows) = Some r' \<and> grown cfg t0 (Suc n) r'"
proof -
  let ?c = "er_confidence r + cf_alpha cfg * (1 - er_confidence r)"
  have ce: "er_confidence r = 1 - (1 - cf_alpha cfg) ^ n" using g by (simp add: grown_def)
  then have c: "?c = 1 - (1 - cf_alpha cfg) ^ Suc n" by (simp only:) (simp add: algebra_simps)
  have "(1 - cf_alpha cfg) ^ Suc n \<le> (1 - cf_alpha cfg) ^ n"
    using alpha by (simp add: mult_left_le_one_le)
  with c ce have le: "er_confidence r \<le> ?c" by linarith
  then have "cf_floor_frac cfg * er_confidence r \<le> cf_floor_frac cfg * ?c"
    using floor_frac by (intro mult_left_mono)
  then have "max (er_base_conf r) (cf_floor_frac cfg * ?c) = cf_floor_frac cfg * ?c"
    using g by (simp add: grown_def max_absorb2)
  moreover have "er_visible r \<or> cf_show cfg \<le> ?c \<longleftrightarrow> cf_show cfg \<le> ?c"
    using g le by (auto simp: grown_def)
  ultimately have "grown cfg t0 (Suc n) \<lparr>er_src = stable_workload (e_src e), er_dst = stable_workload (e_dst e),
      er_signal = cf_signal cfg, er_confidence = ?c, er_r = e_r e, er_lag = e_lag e, er_evidence = e_evidence e,
      er_hits = er_hits r + 1, er_visible = (er_visible r \<or> cf_show cfg \<le> ?c),
      er_state = (if er_visible r \<or> cf_show cfg \<le> ?c then Active else Confirming),
      er_first_seen = er_first_seen r, er_last_seen = ts, er_updated = ts,
      er_base_conf = max (er_base_conf r) (cf_floor_frac cfg * ?c)\<rparr>"
    using g unfolding grown_def c by simp
  then show ?thesis
    unfolding confirm_known [OF sel] edge_tbl.select_upsert [OF d] by simp
qed

lemma confirmations_grow:
  assumes d: "distinct (map edge_key rows)"
    and new: "tbl_select edge_key (stable_workload (e_src e), stable_workload (e_dst e), cf_signal cfg) rows = None"
  shows "distinct (map edge_key (foldl (\<lambda>rows ts. confirm_edge cfg ts e rows) rows (t0 # tss))) \<and>
    (\<exists>r. tbl_select edge_key (stable_workload (e_src e), stable_workload (e_dst e), cf_signal cfg)
      (foldl (\<lambda>rows ts. confirm_edge cfg ts e rows) rows (t0 # tss)) = Some r \<and>
      grown cfg t0 (Suc (length tss)) r)"
proof (induction tss rule: rev_induct)
  case Nil
  show ?case
    using alpha floor_frac
    by (simp add: confirm_new [OF new] edge_tbl.distinct_upsert [OF d] edge_tbl.select_upsert [OF d] grown_def)
next
  case (snoc t tss)
  let ?rows = "foldl (\<lambda>rows ts. confirm_edge cfg ts e rows) rows (t0 # tss)"
  from snoc obtain r where d': "distinct (map edge_key ?rows)" and
    r: "tbl_select edge_key (stable_workload (e_src e), stable_workload (e_dst e), cf_signal cfg) ?rows = Some r"
      "grown cfg t0 (Suc (length tss)) r" by blast
  have "distinct (map edge_key (confirm_edge cfg t e ?rows))"
    by (rule confirm_edge_distinct [OF d'])
  with grown_step [OF d' r, of t] show ?case by simp
qed

end

text \<open>Confidence accumulates by a closed formula: after \<open>n + 1\<close> confirmations of an
  edge that was not known, its row holds confidence \<open>1 - (1 - alpha) ^ (n + 1)\<close>, that many hits, the
  time of the first sighting and the floor the confidence has earned, and it is shown exactly
  when the confidence has reached the show threshold.\<close>

theorem confirm_edge_growth:
  assumes "sane_config cfg" and "distinct (map edge_key rows)"
    and "tbl_select edge_key (stable_workload (e_src e), stable_workload (e_dst e), cf_signal cfg) rows = None"
  shows "\<exists>r. tbl_select edge_key (stable_workload (e_src e), stable_workload (e_dst e), cf_signal cfg)
      (foldl (\<lambda>rows ts. confirm_edge cfg ts e rows) rows (t0 # tss)) = Some r \<and>
    er_confidence r = 1 - (1 - cf_alpha cfg) ^ Suc (length tss) \<and> er_hits r = Suc (length tss) \<and>
    er_first_seen r = t0 \<and> (er_visible r \<longleftrightarrow> cf_show cfg \<le> er_confidence r) \<and>
    er_base_conf r = cf_floor_frac cfg * er_confidence r"
  using sane_config.confirmations_grow [OF assms, of t0 tss] by (auto simp: grown_def)

text \<open>With the default configuration an edge shows at its second confirmation, not at its first.\<close>

theorem confirm_edge_growth_witness:
  "(\<exists>r. tbl_select edge_key (''a'', ''b'', ''psi_io'') (confirm_edge default_config 1
       \<lparr>e_src = ''a'', e_dst = ''b'', e_r = 7/10, e_lag = 5, e_evidence = []\<rparr> []) = Some r \<and> \<not> er_visible r) \<and>
   (\<exists>r. tbl_select edge_key (''a'', ''b'', ''psi_io'') (foldl (\<lambda>rows ts. confirm_edge default_config ts
       \<lparr>e_src = ''a'', e_dst = ''b'', e_r = 7/10, e_lag = 5, e_evidence = []\<rparr> rows) [] [1, 2]) = Some r \<and> er_visible r)"
proof -
  let ?e = "\<lparr>e_src = ''a'', e_dst = ''b'', e_r = 7/10, e_lag = 5, e_evidence = []\<rparr> :: edge"
  have w: "stable_workload (e_src ?e) = ''a''" "stable_workload (e_dst ?e) = ''b''"
    by (simp_all add: stable_workload_def)
  have s: "cf_signal default_config = ''psi_io''" "cf_alpha default_config = 4/10" "cf_show default_config = 6/10"
    by (simp_all add: default_config_def)
  have n: "tbl_select edge_key k [] = None" for k by (simp add: tbl_select_def)
  note g = confirm_edge_growth [OF default.sane_config_axioms, of "[]" ?e, unfolded w s, OF _ n]
  show ?thesis
    using g [of 1 "[]"] g [of 1 "[2]"] by (auto simp: power2_eq_square)
qed

section \<open>Decay\<close>

definition faded :: "memory_config \<Rightarrow> nat \<Rightarrow> edge_row \<Rightarrow> edge_row \<Rightarrow> bool" where
  "faded cfg n r r' \<longleftrightarrow> edge_key r' = edge_key r \<and> er_base_conf r' = er_base_conf r \<and>
     er_hits r' = er_hits r \<and> er_first_seen r' = er_first_seen r \<and> er_last_seen r' = er_last_seen r \<and>
     er_confidence r' = max (er_base_conf r) (er_confidence r * (1 - cf_decay cfg) ^ n) \<and>
     (n > 0 \<longrightarrow> (er_visible r' \<longleftrightarrow> er_visible r \<and> cf_hide cfg \<le> er_confidence r') \<and>
       (er_base_conf r > 0 \<and> er_confidence r' = er_base_conf r \<longrightarrow> er_state r' = Steady))"

lemma decay_row_fields:
  "er_confidence (decay_row cfg ts r) = max (er_base_conf r) (er_confidence r * (1 - cf_decay cfg))"
  "er_visible (decay_row cfg ts r) \<longleftrightarrow> er_visible r \<and> cf_hide cfg \<le> er_confidence (decay_row cfg ts r)"
  "er_confidence (decay_row cfg ts r) = er_base_conf r \<Longrightarrow> er_base_conf r > 0 \<Longrightarrow>
     er_state (decay_row cfg ts r) = Steady"
  "er_base_conf (decay_row cfg ts r) = er_base_conf r" "er_hits (decay_row cfg ts r) = er_hits r"
  "er_first_seen (decay_row cfg ts r) = er_first_seen r" "er_last_seen (decay_row cfg ts r) = er_last_seen r"
  by (auto simp: decay_row_def Let_def)

lemma edge_pass_quiet:
  "distinct (map edge_key rows) \<Longrightarrow> edge_pass cfg None present ts ([] :: edge list) rows =
     map (\<lambda>r. if decays cfg {} present r then decay_row cfg ts r else r) rows"
  by (simp add: edge_pass_def decay_absent_map)

context sane_config
begin

lemma faded_step:
  assumes "0 \<le> er_base_conf r" "er_base_conf r \<le> er_confidence r" "faded cfg n r r'"
    and "n = 0 \<longrightarrow> r' = r"
  shows "faded cfg (Suc n) r (decay_row cfg ts r')"
proof -
  let ?b = "er_base_conf r" and ?q = "1 - cf_decay cfg"
  have q: "0 \<le> ?q" "?q \<le> 1" using decay by simp_all
  have bq: "?b * ?q \<le> ?b" using assms(1) q by (simp add: mult_left_le)
  have "max ?b (er_confidence r * ?q ^ n) * ?q = max (?b * ?q) (er_confidence r * ?q ^ Suc n)"
    by (simp only: max_mult_distrib_right q(1) if_True power_Suc2 mult.assoc)
  then have "max ?b (max ?b (er_confidence r * ?q ^ n) * ?q) = max ?b (er_confidence r * ?q ^ Suc n)"
    using bq by (simp add: max.assoc [symmetric] max_absorb1 del: power_Suc)
  with assms(3) have conf: "er_confidence (decay_row cfg ts r') = max ?b (er_confidence r * ?q ^ Suc n)"
    by (simp add: faded_def decay_row_fields del: power_Suc)
  have "er_confidence r * ?q ^ Suc n \<le> er_confidence r * ?q ^ n"
    using q assms(1,2) by (intro mult_left_mono) (simp_all add: mult_left_le_one_le)
  with conf assms(3) have le: "er_confidence (decay_row cfg ts r') \<le> er_confidence r'"
    unfolding faded_def by linarith
  have "er_visible (decay_row cfg ts r') \<longleftrightarrow> er_visible r \<and> cf_hide cfg \<le> er_confidence (decay_row cfg ts r')"
    using le assms(3,4) by (cases "n = 0") (auto simp: decay_row_fields(2) faded_def)
  moreover have "er_base_conf r > 0 \<and> er_confidence (decay_row cfg ts r') = ?b \<Longrightarrow> er_state (decay_row cfg ts r') = Steady"
    using assms(3) by (simp add: decay_row_fields(3) faded_def)
  ultimately show ?thesis
    using assms(3) unfolding faded_def conf by (simp add: decay_row_fields(4-7) del: power_Suc)
qed

lemma passes_fade:
  assumes d: "distinct (map edge_key rows)" and r: "r \<in> set rows" and ok: "row_ok cfg r"
    and sig: "er_signal r = cf_signal cfg" and pr: "er_src r \<in> present" "er_dst r \<in> present"
  shows "distinct (map edge_key (foldl (\<lambda>rows ts. edge_pass cfg None present ts ([] :: edge list) rows) rows tss)) \<and>
    (\<exists>r' \<in> set (foldl (\<lambda>rows ts. edge_pass cfg None present ts ([] :: edge list) rows) rows tss).
       faded cfg (length tss) r r' \<and> (tss = [] \<longrightarrow> r' = r))"
proof (induction tss rule: rev_induct)
  case Nil
  with d r ok show ?case by (auto simp: faded_def row_ok_def row_shape_def max_def intro!: bexI [of _ r])
next
  case (snoc t tss)
  let ?rows = "foldl (\<lambda>rows ts. edge_pass cfg None present ts ([] :: edge list) rows) rows tss"
  from snoc obtain r' where d': "distinct (map edge_key ?rows)" and
    r': "r' \<in> set ?rows" "faded cfg (length tss) r r'" "tss = [] \<longrightarrow> r' = r" by blast
  have "faded cfg (Suc (length tss)) r (decay_row cfg t r')"
    using ok r' by (intro faded_step) (auto simp: row_ok_def row_shape_def)
  moreover have "decays cfg {} present r'"
    using r'(2) sig pr by (auto simp: decays_def faded_def edge_key_def)
  then have "decay_row cfg t r' \<in> set (edge_pass cfg None present t ([] :: edge list) ?rows)"
    using r'(1) by (force simp: edge_pass_quiet [OF d'])
  moreover have "map edge_key (edge_pass cfg None present t ([] :: edge list) ?rows) = map edge_key ?rows"
    by (simp add: edge_pass_quiet [OF d'])
  ultimately show ?case using d' by (auto simp del: map_map)
qed

end



section \<open>Memory never forgets\<close>

text \<open>What later passes owe to a row.\<close>

definition remembers :: "edge_row \<Rightarrow> edge_row \<Rightarrow> bool" where
  "remembers r r' \<longleftrightarrow> edge_key r' = edge_key r \<and> er_base_conf r \<le> er_base_conf r' \<and>
     er_hits r \<le> er_hits r' \<and> er_first_seen r' = er_first_seen r"

lemma remembers_refl [simp]: "remembers r r"
  by (simp add: remembers_def)

lemma remembers_trans: "remembers r s \<Longrightarrow> remembers s t \<Longrightarrow> remembers r t"
  by (auto simp: remembers_def)

lemma remembers_decay: "remembers r (decay_row cfg ts r)"
  by (simp add: remembers_def decay_row_fields)

definition absent :: "string set \<Rightarrow> edge_row \<Rightarrow> bool" where
  "absent present r \<longleftrightarrow> er_src r \<notin> present \<or> er_dst r \<notin> present"

definition kept :: "string set \<Rightarrow> edge_row list \<Rightarrow> edge_row list \<Rightarrow> bool" where
  "kept present rows rows' \<longleftrightarrow>
     (\<forall>r \<in> set rows. \<exists>r' \<in> set rows'. remembers r r' \<and> (absent present r \<longrightarrow> r' = r))"

lemma kept_subset: "set rows \<subseteq> set rows' \<Longrightarrow> kept present rows rows'"
  unfolding kept_def by (intro ballI bexI conjI) auto

lemma kept_trans: "kept present a b \<Longrightarrow> kept present b c \<Longrightarrow> kept present a c"
  unfolding kept_def by (metis remembers_trans)

lemma seed_pair_remembers:
  "distinct (map edge_key rows) \<Longrightarrow> distinct (map edge_key (seed_pair cfg present ts p rows)) \<and>
     kept present rows (seed_pair cfg present ts p rows)"
proof -
  let ?a = "stable_workload (fst p)" and ?b = "stable_workload (snd p)"
  let ?k = "(min ?a ?b, max ?a ?b, cf_signal cfg)"
  assume d: "distinct (map edge_key rows)"
  consider "seed_pair cfg present ts p rows = rows"
    | new where "tbl_select edge_key ?k rows = None" "seed_pair cfg present ts p rows = rows @ [new]" "edge_key new = ?k"
    | row where "min ?a ?b \<in> present" "max ?a ?b \<in> present" "tbl_select edge_key ?k rows = Some row"
      "er_base_conf row < cf_prior cfg"
      "seed_pair cfg present ts p rows =
         tbl_update edge_key ?k (\<lambda>r. r\<lparr>er_base_conf := cf_prior cfg\<rparr>) rows"
    by (fastforce simp: seed_pair_def Let_def split: option.splits if_splits)
  then show ?thesis
  proof cases
    case 1
    with d show ?thesis by (simp add: kept_subset)
  next
    case 2
    with d edge_tbl.select_None_iff [of ?k rows] show ?thesis by (auto intro: kept_subset)
  next
    case 3
    have "distinct (map edge_key (seed_pair cfg present ts p rows))"
      unfolding 3(5) using d by (subst edge_tbl.keys_update) simp_all
    moreover have "\<exists>r' \<in> set (seed_pair cfg present ts p rows). remembers r r' \<and>
        (absent present r \<longrightarrow> r' = r)" if r: "r \<in> set rows" for r
    proof (cases "edge_key r = ?k")
      case True
      with d r have "tbl_select edge_key ?k rows = Some r" by (subst edge_tbl.select_eq_Some_iff) simp_all
      with 3(3) have "r = row" by simp
      with True r 3 show ?thesis
        by (intro bexI [of _ "r\<lparr>er_base_conf := cf_prior cfg\<rparr>"])
          (auto simp: edge_tbl.update_map remembers_def edge_key_def absent_def)
    next
      case False
      with r show ?thesis unfolding 3(5) by (intro bexI [of _ r]) (auto simp: edge_tbl.update_map)
    qed
    ultimately show ?thesis by (simp add: kept_def)
  qed
qed

lemma seed_structural_remembers:
  assumes "distinct (map edge_key rows)"
  shows "distinct (map edge_key (seed_structural cfg w present ts rows)) \<and>
     kept present rows (seed_structural cfg w present ts rows)"
proof -
  have "distinct (map edge_key (foldl (\<lambda>rows p. seed_pair cfg present ts p rows) rows ps)) \<and>
     kept present rows (foldl (\<lambda>rows p. seed_pair cfg present ts p rows) rows ps)" for ps
  proof (induction ps rule: rev_induct)
    case (snoc p ps)
    let ?rs = "foldl (\<lambda>rows p. seed_pair cfg present ts p rows) rows ps"
    from snoc seed_pair_remembers [of ?rs cfg present ts p] show ?case
      by (auto intro: kept_trans [of present rows ?rs])
  qed (use assms in \<open>simp add: kept_subset\<close>)
  then show ?thesis by (simp add: seed_structural_def)
qed

lemma confirm_edge_remembers:
  assumes "distinct (map edge_key rows)" "r \<in> set rows"
  shows "\<exists>r' \<in> set (confirm_edge cfg ts e rows). remembers r r' \<and>
    (edge_key r \<noteq> (stable_workload (e_src e), stable_workload (e_dst e), cf_signal cfg) \<longrightarrow> r' = r)"
proof (cases "edge_key r = (stable_workload (e_src e), stable_workload (e_dst e), cf_signal cfg)")
  case True
  with assms have "tbl_select edge_key (stable_workload (e_src e), stable_workload (e_dst e), cf_signal cfg) rows = Some r"
    by (simp add: edge_tbl.select_eq_Some_iff)
  from confirm_known [OF this, of ts] True show ?thesis
    by (auto simp: edge_tbl.set_upsert remembers_def)
next
  case False
  with confirm_upsert [of cfg ts e rows] assms(2) show ?thesis
    by (auto simp: edge_tbl.set_upsert intro!: bexI [of _ r])
qed

text \<open>C27 (invariant).  The memory is never lost: after any pass every row is still there under its
  key, its floor and its hits have not decreased and its first sighting is unchanged; a row one
  of whose workloads is not running and that no live edge confirms is exactly as it was.\<close>

theorem edge_pass_remembers:
  assumes "distinct (map edge_key rows)" and "r \<in> set rows"
  shows "\<exists>r' \<in> set (edge_pass cfg w present ts edges rows). edge_key r' = edge_key r \<and>
    er_base_conf r \<le> er_base_conf r' \<and> er_hits r \<le> er_hits r' \<and> er_first_seen r' = er_first_seen r \<and>
    ((er_src r \<notin> present \<or> er_dst r \<notin> present) \<and>
     (\<forall>e \<in> set edges. edge_key r \<noteq> (stable_workload (e_src e), stable_workload (e_dst e), cf_signal cfg)) \<longrightarrow> r' = r)"
proof -
  let ?k = "\<lambda>e. (stable_workload (e_src e), stable_workload (e_dst e), cf_signal cfg)"
  let ?absent = "absent present r"
  let ?r1 = "case w of None \<Rightarrow> rows | Some w \<Rightarrow> seed_structural cfg w present ts rows"
  let ?conf = "foldl (\<lambda>rows e. confirm_edge cfg ts e rows) ?r1"
  have 1: "distinct (map edge_key ?r1) \<and> (\<exists>r' \<in> set ?r1. remembers r r' \<and> (?absent \<longrightarrow> r' = r))"
    using assms seed_structural_remembers [OF assms(1), of cfg _ present ts] kept_subset [of rows rows present]
    by (cases w) (simp_all add: kept_def)
  have 2: "distinct (map edge_key (?conf es)) \<and>
      (\<exists>r' \<in> set (?conf es). remembers r r' \<and> (?absent \<and> (\<forall>e \<in> set es. edge_key r \<noteq> ?k e) \<longrightarrow> r' = r))" for es
  proof (induction es rule: rev_induct)
    case (snoc e es)
    then obtain r' where r': "r' \<in> set (?conf es)" "remembers r r'"
      "?absent \<and> (\<forall>e \<in> set es. edge_key r \<noteq> ?k e) \<longrightarrow> r' = r" and d: "distinct (map edge_key (?conf es))" by blast
    from confirm_edge_remembers [OF d r'(1), of cfg ts e] obtain r2 where
      "r2 \<in> set (?conf (es @ [e]))" "remembers r' r2" "edge_key r' \<noteq> ?k e \<longrightarrow> r2 = r'" by auto
    with r' d show ?case
      by (intro conjI bexI [of _ r2]) (auto simp: confirm_edge_distinct intro: remembers_trans)
  qed (use 1 in auto)
  then obtain r' where r': "r' \<in> set (?conf edges)" "remembers r r'"
      "?absent \<and> (\<forall>e \<in> set edges. edge_key r \<noteq> ?k e) \<longrightarrow> r' = r" by blast
  let ?r3 = "if decays cfg (?k ` set edges) present r' then decay_row cfg ts r' else r'"
  have "?r3 \<in> set (edge_pass cfg w present ts edges rows)"
    using r'(1) 2 [of edges] by (force simp: edge_pass_def Let_def decay_absent_map)
  moreover have "remembers r ?r3" using r'(2) by (auto intro: remembers_trans remembers_decay)
  moreover have "decays cfg (?k ` set edges) present r' \<Longrightarrow> \<not> ?absent"
    using r'(2) by (auto simp: decays_def remembers_def edge_key_def absent_def)
  ultimately show ?thesis using r'(3) by (intro bexI [of _ ?r3]) (auto simp: remembers_def absent_def)
qed

theorem edge_pass_remembers_witness:
  "\<exists>r' \<in> set (edge_pass default_config None {''timescaledb''} 99 ([] :: edge list) [old_row]). r' = old_row"
  using edge_pass_remembers [of "[old_row]" old_row default_config None "{''timescaledb''}" 99 "[] :: edge list"]
  by (auto simp: old_row_def)

text \<open>A property of the stored correlation that 0 and every live edge has is kept by a pass.\<close>

lemma seed_pair_correlations:
  "\<forall>r \<in> set rows. P (er_r r) \<Longrightarrow> P 0 \<Longrightarrow> \<forall>r \<in> set (seed_pair cfg present ts p rows). P (er_r r)"
  by (auto simp: seed_pair_def Let_def edge_tbl.update_map split: option.splits)

lemma seed_structural_correlations:
  "\<forall>r \<in> set rows. P (er_r r) \<Longrightarrow> P 0 \<Longrightarrow> \<forall>r \<in> set (seed_structural cfg w present ts rows). P (er_r r)"
proof -
  assume *: "\<forall>r \<in> set rows. P (er_r r)" "P 0"
  have "\<forall>r \<in> set (foldl (\<lambda>rows p. seed_pair cfg present ts p rows) rows ps). P (er_r r)" for ps
    by (induction ps rule: rev_induct) (simp_all add: * seed_pair_correlations)
  then show ?thesis by (simp add: seed_structural_def)
qed

lemma confirm_edge_correlations:
  "\<forall>r \<in> set rows. P (er_r r) \<Longrightarrow> P (e_r e) \<Longrightarrow> \<forall>r \<in> set (confirm_edge cfg ts e rows). P (er_r r)"
  by (auto simp: confirm_edge_def Let_def edge_tbl.set_upsert split: prod.split)

lemma edge_pass_correlations:
  assumes "distinct (map edge_key rows)" "\<forall>r \<in> set rows. P (er_r r)" "P 0" "\<forall>e \<in> set edges. P (e_r e)"
  shows "\<forall>r \<in> set (edge_pass cfg w present ts edges rows). P (er_r r)"
proof -
  let ?r1 = "case w of None \<Rightarrow> rows | Some w \<Rightarrow> seed_structural cfg w present ts rows"
  have r1: "distinct (map edge_key ?r1)" "\<forall>r \<in> set ?r1. P (er_r r)"
    using assms by (auto simp: seed_structural_remembers seed_structural_correlations split: option.split)
  have "distinct (map edge_key (foldl (\<lambda>rows e. confirm_edge cfg ts e rows) ?r1 es)) \<and>
      (\<forall>r \<in> set (foldl (\<lambda>rows e. confirm_edge cfg ts e rows) ?r1 es). P (er_r r))"
    if "set es \<subseteq> set edges" for es
    using that
  proof (induction es rule: rev_induct)
    case (snoc e es)
    let ?rs = "foldl (\<lambda>rows e. confirm_edge cfg ts e rows) ?r1 es"
    from snoc.prems have "set es \<subseteq> set edges" "P (e_r e)" using assms(4) by auto
    from snoc.IH [OF this(1)] confirm_edge_distinct [of ?rs cfg ts e]
      confirm_edge_correlations [of ?rs P e cfg ts] this(2)
    show ?case by simp
  qed (use r1 in simp)
  from this [of edges] show ?thesis
    by (auto simp: edge_pass_def Let_def decay_absent_map decay_row_def)
qed

section \<open>Workload names\<close>

text \<open>A restart does not change the identity of a belief: every pod name a ReplicaSet
  generates, workload, dash, template hash, dash, pod suffix, gives back its workload, dashes in the
  workload name included.\<close>

theorem stable_workload_pod:
  assumes "CHR ''-'' \<notin> set tpl" and "CHR ''-'' \<notin> set sfx"
  shows "stable_workload (wl @ ''-'' @ tpl @ ''-'' @ sfx) = wl"
proof -
  have "split_on CHR ''-'' (tpl @ CHR ''-'' # sfx) = [tpl, sfx]"
    using assms by (simp add: split_on_append)
  then have parts: "split_on CHR ''-'' (wl @ ''-'' @ tpl @ ''-'' @ sfx) = split_on CHR ''-'' wl @ [tpl, sfx]"
    using split_on_last [of "CHR ''-''" wl "tpl @ CHR ''-'' # sfx"] by simp
  have "0 < length (split_on CHR ''-'' wl)" by simp
  then show ?thesis unfolding stable_workload_def parts by (simp add: Let_def join_split)
qed

theorem stable_workload_pod_witness:
  "stable_workload ''cooling-monitor-5d9c7b-x2x4z'' = ''cooling-monitor''"
  using stable_workload_pod [of "''5d9c7b''" "''x2x4z''" "''cooling-monitor''"] by simp

text \<open>The function cannot tell a pod name from a workload name of three or more parts: a name that
  is already a workload loses its last two.\<close>

lemma stable_workload_collapses: "stable_workload ''critical-control-relay'' = ''critical''"
  by (simp add: stable_workload_def)

end
