(* ===== verification/Baselines.thy ===== *)
theory Baselines
  imports Edge_Memory Pipeline
begin

text \<open>
  \<open>correlation/engine/state.py\<close>, the steady-state baselines: each workload's robust median and MAD,
  learned by a slow EWMA that leaves storming workloads out, and the incident threshold the
  pipeline's deviation gate compares with.
\<close>

record baseline_row =
  b_workload :: string
  b_signal :: string
  b_median :: real
  b_mad :: real
  b_n :: nat
  b_updated :: real

definition baseline_key :: "baseline_row \<Rightarrow> string \<times> string" where
  "baseline_key r = (b_workload r, b_signal r)"

interpretation base_tbl: keyed_table baseline_key "tbl_select baseline_key" "tbl_upsert baseline_key"
  "tbl_insert_ignore baseline_key" "tbl_update baseline_key"
  by (rule keyed_table_lists)

text \<open>One round of the loop over the vectors.\<close>

definition update_baseline ::
    "numlib \<Rightarrow> memory_config \<Rightarrow> real \<Rightarrow> string \<times> vec \<Rightarrow> baseline_row list \<Rightarrow> baseline_row list" where
  "update_baseline np cfg ts pv rows =
     (let arr = snd pv in
      if length arr < 12 then rows
      else
        let wl = stable_workload (fst pv);
            med = np_median np arr;
            mad = np_median np (map (\<lambda>v. \<bar>v - med\<bar>) arr)
        in (case tbl_select baseline_key (wl, cf_signal cfg) rows of
              None \<Rightarrow> rows @ [\<lparr>b_workload = wl, b_signal = cf_signal cfg, b_median = med, b_mad = mad,
                b_n = 1, b_updated = ts\<rparr>]
            | Some row \<Rightarrow>
                if b_n row \<ge> cf_base_min_n cfg \<and>
                   np_percentile np arr 90 > b_median row + cf_dev_k cfg * max (b_mad row) (cf_mad_floor cfg)
                then rows
                else
                  let a = cf_base_alpha cfg
                  in tbl_update baseline_key (wl, cf_signal cfg)
                       (\<lambda>r. r\<lparr>b_median := (1 - a) * b_median row + a * med,
                              b_mad := (1 - a) * b_mad row + a * mad,
                              b_n := b_n row + 1, b_updated := ts\<rparr>) rows))"

definition update_baselines ::
    "numlib \<Rightarrow> memory_config \<Rightarrow> vectors \<Rightarrow> real \<Rightarrow> baseline_row list \<Rightarrow> baseline_row list" where
  "update_baselines np cfg vectors ts rows =
     foldl (\<lambda>rows pv. update_baseline np cfg ts pv rows) rows vectors"

definition baseline_threshold :: "memory_config \<Rightarrow> baseline_row list \<Rightarrow> string \<Rightarrow> real option" where
  "baseline_threshold cfg rows workload =
     (case tbl_select baseline_key (workload, cf_signal cfg) rows of
        None \<Rightarrow> None
      | Some row \<Rightarrow>
          if b_n row < cf_base_min_n cfg then None
          else Some (b_median row + cf_dev_k cfg * max (b_mad row) (cf_mad_floor cfg)))"

section \<open>One update\<close>

lemma baseline_key_simps [simp]:
  "baseline_key \<lparr>b_workload = w, b_signal = s, b_median = m, b_mad = d, b_n = n, b_updated = t\<rparr> = (w, s)"
  "baseline_key (r\<lparr>b_median := m, b_mad := d, b_n := n, b_updated := t\<rparr>) = baseline_key r"
  by (simp_all add: baseline_key_def)

definition storming :: "numlib \<Rightarrow> memory_config \<Rightarrow> baseline_row list \<Rightarrow> string \<times> vec \<Rightarrow> bool" where
  "storming np cfg rows pv \<longleftrightarrow>
     (case baseline_threshold cfg rows (stable_workload (fst pv)) of
        None \<Rightarrow> False | Some thr \<Rightarrow> thr < np_percentile np (snd pv) 90)"

lemma update_baseline_storming:
  "storming np cfg rows pv \<Longrightarrow> update_baseline np cfg ts pv rows = rows"
  by (auto simp: storming_def baseline_threshold_def update_baseline_def Let_def split: option.splits if_splits)

lemma update_baseline_distinct:
  "distinct (map baseline_key rows) \<Longrightarrow> distinct (map baseline_key (update_baseline np cfg ts pv rows))"
  using base_tbl.select_None_iff [of "(stable_workload (fst pv), cf_signal cfg)" rows]
  by (auto simp: update_baseline_def Let_def base_tbl.keys_update split: option.splits)

lemma update_baselines_distinct:
  "distinct (map baseline_key rows) \<Longrightarrow> distinct (map baseline_key (update_baselines np cfg vs ts rows))"
  unfolding update_baselines_def
  by (induction vs arbitrary: rows) (auto intro: update_baseline_distinct)

lemma update_baseline_other:
  assumes "distinct (map baseline_key rows)" "k \<noteq> (stable_workload (fst pv), cf_signal cfg)"
  shows "tbl_select baseline_key k (update_baseline np cfg ts pv rows) = tbl_select baseline_key k rows"
proof -
  have "tbl_select baseline_key k (rows @ [r]) = tbl_select baseline_key k rows" if "baseline_key r \<noteq> k" for r
    using that by (induction rows) (auto simp: tbl_select_def)
  with assms show ?thesis
    by (auto simp: update_baseline_def Let_def base_tbl.select_update split: option.splits)
qed

text \<open>What a learning update does to the row of its workload.\<close>

lemma update_baseline_learns:
  assumes d: "distinct (map baseline_key rows)" and n: "12 \<le> length (snd pv)" and s: "\<not> storming np cfg rows pv"
  shows "\<exists>r. tbl_select baseline_key (stable_workload (fst pv), cf_signal cfg) (update_baseline np cfg ts pv rows) = Some r \<and>
    b_n r = (case tbl_select baseline_key (stable_workload (fst pv), cf_signal cfg) rows of None \<Rightarrow> 1 | Some r \<Rightarrow> b_n r + 1)"
proof (cases "tbl_select baseline_key (stable_workload (fst pv), cf_signal cfg) rows")
  case None
  then have "tbl_select baseline_key (stable_workload (fst pv), cf_signal cfg) (rows @ [r]) = Some r"
    if "baseline_key r = (stable_workload (fst pv), cf_signal cfg)" for r
    using that unfolding tbl_select_def by (induction rows) auto
  with None n show ?thesis by (simp add: update_baseline_def Let_def)
next
  case (Some r)
  with n s show ?thesis
    by (auto simp: update_baseline_def Let_def storming_def baseline_threshold_def base_tbl.select_update [OF d]
        split: if_splits)
qed


definition mature_row :: baseline_row where
  "mature_row = \<lparr>b_workload = ''timescaledb'', b_signal = ''psi_io'', b_median = 2/100, b_mad = 1/200,
     b_n = 40, b_updated = 0\<rparr>"

lemma mature_threshold: "baseline_threshold default_config [mature_row] ''timescaledb'' = Some (6/100)"
  by (simp add: baseline_threshold_def tbl_select_def baseline_key_def mature_row_def default_config_def)

lemma storm_percentile: "6/100 < np_percentile ref_np (replicate 20 (1/2)) 90"
proof -
  have "1/2 \<le> np_percentile ref_np (replicate 20 (1/2)) 90" by (rule ref.percentile_ge) simp_all
  then show ?thesis by simp
qed


section \<open>Learning and the deviation gate\<close>

text \<open>The pipeline's gate, called with the thresholds of the learned baselines over the whole ring.\<close>

definition gated_args :: "memory_config \<Rightarrow> baseline_row list \<Rightarrow> pass_args \<Rightarrow> pass_args" where
  "gated_args cfg rows a =
     a\<lparr>pa_baselines := Some (\<lambda>p. baseline_threshold cfg rows (stable_workload p)), pa_recent := 0\<rparr>"



section \<open>Maturity\<close>

definition learned_updates :: "memory_config \<Rightarrow> string \<Rightarrow> baseline_row list \<Rightarrow> nat" where
  "learned_updates cfg wl rows =
     (case tbl_select baseline_key (wl, cf_signal cfg) rows of None \<Rightarrow> 0 | Some r \<Rightarrow> b_n r)"

lemma update_baseline_count:
  "distinct (map baseline_key rows) \<Longrightarrow> learned_updates cfg wl (update_baseline np cfg ts pv rows)
     \<le> learned_updates cfg wl rows + (if stable_workload (fst pv) = wl then 1 else 0)"
proof (cases "stable_workload (fst pv) = wl")
  case True
  assume d: "distinct (map baseline_key rows)"
  consider "length (snd pv) < 12" | "storming np cfg rows pv" | "12 \<le> length (snd pv)" "\<not> storming np cfg rows pv" by linarith
  then show ?thesis
  proof cases
    case 1
    then show ?thesis by (simp add: update_baseline_def)
  next
    case 2
    then show ?thesis by (simp add: update_baseline_storming)
  next
    case 3
    from update_baseline_learns [OF d 3, of ts] True show ?thesis
      by (auto simp: learned_updates_def split: option.splits)
  qed
next
  case False
  assume d: "distinct (map baseline_key rows)"
  with False show ?thesis by (simp add: update_baseline_other learned_updates_def)
qed

text \<open>No verdict before maturity: until a workload without a baseline has been seen in
  \<open>base_min_n\<close> vectors it has no threshold, so none of its pods can be an incident.\<close>

theorem baseline_immature_silent:
  assumes "distinct (map baseline_key rows)"
    and "tbl_select baseline_key (wl, cf_signal cfg) rows = None"
    and "length (filter (\<lambda>pv. stable_workload (fst pv) = wl) (concat passes)) < cf_base_min_n cfg"
  shows "baseline_threshold cfg (foldl (\<lambda>rows vectors. update_baselines np cfg vectors ts rows) rows passes) wl = None"
proof -
  have flat: "foldl (\<lambda>rows vectors. update_baselines np cfg vectors ts rows) rows passes =
      foldl (\<lambda>rows pv. update_baseline np cfg ts pv rows) rows (concat passes)" for rows
    by (induction passes arbitrary: rows) (simp_all add: update_baselines_def)
  have count: "learned_updates cfg wl (foldl (\<lambda>rows pv. update_baseline np cfg ts pv rows) rows pvs) \<le>
      learned_updates cfg wl rows + length (filter (\<lambda>pv. stable_workload (fst pv) = wl) pvs)"
    if "distinct (map baseline_key rows)" for pvs rows
    using that
  proof (induction pvs arbitrary: rows)
    case (Cons pv pvs)
    from Cons.IH [OF update_baseline_distinct [OF Cons.prems], of np cfg ts pv]
      update_baseline_count [OF Cons.prems, of cfg wl np ts pv]
    show ?case by (cases "stable_workload (fst pv) = wl") simp_all
  qed simp
  from count [OF assms(1), of "concat passes"] assms(2,3) show ?thesis
    unfolding flat by (auto simp: baseline_threshold_def learned_updates_def split: option.split)
qed

theorem baseline_immature_silent_witness:
  "baseline_threshold default_config
     (foldl (\<lambda>rows vectors. update_baselines ref_np default_config vectors 5 rows) []
        (replicate 11 [(''timescaledb'', replicate 20 (1/2))])) ''timescaledb'' = None"
  by (rule baseline_immature_silent)
    (simp_all add: tbl_select_def default_config_def filter_concat concat_replicate_single stable_workload_def)

section \<open>Range\<close>

definition baseline_in :: "real \<Rightarrow> real \<Rightarrow> baseline_row \<Rightarrow> bool" where
  "baseline_in lo hi r \<longleftrightarrow> lo \<le> b_median r \<and> b_median r \<le> hi \<and> 0 \<le> b_mad r \<and> b_mad r \<le> hi - lo"

lemma update_baseline_in:
  assumes np: "numeric_library np" and a: "0 \<le> cf_base_alpha cfg" "cf_base_alpha cfg \<le> 1"
    and v: "\<forall>x \<in> set (snd pv). lo \<le> x \<and> x \<le> hi" and rows: "\<forall>r \<in> set rows. baseline_in lo hi r"
  shows "\<forall>r \<in> set (update_baseline np cfg ts pv rows). baseline_in lo hi r"
proof (cases "length (snd pv) < 12")
  case False
  let ?m = "np_median np (snd pv)" and ?k = "(stable_workload (fst pv), cf_signal cfg)"
  let ?d = "np_median np (map (\<lambda>x. \<bar>x - ?m\<bar>) (snd pv))"
  from False have ne: "snd pv \<noteq> []" by auto
  have m: "lo \<le> ?m" "?m \<le> hi"
    using v numeric_library.median_ge [OF np ne, of lo] numeric_library.median_le [OF np ne, of hi] by auto
  have d: "0 \<le> ?d" using numeric_library.median_ge [OF np, of "map (\<lambda>x. \<bar>x - ?m\<bar>) (snd pv)" 0] ne by simp
  have "\<forall>x \<in> set (map (\<lambda>x. \<bar>x - ?m\<bar>) (snd pv)). x \<le> hi - lo" using v m by (auto simp: abs_le_iff add_mono diff_mono)
  then have d2: "?d \<le> hi - lo"
    using numeric_library.median_le [OF np, of "map (\<lambda>x. \<bar>x - ?m\<bar>) (snd pv)" "hi - lo"] ne by simp
  show ?thesis
  proof (cases "tbl_select baseline_key ?k rows")
    case None
    with False rows m d d2 show ?thesis by (auto simp: update_baseline_def Let_def baseline_in_def)
  next
    case (Some row)
    then have row: "baseline_in lo hi row" using rows base_tbl.select_SomeD [OF Some] by blast
    have "lo \<le> (1 - cf_base_alpha cfg) * b_median row + cf_base_alpha cfg * ?m"
      "(1 - cf_base_alpha cfg) * b_median row + cf_base_alpha cfg * ?m \<le> hi"
      "0 \<le> (1 - cf_base_alpha cfg) * b_mad row + cf_base_alpha cfg * ?d"
      "(1 - cf_base_alpha cfg) * b_mad row + cf_base_alpha cfg * ?d \<le> hi - lo"
      using a m d d2 row by (auto simp: baseline_in_def intro!: convex_ge convex_le)
    with False Some rows show ?thesis
      by (auto simp: update_baseline_def Let_def baseline_in_def base_tbl.update_map)
  qed
qed (use rows in \<open>simp add: update_baseline_def\<close>)

text \<open>Baselines stay inside the observed range: if every sample ever seen lies between two
  bounds, so does every learned median, every MAD is between 0 and their distance, and every
  threshold that exists is at most the upper bound plus \<open>dev_k\<close> times that distance (or the
  MAD floor).\<close>

theorem baselines_in_range:
  assumes "numeric_library np" and "0 \<le> cf_base_alpha cfg" and "cf_base_alpha cfg \<le> 1" and "0 \<le> cf_dev_k cfg"
    and "\<forall>r \<in> set rows. baseline_in lo hi r"
    and "\<forall>vectors \<in> set passes. \<forall>(p, v) \<in> set vectors. \<forall>x \<in> set v. lo \<le> x \<and> x \<le> hi"
  shows "(\<forall>r \<in> set (foldl (\<lambda>rows vectors. update_baselines np cfg vectors ts rows) rows passes). baseline_in lo hi r) \<and>
    (\<forall>wl thr. baseline_threshold cfg (foldl (\<lambda>rows vectors. update_baselines np cfg vectors ts rows) rows passes) wl = Some thr \<longrightarrow>
       lo \<le> thr - cf_dev_k cfg * cf_mad_floor cfg \<and> thr \<le> hi + cf_dev_k cfg * max (hi - lo) (cf_mad_floor cfg))"
proof -
  let ?rows = "foldl (\<lambda>rows vectors. update_baselines np cfg vectors ts rows) rows passes"
  have pass: "\<forall>r \<in> set (update_baselines np cfg vs ts rows). baseline_in lo hi r"
    if "\<forall>r \<in> set rows. baseline_in lo hi r" "\<forall>(p, v) \<in> set vs. \<forall>x \<in> set v. lo \<le> x \<and> x \<le> hi" for vs rows
    using that
  proof (induction vs arbitrary: rows)
    case (Cons pv vs)
    have "\<forall>x \<in> set (snd pv). lo \<le> x \<and> x \<le> hi" using Cons.prems(2) by (cases pv) simp
    from update_baseline_in [OF assms(1-3) this Cons.prems(1), of ts] Cons.IH Cons.prems(2) show ?case
      by (simp add: update_baselines_def)
  qed (simp add: update_baselines_def)
  have all: "\<forall>r \<in> set ?rows. baseline_in lo hi r"
    using assms(5,6)
  proof (induction passes arbitrary: rows)
    case (Cons vs passes)
    then show ?case using pass [of rows vs] by simp
  qed simp
  moreover have "lo \<le> thr - cf_dev_k cfg * cf_mad_floor cfg \<and> thr \<le> hi + cf_dev_k cfg * max (hi - lo) (cf_mad_floor cfg)"
    if thr: "baseline_threshold cfg ?rows wl = Some thr" for wl thr
  proof -
    from thr obtain r where "tbl_select baseline_key (wl, cf_signal cfg) ?rows = Some r"
      and t: "thr = b_median r + cf_dev_k cfg * max (b_mad r) (cf_mad_floor cfg)"
      by (auto simp: baseline_threshold_def split: option.splits if_splits)
    from base_tbl.select_SomeD [OF this(1)] all have r: "baseline_in lo hi r" by blast
    have "cf_dev_k cfg * cf_mad_floor cfg \<le> cf_dev_k cfg * max (b_mad r) (cf_mad_floor cfg)"
      "cf_dev_k cfg * max (b_mad r) (cf_mad_floor cfg) \<le> cf_dev_k cfg * max (hi - lo) (cf_mad_floor cfg)"
      using assms(4) r by (auto intro!: mult_left_mono simp: baseline_in_def)
    with r show ?thesis by (auto simp: t baseline_in_def)
  qed
  ultimately show ?thesis by blast
qed

theorem baselines_in_range_witness:
  "list_all (\<lambda>r. b_median r = 1/2) (foldl (\<lambda>rows vectors. update_baselines ref_np default_config vectors 5 rows) []
        (replicate 50 [(''timescaledb'', replicate 20 (1/2))]))"
proof -
  have "\<forall>r \<in> set (foldl (\<lambda>rows vectors. update_baselines ref_np default_config vectors 5 rows) []
        (replicate 50 [(''timescaledb'', replicate 20 (1/2))])). baseline_in (1/2) (1/2) r"
    using baselines_in_range [OF ref.numeric_library_axioms, of default_config "[]" "1/2" "1/2"
        "replicate 50 [(''timescaledb'', replicate 20 (1/2))]" 5]
    by (simp add: default_config_def)
  then show ?thesis by (fastforce simp: baseline_in_def list_all_iff)
qed

end
