(* ===== verification/Case_Library.thy ===== *)
theory Case_Library
  imports Edge_Memory
begin

text \<open>
  \<open>correlation/engine/state.py\<close>, the case library: incidents whose ranked root is a real aggressor
  become cases; a near-identical incident folds into its case, a similar one joins its family.
  The fingerprint hash (sha1 of the JSON key, first 16 hex digits) is the parameter \<open>digest\<close>; the
  columns no code of the engine writes (scenario label, remediation, source, outcome, notes)
  are left out.  JSON columns hold the values they encode.
\<close>

definition SOURCE_EVIDENCE :: "string list" where "SOURCE_EVIDENCE = [''write'']"

definition jaccard :: "'a set \<Rightarrow> 'a set \<Rightarrow> real" where
  "jaccard a b =
     (if a = {} \<and> b = {} then 1 else real (card (a \<inter> b)) / real (card (a \<union> b)))"

record case_key =
  k_stressors :: "string list"
  k_victims :: "string list"
  k_signal :: string
  k_witness :: "string option"
  k_motif :: "(string \<times> string) list"

record case_row =
  c_id :: string
  c_key :: case_key
  c_lags :: "(string \<times> int) list"
  c_occurrences :: nat
  c_first_seen :: real
  c_last_seen :: real
  c_lead :: "real option"
  c_family :: "string option"

record observation =
  ob_ts :: real
  ob_case :: string
  ob_root :: string
  ob_victims :: "string list"
  ob_graph :: pass_graph

record library =
  lb_cases :: "case_row list"
  lb_observations :: "observation list"

datatype register = Recurrence | Variant | Novel

record case_info =
  ci_case :: string
  ci_family :: string
  ci_register :: register
  ci_sim :: real

interpretation case_tbl: keyed_table c_id "tbl_select c_id" "tbl_upsert c_id"
  "tbl_insert_ignore c_id" "tbl_update c_id"
  by (rule keyed_table_lists)

definition case_sim :: "case_key \<Rightarrow> case_row \<Rightarrow> real" where
  "case_sim fp crow =
     (if k_signal fp \<noteq> k_signal (c_key crow) \<or> or_empty (k_witness fp) \<noteq> or_empty (k_witness (c_key crow)) then 0
      else 40/100 * jaccard (set (k_victims fp)) (set (k_victims (c_key crow)))
         + 20/100 * jaccard (set (k_stressors fp)) (set (k_stressors (c_key crow)))
         + 40/100 * jaccard (set (k_motif fp)) (set (k_motif (c_key crow))))"

text \<open>The first entry of the counts sorted by \<open>(-count, tag)\<close>.\<close>

definition dominant_witness :: "('a) edge_scheme list \<Rightarrow> string option" where
  "dominant_witness edges =
     (let evs = filter (\<lambda>ev. ev \<notin> {''stat'', ''temporal'', ''write''}) (concat (map e_evidence edges))
      in min_by (\<lambda>ev. (- int (count_list evs ev), ev)) (remdups evs))"

definition mean_of :: "real list \<Rightarrow> real" where
  "mean_of xs = sum_list xs / real (length xs)"

definition lead_time :: "pass_graph \<Rightarrow> edge list \<Rightarrow> real option" where
  "lead_time g edges =
     (let etas = map (\<lambda>b. real_of_int (v_eta b)) (pg_blast g);
          lags = map (\<lambda>e. real_of_int (e_lag e)) (filter (\<lambda>e. e_lag e > 0) edges)
      in if etas \<noteq> [] then Some (mean_of etas)
         else if lags \<noteq> [] then Some (mean_of lags) else None)"

text \<open>The key of an incident, or nothing when the verdict is not rooted in a source or hits nobody.\<close>

definition workload_pair :: "('a) edge_scheme \<Rightarrow> string \<times> string" where
  "workload_pair e = (stable_workload (e_src e), stable_workload (e_dst e))"

definition incident_key :: "memory_config \<Rightarrow> pass_graph \<Rightarrow> case_key option" where
  "incident_key cfg g =
     (let roots = pg_ranking g; edges = pg_edges g in
      if roots = [] \<or> edges = [] then None
      else
        let start = stable_workload (rc_pod (hd roots)) in
        if \<not> list_ex (\<lambda>e. stable_workload (e_src e) = start \<and>
               list_ex (\<lambda>ev. ev \<in> set SOURCE_EVIDENCE) (e_evidence e)) edges then None
        else
          let hit = sorted_set (map (\<lambda>b. stable_workload (v_pod b))
                (filter (\<lambda>b. v_pod b \<noteq> [] \<and> stable_workload (v_pod b) \<noteq> start) (pg_blast g)));
              victims = (if hit \<noteq> [] then hit
                else sorted_set (filter (\<lambda>w. w \<noteq> start) (map (\<lambda>e. stable_workload (e_dst e)) edges)))
          in if victims = [] then None
             else Some \<lparr>k_stressors = [start], k_victims = victims, k_signal = cf_signal cfg,
               k_witness = dominant_witness edges, k_motif = sort (map workload_pair edges)\<rparr>)"

definition lag_structure :: "('a) edge_scheme list \<Rightarrow> (string \<times> int) list" where
  "lag_structure edges =
     dict_of_list (map (\<lambda>e. (stable_workload (e_src e) @ ''->'' @ stable_workload (e_dst e), e_lag e)) edges)"

text \<open>The scan for the nearest stored case: the first one of greatest positive similarity.\<close>

definition nearest_case :: "case_key \<Rightarrow> case_row list \<Rightarrow> case_row option \<times> real" where
  "nearest_case fp cases =
     foldl (\<lambda>(best, best_sim) crow. if case_sim fp crow > best_sim then (Some crow, case_sim fp crow)
         else (best, best_sim)) (None, 0) cases"

definition family_of :: "case_row \<Rightarrow> string" where
  "family_of c = (case c_family c of None \<Rightarrow> c_id c | Some f \<Rightarrow> if f = [] then c_id c else f)"

definition merged_lead :: "case_row \<Rightarrow> real option \<Rightarrow> real option" where
  "merged_lead best lead =
     (case (lead, c_lead best) of
        (Some l, Some old) \<Rightarrow> Some ((old * real (c_occurrences best) + l) / real (c_occurrences best + 1))
      | (None, old) \<Rightarrow> old
      | (Some l, None) \<Rightarrow> Some l)"

definition promote_case ::
    "(case_key \<Rightarrow> string) \<Rightarrow> memory_config \<Rightarrow> pass_graph \<Rightarrow> real \<Rightarrow> library \<Rightarrow> library \<times> case_info option" where
  "promote_case digest cfg g ts lb =
     (case incident_key cfg g of
        None \<Rightarrow> (lb, None)
      | Some k \<Rightarrow>
          let lead = lead_time g (pg_edges g);
              new_id = digest k;
              (best, best_sim) = nearest_case k (lb_cases lb);
              observe = (\<lambda>i. lb_observations lb @ [\<lparr>ob_ts = ts, ob_case = i, ob_root = hd (k_stressors k),
                 ob_victims = k_victims k, ob_graph = g\<rparr>]);
              insert_case = (\<lambda>fam. tbl_insert_ignore c_id \<lparr>c_id = new_id, c_key = k,
                 c_lags = lag_structure (pg_edges g), c_occurrences = 1, c_first_seen = ts, c_last_seen = ts,
                 c_lead = lead, c_family = Some fam\<rparr> (lb_cases lb));
              info = (\<lambda>i fam reg. Some \<lparr>ci_case = i, ci_family = fam, ci_register = reg,
                 ci_sim = py_round 3 best_sim\<rparr>)
          in (case best of
                None \<Rightarrow> (\<lparr>lb_cases = insert_case new_id, lb_observations = observe new_id\<rparr>, info new_id new_id Novel)
              | Some b \<Rightarrow>
                  if best_sim \<ge> cf_tau_merge cfg
                  then (\<lparr>lb_cases = tbl_update c_id (c_id b) (\<lambda>c. c\<lparr>c_occurrences := c_occurrences b + 1,
                             c_last_seen := ts, c_lead := merged_lead b lead\<rparr>) (lb_cases lb),
                         lb_observations = observe (c_id b)\<rparr>, info (c_id b) (family_of b) Recurrence)
                  else if best_sim \<ge> cf_tau_family cfg
                  then (\<lparr>lb_cases = insert_case (family_of b), lb_observations = observe new_id\<rparr>,
                        info new_id (family_of b) Variant)
                  else (\<lparr>lb_cases = insert_case new_id, lb_observations = observe new_id\<rparr>,
                        info new_id new_id Novel)))"

section \<open>Similarity\<close>

lemma jaccard_bounds:
  assumes "finite a" "finite b" shows "0 \<le> jaccard a b" "jaccard a b \<le> 1"
proof -
  have "card (a \<inter> b) \<le> card (a \<union> b)" using assms by (intro card_mono) auto
  then show "jaccard a b \<le> 1" by (auto simp: jaccard_def divide_le_eq_1)
qed (simp add: jaccard_def)

lemma jaccard_self [simp]: "finite a \<Longrightarrow> jaccard a a = 1"
  by (simp add: jaccard_def)

lemma jaccard_sym: "jaccard a b = jaccard b a"
  by (simp add: jaccard_def Int_commute Un_commute conj_commute)

lemma jaccard_1_iff:
  assumes "finite a" "finite b" shows "jaccard a b = 1 \<longleftrightarrow> a = b"
proof
  assume j: "jaccard a b = 1"
  show "a = b"
  proof (cases "a = {} \<and> b = {}")
    case False
    with assms have "card (a \<union> b) \<noteq> 0" by auto
    with j False have "card (a \<inter> b) = card (a \<union> b)" by (simp add: jaccard_def split: if_splits)
    with assms have "a \<inter> b = a \<union> b" by (intro card_subset_eq) auto
    then show ?thesis by blast
  qed simp
qed (use assms in simp)

text \<open>The similarity of an incident and a stored case is a share between 0 and 1; it is
  1 exactly when signal and witness agree and stressors, victims and directed motif are the same
  sets, and it is symmetric in the two fingerprints.\<close>

theorem case_sim_characterised:
  "0 \<le> case_sim fp c \<and> case_sim fp c \<le> 1 \<and>
   (case_sim fp c = 1 \<longleftrightarrow> k_signal fp = k_signal (c_key c) \<and>
      or_empty (k_witness fp) = or_empty (k_witness (c_key c)) \<and>
      set (k_victims fp) = set (k_victims (c_key c)) \<and> set (k_stressors fp) = set (k_stressors (c_key c)) \<and>
      set (k_motif fp) = set (k_motif (c_key c))) \<and>
   case_sim fp c = case_sim (c_key c) (c\<lparr>c_key := fp\<rparr>)"
proof -
  let ?v = "jaccard (set (k_victims fp)) (set (k_victims (c_key c)))"
  let ?s = "jaccard (set (k_stressors fp)) (set (k_stressors (c_key c)))"
  let ?m = "jaccard (set (k_motif fp)) (set (k_motif (c_key c)))"
  have b: "0 \<le> ?v" "?v \<le> 1" "0 \<le> ?s" "?s \<le> 1" "0 \<le> ?m" "?m \<le> 1"
    by (simp_all add: jaccard_bounds)
  let ?w = "40/100 * ?v + 20/100 * ?s + 40/100 * ?m"
  let ?same = "k_signal fp = k_signal (c_key c) \<and> or_empty (k_witness fp) = or_empty (k_witness (c_key c))"
  have sim: "case_sim fp c = (if ?same then ?w else 0)" by (simp add: case_sim_def)
  have w: "0 \<le> ?w" "?w \<le> 1" "?w = 1 \<longleftrightarrow> ?v = 1 \<and> ?s = 1 \<and> ?m = 1" using b by linarith+
  have "case_sim fp c = case_sim (c_key c) (c\<lparr>c_key := fp\<rparr>)"
    by (simp add: case_sim_def jaccard_sym eq_commute)
  moreover have "0 \<le> case_sim fp c" "case_sim fp c \<le> 1" using w unfolding sim by simp_all
  moreover have "case_sim fp c = 1 \<longleftrightarrow> ?same \<and> set (k_victims fp) = set (k_victims (c_key c)) \<and>
      set (k_stressors fp) = set (k_stressors (c_key c)) \<and> set (k_motif fp) = set (k_motif (c_key c))"
    unfolding sim using w(3) by (auto simp: jaccard_1_iff)
  ultimately show ?thesis by blast
qed


lemma case_sim_self: "c_key c = k \<Longrightarrow> case_sim k c = 1"
  by (simp add: case_sim_def)

lemma case_sim_le_1: "case_sim k c \<le> 1"
proof -
  let ?j = "\<lambda>f. jaccard (set (f k)) (set (f (c_key c)))"
  have "jaccard (set (k_victims k)) (set (k_victims (c_key c))) \<le> 1"
    "jaccard (set (k_stressors k)) (set (k_stressors (c_key c))) \<le> 1"
    "jaccard (set (k_motif k)) (set (k_motif (c_key c))) \<le> 1"
    by (simp_all add: jaccard_bounds)
  then show ?thesis by (simp add: case_sim_def)
qed

text \<open>The scan returns a case of the library that no other case beats.\<close>

lemma nearest_case_spec:
  "(fst (nearest_case k cs) = None \<longrightarrow> snd (nearest_case k cs) = 0) \<and>
   (\<forall>b. fst (nearest_case k cs) = Some b \<longrightarrow> b \<in> set cs \<and> snd (nearest_case k cs) = case_sim k b) \<and>
   0 \<le> snd (nearest_case k cs) \<and> (\<forall>c \<in> set cs. case_sim k c \<le> snd (nearest_case k cs))"
proof (induction cs rule: rev_induct)
  case (snoc c cs)
  obtain b s where n: "nearest_case k cs = (b, s)" by (cases "nearest_case k cs")
  have step: "nearest_case k (cs @ [c]) = (if case_sim k c > s then (Some c, case_sim k c) else (b, s))"
    using n by (simp add: nearest_case_def)
  show ?case
    using snoc.IH unfolding step n by (cases "case_sim k c > s") fastforce+
qed (simp add: nearest_case_def)

section \<open>The library invariant\<close>

definition case_ok :: "(case_key \<Rightarrow> string) \<Rightarrow> library \<Rightarrow> case_row \<Rightarrow> bool" where
  "case_ok digest lb c \<longleftrightarrow> c_id c = digest (c_key c) \<and> 1 \<le> c_occurrences c \<and>
     c_occurrences c = length (filter (\<lambda>x. ob_case x = c_id c) (lb_observations lb)) \<and>
     (\<exists>f \<in> set (lb_cases lb). c_id f = family_of c \<and> family_of f = c_id f)"

definition library_ok :: "(case_key \<Rightarrow> string) \<Rightarrow> library \<Rightarrow> bool" where
  "library_ok digest lb \<longleftrightarrow> distinct (map c_id (lb_cases lb)) \<and>
     (\<forall>c \<in> set (lb_cases lb). case_ok digest lb c) \<and>
     (\<forall>x \<in> set (lb_observations lb). ob_case x \<in> c_id ` set (lb_cases lb))"

lemma case_okD:
  "case_ok digest lb c \<Longrightarrow> c_id c = digest (c_key c)" "case_ok digest lb c \<Longrightarrow> 1 \<le> c_occurrences c"
  "case_ok digest lb c \<Longrightarrow> c_occurrences c = length (filter (\<lambda>x. ob_case x = c_id c) (lb_observations lb))"
  "case_ok digest lb c \<Longrightarrow> \<exists>f \<in> set (lb_cases lb). c_id f = family_of c \<and> family_of f = c_id f"
  unfolding case_ok_def by blast+

lemma library_okD: "library_ok digest lb \<Longrightarrow> c \<in> set (lb_cases lb) \<Longrightarrow> case_ok digest lb c"
  by (simp add: library_ok_def)

text \<open>The hash does not collide on the key at hand.\<close>

definition collision_free :: "(case_key \<Rightarrow> string) \<Rightarrow> library \<Rightarrow> case_key \<Rightarrow> bool" where
  "collision_free digest lb k \<longleftrightarrow> (\<forall>c \<in> set (lb_cases lb). digest (c_key c) = digest k \<longrightarrow> c_key c = k)"

lemma fresh_id:
  assumes "library_ok digest lb" "collision_free digest lb k" "snd (nearest_case k (lb_cases lb)) < 1"
  shows "digest k \<notin> c_id ` set (lb_cases lb)"
proof
  assume "digest k \<in> c_id ` set (lb_cases lb)"
  then obtain c where c: "c \<in> set (lb_cases lb)" "c_id c = digest k" by auto
  with assms(1,2) have "c_key c = k" by (auto simp: library_ok_def case_ok_def collision_free_def)
  with nearest_case_spec [of k "lb_cases lb"] c(1) case_sim_self [of c k] assms(3) show False by force
qed

lemma insert_case_ok:
  assumes ok: "library_ok digest lb" and fresh: "digest k \<notin> c_id ` set (lb_cases lb)"
    and new: "c_id c = digest k" "c_key c = k" "c_occurrences c = 1" "c_family c = Some fam"
    and fam: "fam = digest k \<or> (\<exists>f \<in> set (lb_cases lb). c_id f = fam \<and> family_of f = c_id f)"
    and ob: "ob_case x = digest k"
  shows "library_ok digest \<lparr>lb_cases = tbl_insert_ignore c_id c (lb_cases lb), lb_observations = lb_observations lb @ [x]\<rparr>"
proof -
  let ?lb = "\<lparr>lb_cases = tbl_insert_ignore c_id c (lb_cases lb), lb_observations = lb_observations lb @ [x]\<rparr>"
  have cases: "lb_cases ?lb = lb_cases lb @ [c]" using fresh new by (simp add: tbl_insert_ignore_def)
  have none: "filter (\<lambda>x. ob_case x = digest k) (lb_observations lb) = []"
    using ok fresh unfolding library_ok_def filter_empty_conv by metis
  have famc: "fam = digest k \<Longrightarrow> family_of c = digest k" "fam \<noteq> [] \<Longrightarrow> family_of c = fam" "fam = [] \<Longrightarrow> family_of c = digest k"
    using new by (simp_all add: family_of_def)
  have root: "\<exists>f \<in> set (lb_cases lb @ [c]). c_id f = family_of c \<and> family_of f = c_id f"
  proof (cases "family_of c = digest k")
    case True
    with new show ?thesis by auto
  next
    case False
    with fam famc show ?thesis by (cases "fam = []") auto
  qed
  have old: "case_ok digest ?lb d" if "d \<in> set (lb_cases lb)" for d
  proof -
    have "case_ok digest lb d" using ok that by (simp add: library_ok_def)
    moreover have "c_id d \<noteq> digest k" using fresh that by (metis imageI)
    ultimately show ?thesis unfolding case_ok_def cases using ob by auto
  qed
  have "case_ok digest ?lb c"
    using root new none ob unfolding case_ok_def cases by simp
  with old ok fresh new ob show ?thesis
    unfolding library_ok_def cases by auto
qed

lemma update_case_ok:
  assumes ok: "library_ok digest lb" and b: "b \<in> set (lb_cases lb)" and ob: "ob_case x = c_id b"
  shows "library_ok digest \<lparr>lb_cases = tbl_update c_id (c_id b) (\<lambda>c. c\<lparr>c_occurrences := c_occurrences b + 1,
      c_last_seen := ts, c_lead := l\<rparr>) (lb_cases lb), lb_observations = lb_observations lb @ [x]\<rparr>"
proof -
  let ?f = "\<lambda>c. c\<lparr>c_occurrences := c_occurrences b + 1, c_last_seen := ts, c_lead := l\<rparr>"
  let ?g = "\<lambda>c. if c_id c = c_id b then ?f c else c"
  let ?lb = "\<lparr>lb_cases = tbl_update c_id (c_id b) ?f (lb_cases lb), lb_observations = lb_observations lb @ [x]\<rparr>"
  have cases: "lb_cases ?lb = map ?g (lb_cases lb)" by (simp add: tbl_update_def)
  have id: "c_id (?g c) = c_id c" "c_key (?g c) = c_key c" "family_of (?g c) = family_of c" for c
    by (simp_all add: family_of_def split: option.split)
  have eq: "c = b" if "c \<in> set (lb_cases lb)" "c_id c = c_id b" for c
    using that b ok by (auto simp: library_ok_def distinct_map dest: inj_onD)
  have "case_ok digest ?lb (?g c)" if c: "c \<in> set (lb_cases lb)" for c
  proof -
    have okc: "case_ok digest lb c" using ok c by (simp add: library_ok_def)
    then obtain f where f: "f \<in> set (lb_cases lb)" "c_id f = family_of c" "family_of f = c_id f"
      by (auto simp: case_ok_def)
    have "\<exists>f \<in> set (lb_cases ?lb). c_id f = family_of (?g c) \<and> family_of f = c_id f"
    proof (intro bexI [of _ "?g f"] conjI)
      show "c_id (?g f) = family_of (?g c)" "family_of (?g f) = c_id (?g f)" unfolding id using f by simp_all
      show "?g f \<in> set (lb_cases ?lb)" unfolding cases using f(1) by simp
    qed
    moreover have "c_occurrences (?g c) = length (filter (\<lambda>x. ob_case x = c_id c) (lb_observations ?lb))"
      using okc eq [OF c] ob by (auto simp: case_ok_def)
    moreover have "1 \<le> c_occurrences (?g c)" using case_okD(2) [OF okc] by simp
    ultimately show ?thesis using okc unfolding case_ok_def id by simp
  qed
  then have "\<forall>c \<in> set (lb_cases ?lb). case_ok digest ?lb c" unfolding cases set_map by blast
  moreover have ids: "map c_id (lb_cases ?lb) = map c_id (lb_cases lb)" unfolding cases by (simp add: id)
  then have img: "c_id ` set (lb_cases ?lb) = c_id ` set (lb_cases lb)" by (metis set_map)
  moreover have "\<forall>y \<in> set (lb_observations ?lb). ob_case y \<in> c_id ` set (lb_cases ?lb)"
    unfolding img using ok b ob by (auto simp: library_ok_def)
  moreover have "distinct (map c_id (lb_cases ?lb))" unfolding ids using ok by (simp add: library_ok_def)
  ultimately show ?thesis unfolding library_ok_def by blast
qed

lemma promote_case_known:
  assumes "incident_key cfg g = Some k"
  shows "promote_case digest cfg g ts lb =
    (let (best, s) = nearest_case k (lb_cases lb);
         obs = (\<lambda>i. lb_observations lb @ [\<lparr>ob_ts = ts, ob_case = i, ob_root = hd (k_stressors k),
            ob_victims = k_victims k, ob_graph = g\<rparr>]);
         new = (\<lambda>fam. \<lparr>c_id = digest k, c_key = k, c_lags = lag_structure (pg_edges g), c_occurrences = 1,
            c_first_seen = ts, c_last_seen = ts, c_lead = lead_time g (pg_edges g), c_family = Some fam\<rparr>);
         opened = (\<lambda>fam reg. (\<lparr>lb_cases = tbl_insert_ignore c_id (new fam) (lb_cases lb), lb_observations = obs (digest k)\<rparr>,
            Some \<lparr>ci_case = digest k, ci_family = fam, ci_register = reg, ci_sim = py_round 3 s\<rparr>))
     in (case best of
           None \<Rightarrow> opened (digest k) Novel
         | Some b \<Rightarrow>
             if s \<ge> cf_tau_merge cfg
             then (\<lparr>lb_cases = tbl_update c_id (c_id b) (\<lambda>c. c\<lparr>c_occurrences := c_occurrences b + 1,
                       c_last_seen := ts, c_lead := merged_lead b (lead_time g (pg_edges g))\<rparr>) (lb_cases lb),
                    lb_observations = obs (c_id b)\<rparr>,
                   Some \<lparr>ci_case = c_id b, ci_family = family_of b, ci_register = Recurrence, ci_sim = py_round 3 s\<rparr>)
             else if s \<ge> cf_tau_family cfg then opened (family_of b) Variant else opened (digest k) Novel))"
  by (simp add: promote_case_def assms Let_def split: prod.split option.split)

lemma promote_case_ok:
  assumes ok: "library_ok digest lb" and cf: "\<forall>k. incident_key cfg g = Some k \<longrightarrow> collision_free digest lb k"
    and tau: "cf_tau_merge cfg \<le> 1"
  shows "library_ok digest (fst (promote_case digest cfg g ts lb))"
proof (cases "incident_key cfg g")
  case None
  with ok show ?thesis by (simp add: promote_case_def)
next
  case (Some k)
  obtain best s where n: "nearest_case k (lb_cases lb) = (best, s)" by (cases "nearest_case k (lb_cases lb)")
  note spec = nearest_case_spec [of k "lb_cases lb", unfolded n, simplified]
  show ?thesis
  proof (cases "\<exists>b. best = Some b \<and> s \<ge> cf_tau_merge cfg")
    case True
    then obtain b where b: "best = Some b" "s \<ge> cf_tau_merge cfg" by blast
    with spec have "b \<in> set (lb_cases lb)" by blast
    from update_case_ok [OF ok this] b show ?thesis
      by (simp add: promote_case_known [OF Some] n)
  next
    case False
    have "s < 1" using False spec tau by (cases best) force+
    with ok cf Some have fresh: "digest k \<notin> c_id ` set (lb_cases lb)"
      by (intro fresh_id) (simp_all add: n)
    have fam: "\<exists>f \<in> set (lb_cases lb). c_id f = family_of b \<and> family_of f = c_id f" if "best = Some b" for b
      using that spec case_okD(4) [OF library_okD [OF ok]] by blast
    show ?thesis
      using False fam
      by (auto simp: promote_case_known [OF Some] n split: option.split intro!: insert_case_ok [OF ok fresh])
  qed
qed

text \<open>C13 (invariant).  The library counts its incidents: starting from a consistent library, promotion keeps
  identifiers unique, every case's occurrence count equal to the number of observations filed
  under it, every observation filed under an existing case, and every family rooted in a case
  of the library that is its own family.  The insert that may be ignored never is, as long as
  the hash does not collide.\<close>

theorem promote_case_invariant:
  assumes "library_ok digest lb" and "\<forall>k. incident_key cfg g = Some k \<longrightarrow> collision_free digest lb k"
    and "cf_tau_merge cfg \<le> 1"
  shows "library_ok digest (fst (promote_case digest cfg g ts lb))"
  by (rule promote_case_ok [OF assms])

lemma incident_key_source:
  "incident_key cfg g = Some k \<Longrightarrow> pg_ranking g \<noteq> [] \<and>
     k_stressors k = [stable_workload (rc_pod (hd (pg_ranking g)))] \<and>
     (\<exists>e \<in> set (pg_edges g). stable_workload (e_src e) = stable_workload (rc_pod (hd (pg_ranking g))) \<and>
        ''write'' \<in> set (e_evidence e)) \<and>
     k_victims k \<noteq> [] \<and> stable_workload (rc_pod (hd (pg_ranking g))) \<notin> set (k_victims k)"
  by (auto simp: incident_key_def Let_def list_ex_iff SOURCE_EVIDENCE_def sorted_set_def split: if_splits)


definition hog_graph :: pass_graph where
  "hog_graph = \<lparr>pg_findings = [\<lparr>f_pod = ''timescaledb-0'', f_class = Shift, f_onset = 50, f_severity = 1, f_n_onsets = 1\<rparr>],
     pg_edges = [\<lparr>e_src = ''cooling-monitor-5d9c7b-x2x4z'', e_dst = ''timescaledb-0'', e_r = 9/10, e_lag = 5,
        e_evidence = [''write'', ''pvc'', ''temporal'']\<rparr>],
     pg_ranking = [\<lparr>rc_pod = ''cooling-monitor-5d9c7b-x2x4z'', rc_score = 1, rc_onset = None\<rparr>],
     pg_blast = [\<lparr>v_pod = ''timescaledb-0'', v_impact = 63/100, v_eta = 5\<rparr>],
     pg_pods = 2, pg_active = 1, pg_accepted = 1\<rparr>"

definition hog_key :: case_key where
  "hog_key = \<lparr>k_stressors = [''cooling-monitor''], k_victims = [''timescaledb-0''], k_signal = ''psi_io'',
     k_witness = Some ''pvc'', k_motif = [(''cooling-monitor'', ''timescaledb-0'')]\<rparr>"

lemma hog_incident: "incident_key default_config hog_graph = Some hog_key"
  by (simp add: incident_key_def hog_graph_def hog_key_def stable_workload_def list_ex_iff SOURCE_EVIDENCE_def
      sorted_set_def default_config_def dominant_witness_def workload_pair_def Let_def)

text \<open>A digest for the examples: the stressor's name.\<close>

definition name_digest :: "case_key \<Rightarrow> string" where
  "name_digest k = hd (k_stressors k)"

theorem promote_case_invariant_witness:
  "library_ok name_digest (fst (promote_case name_digest default_config hog_graph 7
     \<lparr>lb_cases = [], lb_observations = []\<rparr>))"
  by (rule promote_case_invariant) (simp_all add: library_ok_def collision_free_def default_config_def)

text \<open>Recognition: an incident with the fingerprint of a case in the library, met
  again under any threshold of at most 1, is a recurrence of similarity 1 - no case is
  added, whatever else the library holds.\<close>

theorem promote_case_recurs:
  assumes "incident_key cfg g = Some k" and "c \<in> set (lb_cases lb)" and "c_key c = k" and "cf_tau_merge cfg \<le> 1"
  shows "\<exists>info. snd (promote_case digest cfg g ts lb) = Some info \<and> ci_register info = Recurrence \<and>
    ci_sim info = 1 \<and> ci_case info \<in> c_id ` set (lb_cases lb) \<and>
    map c_id (lb_cases (fst (promote_case digest cfg g ts lb))) = map c_id (lb_cases lb)"
proof -
  obtain best s where n: "nearest_case k (lb_cases lb) = (best, s)" by (cases "nearest_case k (lb_cases lb)")
  note spec = nearest_case_spec [of k "lb_cases lb", unfolded n, simplified]
  have "1 \<le> s" using spec assms(2) case_sim_self [OF assms(3)] by force
  then obtain b where b: "best = Some b" "b \<in> set (lb_cases lb)" "s = case_sim k b" using spec by (cases best) auto
  with \<open>1 \<le> s\<close> case_sim_le_1 [of k b] have s: "s = 1" by simp
  have "map c_id (tbl_update c_id i (\<lambda>c. c\<lparr>c_occurrences := m, c_last_seen := t, c_lead := l\<rparr>) cs) = map c_id cs" for i m t l cs
    by (rule case_tbl.keys_update) simp
  with b s assms(4) show ?thesis by (simp add: promote_case_known [OF assms(1)] n)
qed

theorem promote_case_recurs_witness:
  "\<exists>info. snd (promote_case name_digest default_config hog_graph 9
     (fst (promote_case name_digest default_config hog_graph 7 \<lparr>lb_cases = [], lb_observations = []\<rparr>))) = Some info \<and>
     ci_register info = Recurrence"
proof -
  let ?lb = "fst (promote_case name_digest default_config hog_graph 7 \<lparr>lb_cases = [], lb_observations = []\<rparr>)"
  have "\<exists>c \<in> set (lb_cases ?lb). c_key c = hog_key"
    by (simp add: promote_case_known [OF hog_incident] nearest_case_def tbl_insert_ignore_def)
  then obtain c where "c \<in> set (lb_cases ?lb)" "c_key c = hog_key" by blast
  from promote_case_recurs [OF hog_incident this] show ?thesis by (force simp: default_config_def)
qed

end
