(* ===== verification/Memory_Json.thy ===== *)
theory Memory_Json
  imports Json_Text Case_Library
begin

text \<open>
  The JSON columns of the case table (\<open>engine/state.py\<close>).  \<open>Case_Library\<close> keeps the values; here they are the
  texts SQLite holds, written by \<open>_json\<close> and read by \<open>_load_json\<close>: the similarity computed from the texts is
  the one computed from the values, and the text that is hashed into a case id tells the keys apart.
\<close>

section \<open>What is stored\<close>

definition string_list :: "string list \<Rightarrow> json" where
  "string_list xs = JArr (map JStr xs)"

definition motif_json :: "(string \<times> string) list \<Rightarrow> json" where
  "motif_json m = JArr (map (\<lambda>(s, d). JObj [(''src'', JStr s), (''dst'', JStr d)]) m)"

definition key_json :: "case_key \<Rightarrow> json" where
  "key_json k = JObj [(''stressors'', string_list (k_stressors k)), (''victims'', string_list (k_victims k)),
     (''signal'', JStr (k_signal k)),
     (''witness_kind'', (case k_witness k of None \<Rightarrow> JNull | Some w \<Rightarrow> JStr w)),
     (''motif'', motif_json (k_motif k))]"

definition lag_json :: "(string \<times> int) list \<Rightarrow> json" where
  "lag_json l = JObj (map (\<lambda>(pair, lag). (pair, JNum (of_int lag))) l)"

text \<open>The id of a case: the first sixteen hex digits of the sha1 of the key's text.\<close>

definition fingerprint :: "(string \<Rightarrow> string) \<Rightarrow> (real \<Rightarrow> string) \<Rightarrow> case_key \<Rightarrow> string" where
  "fingerprint sha1 show k = take 16 (sha1 (py_json show (key_json k)))"

record text_row =
  tx_id :: string
  tx_key :: string
  tx_stressors :: string
  tx_victims :: string
  tx_signal :: string
  tx_witness :: "string option"
  tx_motif :: string
  tx_lags :: string

definition text_row_of :: "(real \<Rightarrow> string) \<Rightarrow> case_row \<Rightarrow> text_row" where
  "text_row_of show c =
     \<lparr>tx_id = c_id c, tx_key = py_json show (key_json (c_key c)),
      tx_stressors = py_json show (string_list (k_stressors (c_key c))),
      tx_victims = py_json show (string_list (k_victims (c_key c))),
      tx_signal = k_signal (c_key c), tx_witness = k_witness (c_key c),
      tx_motif = py_json show (motif_json (k_motif (c_key c))), tx_lags = py_json show (lag_json (c_lags c))\<rparr>"

section \<open>What is read\<close>

text \<open>\<open>set(v)\<close>: the elements of a list, the keys of an object, the characters of a string; an element that is
  itself a list or an object is not hashable.\<close>

definition hashable :: "json \<Rightarrow> bool" where
  "hashable v \<longleftrightarrow> (case v of JArr _ \<Rightarrow> False | JObj _ \<Rightarrow> False | _ \<Rightarrow> True)"

definition json_set :: "json \<Rightarrow> json set outcome" where
  "json_set v = (case v of
     JArr xs \<Rightarrow> if list_all hashable xs then Ret (set xs) else Raise (OtherError ''TypeError'')
   | JObj kvs \<Rightarrow> Ret (JStr ` fst ` set kvs)
   | JStr s \<Rightarrow> Ret ((\<lambda>c. JStr [c]) ` set s)
   | _ \<Rightarrow> Raise (OtherError ''TypeError''))"

definition json_item :: "string \<Rightarrow> json \<Rightarrow> json outcome" where
  "json_item k v = (case v of
     JObj kvs \<Rightarrow> (case map_of kvs k of None \<Rightarrow> Raise KeyError | Some x \<Rightarrow> Ret x)
   | _ \<Rightarrow> Raise (OtherError ''TypeError''))"

fun motif_pairs :: "json list \<Rightarrow> (json \<times> json) set outcome" where
  "motif_pairs [] = Ret {}"
| "motif_pairs (m # ms) =
     and_then (json_item ''src'' m) (\<lambda>s. and_then (json_item ''dst'' m) (\<lambda>d.
       if hashable s \<and> hashable d then and_then (motif_pairs ms) (\<lambda>rest. Ret (insert (s, d) rest))
       else Raise (OtherError ''TypeError'')))"

definition json_items :: "json \<Rightarrow> json list outcome" where
  "json_items v = (case v of
     JArr xs \<Rightarrow> Ret xs | JObj kvs \<Rightarrow> Ret (map (\<lambda>kv. JStr (fst kv)) kvs) | JStr s \<Rightarrow> Ret (map (\<lambda>c. JStr [c]) s)
   | _ \<Rightarrow> Raise (OtherError ''TypeError''))"

definition text_case_sim :: "case_key \<Rightarrow> text_row \<Rightarrow> real outcome" where
  "text_case_sim fp crow =
     (if k_signal fp \<noteq> tx_signal crow \<or> or_empty (k_witness fp) \<noteq> or_empty (tx_witness crow) then Ret 0
      else and_then (json_set (load_json (Some (tx_victims crow)) (JArr []))) (\<lambda>cv.
        and_then (json_set (load_json (Some (tx_stressors crow)) (JArr []))) (\<lambda>cs.
        and_then (and_then (json_items (load_json (Some (tx_motif crow)) (JArr []))) motif_pairs) (\<lambda>cm.
          Ret (40/100 * jaccard (JStr ` set (k_victims fp)) cv + 20/100 * jaccard (JStr ` set (k_stressors fp)) cs
            + 40/100 * jaccard ((\<lambda>(s, d). (JStr s, JStr d)) ` set (k_motif fp)) cm)))))"

section \<open>The texts are faithful\<close>

lemma printable_texts [simp]:
  "printable p (string_list xs)" "printable p (motif_json m)" "printable p (key_json k)"
  by (auto simp: string_list_def motif_json_def key_json_def list_all_iff split: option.split)

lemma ordered_string_list [simp]: "ordered b (string_list xs) = string_list xs"
  by (induction xs) (simp_all add: string_list_def)

text \<open>Sorting puts \<open>dst\<close> before \<open>src\<close>.\<close>

definition sorted_motif :: "(string \<times> string) list \<Rightarrow> json" where
  "sorted_motif m = JArr (map (\<lambda>(s, d). JObj [(''dst'', JStr d), (''src'', JStr s)]) m)"

lemma ordered_motif: "ordered True (motif_json m) = sorted_motif m"
  by (induction m) (auto simp: motif_json_def sorted_motif_def ordered_JObj sort_key_def)

lemma motif_pairs_sorted:
  "and_then (json_items (sorted_motif m)) motif_pairs = Ret ((\<lambda>(s, d). (JStr s, JStr d)) ` set m)"
proof -
  have [simp]: "hashable (JStr t)" for t by (simp add: hashable_def)
  have [simp]: "json_item ''src'' (JObj [(''dst'', y), (''src'', x)]) = Ret x"
    "json_item ''dst'' (JObj [(''dst'', y), (''src'', x)]) = Ret y" for x y
    by (simp_all add: json_item_def)
  have "motif_pairs (map (\<lambda>(s, d). JObj [(''dst'', JStr d), (''src'', JStr s)]) m) = Ret ((\<lambda>(s, d). (JStr s, JStr d)) ` set m)"
    by (induction m) (auto simp del: and_then_Ret_iff)
  then show ?thesis by (simp add: sorted_motif_def json_items_def)
qed

lemma json_set_string_list: "json_set (string_list xs) = Ret (JStr ` set xs)"
  by (auto simp: string_list_def json_set_def hashable_def list_all_iff)

lemma jaccard_image: "inj f \<Longrightarrow> jaccard (f ` A) (f ` B) = jaccard A B"
  by (simp add: jaccard_def card_image inj_on_subset flip: image_Int image_Un)

lemma inj_motif: "inj (\<lambda>(s, d). (JStr s, JStr d))"
  by (auto simp: inj_def)

lemma text_case_sim_text: "text_case_sim fp (text_row_of show c) = Ret (case_sim fp c)"
proof -
  have "load_json (Some (py_json show (string_list xs))) (JArr []) = string_list xs" for xs
    by (simp add: load_json_py_json)
  moreover have "load_json (Some (py_json show (motif_json m))) (JArr []) = sorted_motif m" for m
    by (simp add: load_json_py_json ordered_motif)
  moreover obtain ms where "json_items (sorted_motif (k_motif (c_key c))) = Ret ms"
    "motif_pairs ms = Ret ((\<lambda>(s, d). (JStr s, JStr d)) ` set (k_motif (c_key c)))"
    using motif_pairs_sorted [of "k_motif (c_key c)"] by auto
  ultimately show ?thesis
    by (simp add: text_case_sim_def text_row_of_def case_sim_def json_set_string_list
        jaccard_image jaccard_image [OF inj_motif] inj_def)
qed

lemma loads_py_json: "printable (compact show) v \<Longrightarrow> loads (py_json show v) = Ret (ordered True v)"
  using compact.loads_dumps [of "show" v] by (simp add: py_json_def compact_def)

lemma string_list_inject [simp]: "string_list xs = string_list ys \<longleftrightarrow> xs = ys"
  by (simp add: string_list_def inj_map_eq_map inj_def)

lemma sorted_motif_inject [simp]: "sorted_motif m = sorted_motif m' \<longleftrightarrow> m = m'"
proof -
  have "inj (\<lambda>(s, d). JObj [(''dst'', JStr d), (''src'', JStr s)])" by (auto simp: inj_def)
  from inj_map_eq_map [OF this] show ?thesis by (simp add: sorted_motif_def)
qed

lemma ordered_key_json:
  "ordered True (key_json k) = JObj [(''motif'', sorted_motif (k_motif k)), (''signal'', JStr (k_signal k)),
     (''stressors'', string_list (k_stressors k)), (''victims'', string_list (k_victims k)),
     (''witness_kind'', (case k_witness k of None \<Rightarrow> JNull | Some w \<Rightarrow> JStr w))]"
  by (simp add: key_json_def ordered_JObj sort_key_def ordered_motif split: option.split)

lemma key_text_inject: "py_json show (key_json k) = py_json show (key_json k') \<longleftrightarrow> k = k'"
proof
  assume "py_json show (key_json k) = py_json show (key_json k')"
  then have "ordered True (key_json k) = ordered True (key_json k')"
    using loads_py_json [of "show" "key_json k"] loads_py_json [of "show" "key_json k'"] by simp
  then show "k = k'"
    by (cases k; cases k') (auto simp: ordered_key_json split: option.splits)
qed simp



text \<open>So the ids collide only if sha1 does on the texts at hand, and the invariant of the library holds of the
  program's own fingerprint.\<close>

lemma fingerprint_collision_free:
  assumes "inj_on (\<lambda>t. take 16 (sha1 t)) (insert (py_json show (key_json k)) ((\<lambda>c. py_json show (key_json (c_key c))) ` set (lb_cases lb)))"
  shows "collision_free (fingerprint sha1 show) lb k"
  unfolding collision_free_def fingerprint_def
proof (intro ballI impI)
  fix c
  assume "c \<in> set (lb_cases lb)" and "take 16 (sha1 (py_json show (key_json (c_key c)))) = take 16 (sha1 (py_json show (key_json k)))"
  then have "py_json show (key_json (c_key c)) = py_json show (key_json k)" 
    by (intro inj_onD [OF assms, of "py_json show (key_json (c_key c))"] insertI1 insertI2 imageI)
  then show "c_key c = k" by (simp only: key_text_inject)
qed

text \<open>A column that cannot be read counts as empty.\<close>

lemma text_case_sim_unreadable:
  assumes "\<nexists>v. loads s = Ret v" and "k_signal fp = tx_signal row" and "or_empty (k_witness fp) = or_empty (tx_witness row)"
  shows "text_case_sim fp (row\<lparr>tx_victims := s, tx_stressors := s, tx_motif := s\<rparr>) =
    Ret (40/100 * jaccard (set (k_victims fp)) {} + 20/100 * jaccard (set (k_stressors fp)) {}
      + 40/100 * jaccard (set (k_motif fp)) {})"
  using assms jaccard_image [of JStr _ "{}"] jaccard_image [OF inj_motif, of _ "{}"]
  by (simp add: text_case_sim_def load_json_default(3) json_set_def json_items_def inj_def)

end
