(* ===== verification/Belief_Map.thy ===== *)
theory Belief_Map
  imports Edge_Memory
begin

text \<open>
  The abstract specification of the edge memory: a partial map from a directed, signal-tagged pair
  of workloads to a belief, with one map operation per operation of the table.  The table of
  \<open>state.py\<close>, with its rowids, replacements and loops of updates, refines it: looking a key up
  after a pass is the abstract pass on what the keys held before.
\<close>

type_synonym beliefs = "edge_id \<rightharpoonup> edge_row"

definition beliefs_of :: "edge_row list \<Rightarrow> beliefs" where
  "beliefs_of rows = (\<lambda>k. tbl_select edge_key k rows)"

definition pair_id :: "memory_config \<Rightarrow> string \<times> string \<Rightarrow> edge_id" where
  "pair_id cfg p = (min (stable_workload (fst p)) (stable_workload (snd p)),
     max (stable_workload (fst p)) (stable_workload (snd p)), cf_signal cfg)"

definition edge_id_of :: "memory_config \<Rightarrow> ('a) edge_scheme \<Rightarrow> edge_id" where
  "edge_id_of cfg e = (stable_workload (e_src e), stable_workload (e_dst e), cf_signal cfg)"

definition fresh_belief :: "memory_config \<Rightarrow> real \<Rightarrow> edge_id \<Rightarrow> edge_row" where
  "fresh_belief cfg ts k = \<lparr>er_src = fst k, er_dst = fst (snd k), er_signal = snd (snd k),
     er_confidence = cf_prior cfg, er_r = 0, er_lag = 0, er_evidence = [''pvc''], er_hits = 0,
     er_visible = False, er_state = Steady, er_first_seen = ts, er_last_seen = ts, er_updated = ts,
     er_base_conf = cf_prior cfg\<rparr>"

definition seed_belief :: "memory_config \<Rightarrow> string set \<Rightarrow> real \<Rightarrow> string \<times> string \<Rightarrow> beliefs \<Rightarrow> beliefs" where
  "seed_belief cfg present ts p m =
     (let a = stable_workload (fst p); b = stable_workload (snd p); k = pair_id cfg p
      in if a = b \<or> a \<notin> present \<or> b \<notin> present then m
         else m(k \<mapsto> (case m k of None \<Rightarrow> fresh_belief cfg ts k
                | Some r \<Rightarrow> r\<lparr>er_base_conf := max (er_base_conf r) (cf_prior cfg)\<rparr>)))"

text \<open>Evidence moves the confidence the fraction alpha of the way to certainty.\<close>

definition strengthened :: "memory_config \<Rightarrow> real \<Rightarrow> ('a) edge_scheme \<Rightarrow> edge_row option \<Rightarrow> edge_row" where
  "strengthened cfg ts e prev =
     (let c0 = (case prev of None \<Rightarrow> 0 | Some r \<Rightarrow> er_confidence r);
          c = c0 + cf_alpha cfg * (1 - c0);
          vis = ((case prev of None \<Rightarrow> False | Some r \<Rightarrow> er_visible r) \<or> cf_show cfg \<le> c)
      in \<lparr>er_src = stable_workload (e_src e), er_dst = stable_workload (e_dst e), er_signal = cf_signal cfg,
          er_confidence = c, er_r = e_r e, er_lag = e_lag e, er_evidence = e_evidence e,
          er_hits = (case prev of None \<Rightarrow> 0 | Some r \<Rightarrow> er_hits r) + 1, er_visible = vis,
          er_state = (if vis then Active else Confirming),
          er_first_seen = (case prev of None \<Rightarrow> ts | Some r \<Rightarrow> er_first_seen r),
          er_last_seen = ts, er_updated = ts,
          er_base_conf = max (case prev of None \<Rightarrow> 0 | Some r \<Rightarrow> er_base_conf r) (cf_floor_frac cfg * c)\<rparr>)"

definition confirm_belief :: "memory_config \<Rightarrow> real \<Rightarrow> ('a) edge_scheme \<Rightarrow> beliefs \<Rightarrow> beliefs" where
  "confirm_belief cfg ts e m = m(edge_id_of cfg e \<mapsto> strengthened cfg ts e (m (edge_id_of cfg e)))"

definition fade_beliefs :: "memory_config \<Rightarrow> edge_id set \<Rightarrow> string set \<Rightarrow> real \<Rightarrow> beliefs \<Rightarrow> beliefs" where
  "fade_beliefs cfg seen present ts m =
     (\<lambda>k. map_option (\<lambda>r. if snd (snd k) = cf_signal cfg \<and> k \<notin> seen \<and> fst k \<in> present \<and> fst (snd k) \<in> present
                          then decay_row cfg ts r else r) (m k))"

definition pass_beliefs ::
    "memory_config \<Rightarrow> witness option \<Rightarrow> string set \<Rightarrow> real \<Rightarrow> ('a) edge_scheme list \<Rightarrow> beliefs \<Rightarrow> beliefs" where
  "pass_beliefs cfg w present ts edges m =
     fade_beliefs cfg (edge_id_of cfg ` set edges) present ts
       (fold (confirm_belief cfg ts) edges
         (case w of None \<Rightarrow> m | Some w \<Rightarrow> fold (seed_belief cfg present ts) (w_shared w) m))"

section \<open>The table refines the map\<close>

lemma select_snoc:
  "tbl_select key k (rows @ [r]) = (case tbl_select key k rows of None \<Rightarrow> if key r = k then Some r else None | Some x \<Rightarrow> Some x)"
  by (induction rows) (auto simp: tbl_select_def)

lemma beliefs_of_key: "beliefs_of rows k = Some r \<Longrightarrow> edge_key r = k"
  unfolding beliefs_of_def by (drule edge_tbl.select_SomeD) (rule conjunct2)

lemma seed_pair_refines:
  assumes "distinct (map edge_key rows)" and prior: "0 \<le> cf_prior cfg"
  shows "beliefs_of (seed_pair cfg present ts p rows) = seed_belief cfg present ts p (beliefs_of rows)"
proof (rule ext)
  fix k
  let ?a = "stable_workload (fst p)" and ?b = "stable_workload (snd p)"
  have mm: "(min ?a ?b \<notin> present \<or> max ?a ?b \<notin> present) = (?a \<notin> present \<or> ?b \<notin> present)"
    by (auto simp: min_def max_def)
  consider (none) "?a = ?b \<or> ?a \<notin> present \<or> ?b \<notin> present"
    | (new) "\<not> (?a = ?b \<or> ?a \<notin> present \<or> ?b \<notin> present)" "tbl_select edge_key (pair_id cfg p) rows = None"
    | (old) r where "\<not> (?a = ?b \<or> ?a \<notin> present \<or> ?b \<notin> present)" "tbl_select edge_key (pair_id cfg p) rows = Some r"
    by (cases "tbl_select edge_key (pair_id cfg p) rows") auto
  then show "beliefs_of (seed_pair cfg present ts p rows) k = seed_belief cfg present ts p (beliefs_of rows) k"
  proof cases
    case none
    then show ?thesis using mm by (auto simp: seed_pair_def seed_belief_def Let_def)
  next
    case new
    then have "seed_pair cfg present ts p rows = rows @ [fresh_belief cfg ts (pair_id cfg p)]"
      using mm by (simp add: seed_pair_def Let_def pair_id_def fresh_belief_def)
    moreover have "edge_key (fresh_belief cfg ts (pair_id cfg p)) = pair_id cfg p"
      by (simp add: fresh_belief_def)
    ultimately show ?thesis
      using new by (auto simp: beliefs_of_def seed_belief_def Let_def select_snoc split: option.split)
  next
    case old
    then have "seed_pair cfg present ts p rows = (if er_base_conf r < cf_prior cfg
        then tbl_update edge_key (pair_id cfg p) (\<lambda>r. r\<lparr>er_base_conf := cf_prior cfg\<rparr>) rows else rows)"
      using mm by (simp add: seed_pair_def Let_def pair_id_def)
    with old show ?thesis
      by (auto simp: beliefs_of_def seed_belief_def Let_def edge_tbl.select_update [OF assms(1)] max_def)
  qed
qed

lemma confirm_edge_refines:
  assumes "distinct (map edge_key rows)"
  shows "beliefs_of (confirm_edge cfg ts e rows) = confirm_belief cfg ts e (beliefs_of rows)"
proof -
  have "confirm_edge cfg ts e rows = tbl_upsert edge_key (strengthened cfg ts e (beliefs_of rows (edge_id_of cfg e))) rows"
    by (simp add: confirm_edge_def strengthened_def beliefs_of_def edge_id_of_def Let_def split: option.split)
  moreover have "edge_key (strengthened cfg ts e prev) = edge_id_of cfg e" for prev
    by (simp add: strengthened_def Let_def edge_id_of_def)
  ultimately show ?thesis
    by (auto simp: fun_eq_iff beliefs_of_def confirm_belief_def edge_tbl.select_upsert [OF assms])
qed

lemma decay_absent_refines:
  assumes "distinct (map edge_key rows)"
  shows "beliefs_of (decay_absent_edges cfg seen present ts rows) = fade_beliefs cfg seen present ts (beliefs_of rows)"
proof (rule ext)
  fix k
  let ?f = "\<lambda>r. if decays cfg seen present r then decay_row cfg ts r else r"
  have "tbl_select edge_key k (map ?f rs) = map_option ?f (tbl_select edge_key k rs)" for rs
    by (induction rs) (simp_all add: tbl_select_def)
  then have "beliefs_of (decay_absent_edges cfg seen present ts rows) k = map_option ?f (beliefs_of rows k)"
    by (simp add: beliefs_of_def decay_absent_map [OF assms])
  also have "\<dots> = fade_beliefs cfg seen present ts (beliefs_of rows) k"
    using beliefs_of_key [of rows k] by (cases "beliefs_of rows k") (auto simp: fade_beliefs_def decays_def edge_key_def)
  finally show "beliefs_of (decay_absent_edges cfg seen present ts rows) k =
      fade_beliefs cfg seen present ts (beliefs_of rows) k" .
qed

text \<open>C17 (refinement).  The SQL table implements the map of beliefs: under unique keys and a prior that
  is not negative, looking any key up after a pass of the memory gives what the abstract pass
  gives on the lookups before it.\<close>

theorem edge_pass_refines:
  assumes "distinct (map edge_key rows)" and "0 \<le> cf_prior cfg"
  shows "beliefs_of (edge_pass cfg w present ts edges rows) = pass_beliefs cfg w present ts edges (beliefs_of rows)"
proof -
  let ?seed = "\<lambda>rows p. seed_pair cfg present ts p rows"
  let ?r1 = "case w of None \<Rightarrow> rows | Some w \<Rightarrow> seed_structural cfg w present ts rows"
  let ?m1 = "case w of None \<Rightarrow> beliefs_of rows | Some w \<Rightarrow> fold (seed_belief cfg present ts) (w_shared w) (beliefs_of rows)"
  have "distinct (map edge_key (foldl ?seed rows ps)) \<and>
      beliefs_of (foldl ?seed rows ps) = fold (seed_belief cfg present ts) ps (beliefs_of rows)" for ps
    by (induction ps rule: rev_induct) (simp_all add: assms seed_pair_refines seed_pair_remembers)
  then have r1: "distinct (map edge_key ?r1)" "beliefs_of ?r1 = ?m1"
    using assms(1) by (auto simp: seed_structural_def split: option.split)
  have c: "distinct (map edge_key (foldl (\<lambda>rows e. confirm_edge cfg ts e rows) ?r1 es)) \<and>
      beliefs_of (foldl (\<lambda>rows e. confirm_edge cfg ts e rows) ?r1 es) = fold (confirm_belief cfg ts) es ?m1" for es
    by (induction es rule: rev_induct) (simp_all add: r1 confirm_edge_refines confirm_edge_distinct)
  note d = decay_absent_refines [OF conjunct1 [OF c [of edges]], where seen = "edge_id_of cfg ` set edges"
      and cfg = cfg and present = present and ts = ts]
  show ?thesis
    using d unfolding conjunct2 [OF c [of edges]] edge_pass_def pass_beliefs_def Let_def edge_id_of_def .
qed

theorem edge_pass_refines_witness:
  "map_option er_confidence (beliefs_of
     (edge_pass default_config None {''cooling-monitor'', ''timescaledb''} 30 ([] :: edge list) [old_row])
     (''cooling-monitor'', ''timescaledb'', ''psi_io'')) = Some (576/1000)"
  using edge_pass_refines [of "[old_row]" default_config None "{''cooling-monitor'', ''timescaledb''}" 30 "[] :: edge list"]
  by (simp add: pass_beliefs_def fade_beliefs_def beliefs_of_def tbl_select_def old_row_def default_config_def
      decay_row_def Let_def)
end
