(* ===== verification/Graph_Memory.thy ===== *)
theory Graph_Memory
  imports Baselines Case_Library
begin

text \<open>
  \<open>correlation/engine/state.py\<close>, the class \<open>GraphMemory\<close> as a whole: opening and migrating the
  database, one observation of a pass, the rendering of live and held edges, the statistics and
  the model and mistake tables.  \<open>time.time()\<close> is an argument; the file system and SQLite's own
  durability are outside the model.
\<close>

definition SCHEMA_VERSION :: string where "SCHEMA_VERSION = ''l3-memory-v5''"

record model_version =
  mv_ts :: real
  mv_component :: string
  mv_version :: string
  mv_params :: "string \<times> real list"
  mv_notes :: string

record mistake =
  mk_ts :: real
  mk_incident :: "string option"
  mk_predicted :: string
  mk_correction :: string
  mk_notes :: string
  mk_status :: string

text \<open>The two columns a table of an older schema may lack are flags.\<close>

record database =
  db_version :: "string option"
  db_has_base_conf :: bool
  db_has_family :: bool
  db_edges :: "edge_row list"
  db_library :: library
  db_snapshots :: "(real \<times> pass_graph) list"
  db_models :: "model_version list"
  db_mistakes :: "mistake list"
  db_baselines :: "baseline_row list"

definition empty_db :: database where
  "empty_db = \<lparr>db_version = None, db_has_base_conf = True, db_has_family = True, db_edges = [],
     db_library = \<lparr>lb_cases = [], lb_observations = []\<rparr>, db_snapshots = [], db_models = [],
     db_mistakes = [], db_baselines = []\<rparr>"

definition migrate :: "database \<Rightarrow> database" where
  "migrate db =
     (if db_version db = Some SCHEMA_VERSION then db
      else
        let db = (if db_version db = Some ''l3-memory-v1'' then db\<lparr>db_edges := []\<rparr> else db);
            db = (if db_has_base_conf db then db
              else db\<lparr>db_edges := map (\<lambda>r. r\<lparr>er_base_conf := 0\<rparr>) (db_edges db), db_has_base_conf := True\<rparr>);
            db = (if db_has_family db then db
              else db\<lparr>db_library := (db_library db)\<lparr>lb_cases :=
                     map (\<lambda>c. c\<lparr>c_family := Some (c_id c)\<rparr>) (lb_cases (db_library db))\<rparr>,
                  db_has_family := True\<rparr>)
        in db\<lparr>db_version := Some SCHEMA_VERSION\<rparr>)"

definition record_model_version ::
    "real \<Rightarrow> string \<Rightarrow> string \<Rightarrow> string \<times> real list \<Rightarrow> string \<Rightarrow> database \<Rightarrow> database" where
  "record_model_version now component version params notes db =
     db\<lparr>db_models := tbl_insert_ignore (\<lambda>m. (mv_component m, mv_version m, mv_params m))
        \<lparr>mv_ts = now, mv_component = component, mv_version = version, mv_params = params, mv_notes = notes\<rparr>
        (db_models db)\<rparr>"

definition record_mistake ::
    "real \<Rightarrow> string \<Rightarrow> string \<Rightarrow> string option \<Rightarrow> string \<Rightarrow> database \<Rightarrow> database" where
  "record_mistake now prediction correction incident_id notes db =
     db\<lparr>db_mistakes := db_mistakes db @ [\<lparr>mk_ts = now, mk_incident = incident_id, mk_predicted = prediction,
        mk_correction = correction, mk_notes = notes, mk_status = ''open''\<rparr>]\<rparr>"

definition open_memory :: "memory_config \<Rightarrow> real \<Rightarrow> database \<Rightarrow> database" where
  "open_memory cfg now db =
     record_model_version now ''edge-memory'' SCHEMA_VERSION
       (cf_signal cfg, [cf_alpha cfg, cf_decay cfg, cf_show cfg, cf_hide cfg])
       ''Persistent L3 memory: edge confidence, cases, model versions, mistakes.'' (migrate db)"

record memory_stats =
  ms_edge_memory :: nat
  ms_visible :: nat
  ms_cases :: nat
  ms_families :: nat
  ms_open_mistakes :: nat

definition stats :: "database \<Rightarrow> memory_stats" where
  "stats db =
     \<lparr>ms_edge_memory = length (db_edges db),
      ms_visible = length (filter er_visible (db_edges db)),
      ms_cases = length (lb_cases (db_library db)),
      ms_families = card (set (map (\<lambda>c. case c_family c of None \<Rightarrow> c_id c | Some f \<Rightarrow> f) (lb_cases (db_library db)))),
      ms_open_mistakes = length (filter (\<lambda>m. mk_status m = ''open'') (db_mistakes db))\<rparr>"

section \<open>Rendering\<close>

record rendered_graph =
  rg_findings :: "finding list"
  rg_edges :: "rendered_edge list"
  rg_ranking :: "ranked list"
  rg_blast :: "victim list"
  rg_pods :: nat
  rg_held :: nat
  rg_case :: "case_info option"
  rg_stats :: memory_stats

definition live_edge :: "memory_config \<Rightarrow> edge_row list \<Rightarrow> edge \<Rightarrow> rendered_edge" where
  "live_edge cfg rows e =
     (let blank = edge.extend e \<lparr>re_confidence = None, re_base_conf = None, re_state = None, re_hits = None,
            re_weight = None, re_last_seen = None, re_source = None, re_signal = None\<rparr>
      in (case tbl_select edge_key (stable_workload (e_src e), stable_workload (e_dst e), cf_signal cfg) rows of
            None \<Rightarrow> blank
          | Some row \<Rightarrow>
              let cf = py_round 3 (er_confidence row)
              in blank\<lparr>re_confidence := Some cf, re_state := Some (er_state row), re_hits := Some (er_hits row),
                   re_weight := Some cf, re_source := Some Live\<rparr>))"

text \<open>\<open>by_pair\<close>: the first strongest row of each unordered pair, in order of first appearance.\<close>

definition row_pair :: "edge_row \<Rightarrow> string \<times> string" where
  "row_pair r = (er_src r, er_dst r)"

definition choose_row :: "edge_row \<Rightarrow> edge_row list \<Rightarrow> edge_row list" where
  "choose_row = choose_by row_pair er_confidence"

definition held_rows :: "memory_config \<Rightarrow> pair_set \<Rightarrow> edge_row list \<Rightarrow> edge_row list" where
  "held_rows cfg live_pairs rows =
     foldl (\<lambda>by_pair row. choose_row row by_pair) []
       (filter (\<lambda>r. \<not> has_pair live_pairs (er_src r) (er_dst r))
         (filter (\<lambda>r. er_signal r = cf_signal cfg \<and> (er_visible r \<or> er_base_conf r > 0)) rows))"

definition held_edge :: "(string \<rightharpoonup> string) \<Rightarrow> real \<Rightarrow> edge_row \<Rightarrow> rendered_edge option" where
  "held_edge wl_pod now row =
     (case (wl_pod (er_src row), wl_pod (er_dst row)) of
        (Some src_pod, Some dst_pod) \<Rightarrow>
          let cf = py_round 3 (er_confidence row)
          in Some \<lparr>e_src = src_pod, e_dst = dst_pod, e_r = py_round 3 (er_r row), e_lag = er_lag row,
               e_evidence = er_evidence row, re_confidence = Some cf,
               re_base_conf = Some (py_round 3 (er_base_conf row)), re_state = Some (er_state row),
               re_hits = Some (er_hits row), re_weight = Some cf,
               re_last_seen = Some (py_round 1 (now - er_last_seen row)),
               re_source = Some Memory, re_signal = None\<rparr>
      | _ \<Rightarrow> None)"

definition current_pods :: "string list \<Rightarrow> string \<rightharpoonup> string" where
  "current_pods pods = map_of (rev (map (\<lambda>p. (stable_workload p, p)) pods))"

definition render_edges ::
    "memory_config \<Rightarrow> edge_row list \<Rightarrow> edge list \<Rightarrow> string list \<Rightarrow> real \<Rightarrow> rendered_edge list \<times> rendered_edge list" where
  "render_edges cfg rows edges pods now =
     (let live_pairs = map (\<lambda>e. (stable_workload (e_src e), stable_workload (e_dst e))) edges
      in (map (live_edge cfg rows) edges,
          List.map_filter (held_edge (current_pods pods) now) (held_rows cfg live_pairs rows)))"

definition render ::
    "'g nxlib \<Rightarrow> memory_config \<Rightarrow> database \<Rightarrow> pass_graph \<Rightarrow> string list \<Rightarrow> real \<Rightarrow> rendered_graph outcome" where
  "render nx cfg db g pods now =
     (let (live, held) = render_edges cfg (db_edges db) (pg_edges g) pods now;
          edges = live @ held;
          out = (\<lambda>ranking blast. Ret \<lparr>rg_findings = pg_findings g, rg_edges = edges, rg_ranking = ranking,
            rg_blast = blast, rg_pods = pg_pods g, rg_held = length held, rg_case = None, rg_stats = stats db\<rparr>)
      in if pg_findings g \<noteq> [] \<and> edges \<noteq> []
         then
           let gr = build_graph nx edges;
               seeds = map f_pod (pg_findings g);
               onset_s = map_of (rev (map (\<lambda>f. (f_pod f, f_onset f)) (pg_findings g)))
           in and_then (returned (rank_root_causes nx gr seeds onset_s TOP)) (\<lambda>ranking.
                and_then (case ranking of [] \<Rightarrow> Ret [] | r # _ \<Rightarrow> returned (blast_radius nx gr (rc_pod r))) (\<lambda>blast.
                  out ranking blast))
         else out (pg_ranking g) (pg_blast g))"

section \<open>Observation\<close>

definition observe_db ::
    "numlib \<Rightarrow> (case_key \<Rightarrow> string) \<Rightarrow> memory_config \<Rightarrow> pass_graph \<Rightarrow> vectors \<Rightarrow> witness option \<Rightarrow> real \<Rightarrow>
       database \<Rightarrow> database \<times> case_info option" where
  "observe_db np digest cfg g vectors w ts db =
     (let pods_present = (\<lambda>pv. stable_workload (fst pv)) ` set vectors;
          baselines = update_baselines np cfg vectors ts (db_baselines db);
          edges = edge_pass cfg w pods_present ts (pg_edges g) (db_edges db);
          (lib, info) = promote_case digest cfg g ts (db_library db);
          snapshots = (if pg_edges g \<noteq> [] then db_snapshots db @ [(ts, g)] else db_snapshots db)
      in (db\<lparr>db_baselines := baselines, db_edges := edges, db_library := lib, db_snapshots := snapshots\<rparr>, info))"

definition observe ::
    "numlib \<Rightarrow> 'g nxlib \<Rightarrow> (case_key \<Rightarrow> string) \<Rightarrow> memory_config \<Rightarrow> pass_graph \<Rightarrow> vectors \<Rightarrow> witness option \<Rightarrow>
       real \<Rightarrow> real \<Rightarrow> database \<Rightarrow> database \<times> rendered_graph outcome" where
  "observe np nx digest cfg g vectors w ts now db =
     (let (db', info) = observe_db np digest cfg g vectors w ts db
      in (db', and_then (render nx cfg db' g (map fst vectors) now) (\<lambda>rg. Ret (rg\<lparr>rg_case := info\<rparr>))))"

definition empty_graph :: pass_graph where
  "empty_graph = \<lparr>pg_findings = [], pg_edges = [], pg_ranking = [], pg_blast = [], pg_pods = 0,
     pg_active = 0, pg_accepted = 0\<rparr>"

definition bootstrap_graph :: "'g nxlib \<Rightarrow> memory_config \<Rightarrow> database \<Rightarrow> real \<Rightarrow> rendered_graph outcome" where
  "bootstrap_graph nx cfg db now = render nx cfg db empty_graph [] now"

section \<open>What the memory keeps true\<close>

text \<open>Everything the later operations rely on about a database.\<close>

definition edges_ok :: "memory_config \<Rightarrow> database \<Rightarrow> bool" where
  "edges_ok cfg db \<longleftrightarrow> memory_ok cfg (db_edges db) \<and> (\<forall>r \<in> set (db_edges db). \<bar>er_r r\<bar> \<le> 1)"

definition db_ok :: "(case_key \<Rightarrow> string) \<Rightarrow> memory_config \<Rightarrow> database \<Rightarrow> bool" where
  "db_ok digest cfg db \<longleftrightarrow> edges_ok cfg db \<and>
     library_ok digest (db_library db) \<and> distinct (map baseline_key (db_baselines db)) \<and>
     db_version db = Some SCHEMA_VERSION"

lemma db_ok_migrate: "db_ok digest cfg db \<Longrightarrow> migrate db = db"
  by (simp add: db_ok_def migrate_def)

lemma db_ok_open: "db_ok digest cfg db \<Longrightarrow> db_ok digest cfg (open_memory cfg now db)"
  unfolding open_memory_def db_ok_migrate by (simp add: db_ok_def edges_ok_def record_model_version_def)

lemma db_ok_fresh: "db_ok digest cfg (open_memory cfg now empty_db)"
  by (simp add: open_memory_def record_model_version_def migrate_def empty_db_def db_ok_def edges_ok_def memory_ok_def
      library_ok_def Let_def)

lemma db_ok_mistake: "db_ok digest cfg db \<Longrightarrow> db_ok digest cfg (record_mistake now p c i n db)"
  by (simp add: db_ok_def edges_ok_def record_mistake_def)

text \<open>Correlations stay correlations through a pass.\<close>

lemma observe_edges_ok:
  assumes "sane_config cfg" and "edges_ok cfg db" and "causal_edges (pg_edges g)"
  shows "edges_ok cfg (fst (observe_db np digest cfg g vectors w ts db))"
proof -
  have "\<forall>r \<in> set (edge_pass cfg w present ts (pg_edges g) (db_edges db)). \<bar>er_r r\<bar> \<le> 1" for present
    using assms(2,3) by (intro edge_pass_correlations) (auto simp: causal_edges_def edges_ok_def memory_ok_def)
  with assms(2) show ?thesis
    by (auto simp: edges_ok_def observe_db_def Let_def sane_config.edge_pass_ok [OF assms(1)] split: prod.split)
qed

lemma observe_db_ok:
  assumes cfg: "sane_config cfg" and tau: "cf_tau_merge cfg \<le> 1" and ok: "db_ok digest cfg db"
    and ce: "causal_edges (pg_edges g)"
    and cf: "\<forall>k. incident_key cfg g = Some k \<longrightarrow> collision_free digest (db_library db) k"
  shows "db_ok digest cfg (fst (observe_db np digest cfg g vectors w ts db))"
proof -
  from ok have "edges_ok cfg db" "library_ok digest (db_library db)" by (simp_all add: db_ok_def)
  from observe_edges_ok [OF cfg this(1) ce] promote_case_ok [OF this(2) cf tau, of ts] ok show ?thesis
    by (auto simp: db_ok_def observe_db_def Let_def update_baselines_distinct split: prod.split)
qed

text \<open>The databases the service can have on disk: created, reopened after a restart, updated by passes
  whose edges are correlations, annotated with mistakes.\<close>

inductive reachable :: "(case_key \<Rightarrow> string) \<Rightarrow> memory_config \<Rightarrow> database \<Rightarrow> bool" for digest cfg where
  created: "reachable digest cfg (open_memory cfg now empty_db)"
| reopened: "reachable digest cfg db \<Longrightarrow> reachable digest cfg (open_memory cfg now db)"
| observed: "reachable digest cfg db \<Longrightarrow> causal_edges (pg_edges g) \<Longrightarrow>
     \<forall>k. incident_key cfg g = Some k \<longrightarrow> collision_free digest (db_library db) k \<Longrightarrow>
     reachable digest cfg (fst (observe_db np digest cfg g vectors w ts db))"
| corrected: "reachable digest cfg db \<Longrightarrow> reachable digest cfg (record_mistake now p c i n db)"

lemma reachable_ok:
  assumes "sane_config cfg" "cf_tau_merge cfg \<le> 1"
  shows "reachable digest cfg db \<Longrightarrow> db_ok digest cfg db"
  by (induction rule: reachable.induct)
    (simp_all add: db_ok_fresh db_ok_open db_ok_mistake observe_db_ok [OF assms])

lemma reachable_models:
  "reachable digest cfg db \<Longrightarrow> db_version db = Some SCHEMA_VERSION \<and>
     map (\<lambda>m. (mv_component m, mv_version m, fst (mv_params m))) (db_models db) =
       [(''edge-memory'', SCHEMA_VERSION, cf_signal cfg)] \<and>
     (mv_params (hd (db_models db)) = (cf_signal cfg, [cf_alpha cfg, cf_decay cfg, cf_show cfg, cf_hide cfg]))"
proof (induction rule: reachable.induct)
  case (created now)
  show ?case
    by (simp add: open_memory_def record_model_version_def migrate_def empty_db_def Let_def tbl_insert_ignore_def)
next
  case (reopened db now)
  then obtain m where "db_models db = [m]" by (cases "db_models db") auto
  with reopened show ?case
    by (simp add: open_memory_def record_model_version_def migrate_def Let_def tbl_insert_ignore_def)
next
  case (observed db g np vectors w ts)
  then show ?case by (simp add: observe_db_def Let_def split: prod.split)
qed (simp add: record_mistake_def)


definition after_storm :: database where
  "after_storm = fst (observe_db ref_np name_digest default_config hog_graph [] None 7
     (open_memory default_config 1 empty_db))"

lemma causal_hog: "causal_edges (pg_edges hog_graph)"
  by (simp add: causal_edges_def hog_graph_def)

lemma after_storm_reachable: "reachable name_digest default_config after_storm"
  unfolding after_storm_def
  by (rule reachable.observed [OF reachable.created causal_hog])
    (simp add: collision_free_def open_memory_def record_model_version_def migrate_def empty_db_def Let_def)


section \<open>Rendering\<close>

lemma held_rows_spec:
  "unpaired row_pair (held_rows cfg live rows) \<and>
   set (held_rows cfg live rows) \<subseteq> {r \<in> set rows. er_signal r = cf_signal cfg \<and>
     (er_visible r \<or> 0 < er_base_conf r) \<and> \<not> has_pair live (er_src r) (er_dst r)} \<and>
   (\<forall>r \<in> set rows. er_signal r = cf_signal cfg \<and> (er_visible r \<or> 0 < er_base_conf r) \<and>
      \<not> has_pair live (er_src r) (er_dst r) \<longrightarrow>
      (\<exists>c \<in> set (held_rows cfg live rows). same_pair (row_pair r) (row_pair c) \<and> er_confidence r \<le> er_confidence c))"
  using chosen_spec [of row_pair er_confidence "filter (\<lambda>r. \<not> has_pair live (er_src r) (er_dst r))
         (filter (\<lambda>r. er_signal r = cf_signal cfg \<and> (er_visible r \<or> er_base_conf r > 0)) rows)"]
  unfolding held_rows_def choose_row_def by auto

lemma unpaired_map_filter:
  assumes "unpaired pr xs" and "\<And>x y. f x = Some y \<Longrightarrow> qr y = pr x"
  shows "unpaired qr (List.map_filter f xs)"
  using assms(1)
proof (induction xs)
  case (Cons x xs)
  have "\<not> same_pair (pr x) (qr y)" if "y \<in> set (List.map_filter f xs)" for y
    using that Cons.prems assms(2) by (force simp: unpaired_def List.map_filter_def)
  with Cons assms(2) show ?case
    by (auto simp: unpaired_def List.map_filter_simps split: option.split)
qed (simp add: unpaired_def List.map_filter_simps)

lemma current_podsD: "current_pods pods w = Some p \<Longrightarrow> p \<in> set pods \<and> stable_workload p = w"
  by (auto simp: current_pods_def dest!: map_of_SomeD)

lemma current_pods_ex: "p \<in> set pods \<Longrightarrow> \<exists>q. current_pods pods (stable_workload p) = Some q"
proof -
  assume "p \<in> set pods"
  then have "stable_workload p \<in> dom (current_pods pods)"
    by (simp add: current_pods_def dom_map_of_conv_image_fst image_image)
  then show ?thesis by auto
qed

text \<open>The workloads of a rendered edge, and the current name of a running pod.\<close>

definition edge_workloads :: "('a) edge_scheme \<Rightarrow> string \<times> string" where
  "edge_workloads e = (stable_workload (e_src e), stable_workload (e_dst e))"

lemma held_edgeD:
  "held_edge (current_pods pods) now r = Some h \<Longrightarrow> e_src h \<in> set pods \<and> e_dst h \<in> set pods \<and>
     edge_workloads h = row_pair r \<and> re_confidence h = Some (py_round 3 (er_confidence r)) \<and>
     e_r h = py_round 3 (er_r r) \<and> re_source h = Some Memory"
  by (auto simp: held_edge_def Let_def edge_workloads_def row_pair_def dest!: current_podsD split: option.splits)

lemma plain_live_edge [simp]: "plain_edge (live_edge cfg rows (e :: edge)) = e"
  by (simp add: live_edge_def Let_def plain_edge_def edge.defs split: option.split)

text \<open>A belief the memory may show beside the live edges.\<close>

definition showable :: "memory_config \<Rightarrow> edge list \<Rightarrow> edge_row \<Rightarrow> bool" where
  "showable cfg edges r \<longleftrightarrow> er_signal r = cf_signal cfg \<and> (er_visible r \<or> 0 < er_base_conf r) \<and>
     (\<forall>e \<in> set edges. \<not> same_pair (row_pair r) (edge_workloads e))"

lemma showable_iff:
  "showable cfg edges r \<longleftrightarrow> er_signal r = cf_signal cfg \<and> (er_visible r \<or> 0 < er_base_conf r) \<and>
     \<not> has_pair (map (\<lambda>e. (stable_workload (e_src e), stable_workload (e_dst e))) edges) (er_src r) (er_dst r)"
  by (auto simp: showable_def has_pair_def same_pair_def row_pair_def edge_workloads_def)

text \<open>The rows held beside the live edges.\<close>

definition held_by :: "memory_config \<Rightarrow> edge list \<Rightarrow> edge_row list \<Rightarrow> edge_row list" where
  "held_by cfg edges rows =
     held_rows cfg (map (\<lambda>e. (stable_workload (e_src e), stable_workload (e_dst e))) edges) rows"

lemma held_by_spec:
  "unpaired row_pair (held_by cfg edges rows)"
  "r \<in> set (held_by cfg edges rows) \<Longrightarrow> r \<in> set rows \<and> showable cfg edges r"
  "q \<in> set rows \<Longrightarrow> showable cfg edges q \<Longrightarrow>
     \<exists>c \<in> set (held_by cfg edges rows). same_pair (row_pair q) (row_pair c) \<and> er_confidence q \<le> er_confidence c"
  using held_rows_spec [of cfg "map (\<lambda>e. (stable_workload (e_src e), stable_workload (e_dst e))) edges" rows]
  by (auto simp: held_by_def showable_iff)

lemma held_by_strongest:
  assumes "r \<in> set (held_by cfg edges rows)" "q \<in> set rows" "showable cfg edges q" "same_pair (row_pair q) (row_pair r)"
  shows "er_confidence q \<le> er_confidence r"
proof -
  from held_by_spec(3) [OF assms(2,3)] obtain c where c: "c \<in> set (held_by cfg edges rows)"
    "same_pair (row_pair q) (row_pair c)" "er_confidence q \<le> er_confidence c" by blast
  then have "same_pair (row_pair c) (row_pair r)" using assms(4) by (meson same_pair_sym same_pair_trans)
  with held_by_spec(1) c(1) assms(1) have "c = r" unfolding unpaired_iff by blast
  with c(3) show ?thesis by simp
qed

lemma held_edge_complete:
  assumes "r \<in> set rows" "showable cfg edges r" "{er_src r, er_dst r} \<subseteq> stable_workload ` set pods"
  shows "\<exists>h \<in> set (List.map_filter (held_edge (current_pods pods) now) (held_by cfg edges rows)).
    same_pair (row_pair r) (edge_workloads h)"
proof -
  from held_by_spec(3) [OF assms(1,2)] obtain c where c: "c \<in> set (held_by cfg edges rows)"
    "same_pair (row_pair r) (row_pair c)" by blast
  then have "{er_src c, er_dst c} \<subseteq> stable_workload ` set pods" using assms(3) by (auto simp: same_pair_def row_pair_def)
  then obtain p q where "current_pods pods (er_src c) = Some p" "current_pods pods (er_dst c) = Some q"
    using current_pods_ex by fastforce
  then obtain h where h: "held_edge (current_pods pods) now c = Some h" by (simp add: held_edge_def Let_def)
  with c show ?thesis by (intro bexI [of _ h]) (force simp: held_edgeD List.map_filter_def)+
qed

text \<open>C18 (safety).  The memory renders no ghosts.  Live edges are shown unchanged.  Every held edge
  joins two pods that are running now, on a pair of workloads no live edge joins, one edge per
  pair, and its confidence is the rounded confidence of the strongest belief about that pair; and
  every belief worth showing whose workloads both run is represented.\<close>

theorem render_edges_no_ghosts:
  fixes cfg :: memory_config and rows :: "edge_row list" and edges :: "edge list"
    and pods :: "string list" and now :: real
  defines "live \<equiv> fst (render_edges cfg rows edges pods now)"
    and "held \<equiv> snd (render_edges cfg rows edges pods now)"
  shows "map plain_edge live = edges \<and> unpaired edge_workloads held \<and>
    (\<forall>h \<in> set held. {e_src h, e_dst h} \<subseteq> set pods \<and>
       (\<exists>r \<in> set rows. showable cfg edges r \<and> edge_workloads h = row_pair r \<and>
          re_confidence h = Some (py_round 3 (er_confidence r)) \<and>
          (\<forall>q \<in> set rows. showable cfg edges q \<and> same_pair (row_pair q) (row_pair r) \<longrightarrow>
             er_confidence q \<le> er_confidence r))) \<and>
    (\<forall>r \<in> set rows. showable cfg edges r \<and> {er_src r, er_dst r} \<subseteq> stable_workload ` set pods \<longrightarrow>
       (\<exists>h \<in> set held. same_pair (row_pair r) (edge_workloads h)))"
proof -
  let ?by = "held_by cfg edges rows"
  have held: "held = List.map_filter (held_edge (current_pods pods) now) ?by"
    and live: "live = map (live_edge cfg rows) edges"
    by (simp_all add: held_def live_def render_edges_def held_by_def)
  have un: "unpaired edge_workloads held"
    unfolding held by (rule unpaired_map_filter [OF held_by_spec(1)]) (simp add: held_edgeD)
  have ghost: "{e_src h, e_dst h} \<subseteq> set pods \<and> (\<exists>r \<in> set rows. showable cfg edges r \<and>
      edge_workloads h = row_pair r \<and> re_confidence h = Some (py_round 3 (er_confidence r)) \<and>
      (\<forall>q \<in> set rows. showable cfg edges q \<and> same_pair (row_pair q) (row_pair r) \<longrightarrow>
         er_confidence q \<le> er_confidence r))" if h: "h \<in> set held" for h
  proof -
    from h obtain r where r: "r \<in> set ?by" "held_edge (current_pods pods) now r = Some h"
      by (auto simp: held List.map_filter_def)
    from held_edgeD [OF r(2)] held_by_spec(2) [OF r(1)] held_by_strongest [OF r(1)] show ?thesis
      by (intro conjI bexI [of _ r]) simp_all
  qed
  show ?thesis using un ghost held_edge_complete [of _ rows cfg edges pods now] by (simp add: live comp_def held)
qed

theorem render_edges_no_ghosts_witness:
  "list_all (\<lambda>h. e_src h \<in> {''cooling-monitor-b-c'', ''timescaledb''})
     (snd (render_edges default_config [old_row] [] [''cooling-monitor-b-c'', ''timescaledb''] 30))"
  using render_edges_no_ghosts
      [where cfg = default_config and rows = "[old_row]" and edges = "[]" and
        pods = "[''cooling-monitor-b-c'', ''timescaledb'']" and now = 30]
  by (simp add: list_all_iff)

text \<open>Before the first pass of a restart nothing is drawn: whatever is in the database, the
  bootstrap graph has no finding, no edge, no root cause and no blast radius.\<close>

theorem bootstrap_draws_nothing:
  "bootstrap_graph nx cfg db now = Ret \<lparr>rg_findings = [], rg_edges = [], rg_ranking = [], rg_blast = [],
     rg_pods = 0, rg_held = 0, rg_case = None, rg_stats = stats db\<rparr>"
proof -
  have "held_edge (current_pods []) now r = None" for r
    by (simp add: held_edge_def current_pods_def)
  then have "snd (render_edges cfg rows [] [] now) = []" for rows
    by (simp add: render_edges_def List.map_filter_def)
  then show ?thesis
    by (simp add: bootstrap_graph_def render_def empty_graph_def render_edges_def Let_def)
qed

lemma render_returns:
  assumes "digraph_library nx"
    and "causal_edges (fst (render_edges cfg (db_edges db) (pg_edges g) pods now) @
           snd (render_edges cfg (db_edges db) (pg_edges g) pods now))"
  shows "\<exists>rg. render nx cfg db g pods now = Ret rg \<and> rg_findings rg = pg_findings g \<and>
    rg_edges rg = fst (render_edges cfg (db_edges db) (pg_edges g) pods now) @
      snd (render_edges cfg (db_edges db) (pg_edges g) pods now) \<and>
    rg_pods rg = pg_pods g \<and> (pg_findings g = [] \<longrightarrow> rg_ranking rg = pg_ranking g \<and> rg_blast rg = pg_blast g)"
proof -
  obtain live held where re: "render_edges cfg (db_edges db) (pg_edges g) pods now = (live, held)"
    by (cases "render_edges cfg (db_edges db) (pg_edges g) pods now")
  with assms(2) have ce: "causal_edges (live @ held)" by simp
  obtain rs bs where d: "rank_root_causes nx (build_graph nx (live @ held)) (map f_pod (pg_findings g))
      (map_of (rev (map (\<lambda>f. (f_pod f, f_onset f)) (pg_findings g)))) TOP = Some rs"
    "(case rs of [] \<Rightarrow> Ret [] | r # _ \<Rightarrow> returned (blast_radius nx (build_graph nx (live @ held)) (rc_pod r))) = Ret bs"
    using diagnosis_returns [OF assms(1) ce] by blast
  show ?thesis
  proof (cases "pg_findings g \<noteq> [] \<and> live @ held \<noteq> []")
    case True
    with re d show ?thesis by (simp add: render_def)
  next
    case False
    then show ?thesis unfolding render_def re Let_def prod.case if_not_P [OF False] by simp
  qed
qed

text \<open>Observing a pass of correlations always answers: on consistent beliefs the re-ranking over live
  and held edges returns, the answer shows the findings of the pass and only correlations, and a
  pass without findings keeps the ranking it came with.\<close>

lemma observe_returns:
  assumes "digraph_library nx" and "edges_ok cfg db" and "causal_edges (pg_edges g)"
  shows "\<exists>rg. snd (observe np nx digest cfg g vectors w ts now db) = Ret rg \<and>
    rg_findings rg = pg_findings g \<and> rg_pods rg = pg_pods g \<and> causal_edges (rg_edges rg) \<and>
    (pg_findings g = [] \<longrightarrow> rg_ranking rg = pg_ranking g \<and> rg_blast rg = pg_blast g)"
proof -
  let ?db = "fst (observe_db np digest cfg g vectors w ts db)"
  let ?pods = "map fst vectors"
  let ?re = "render_edges cfg (db_edges ?db) (pg_edges g) ?pods now"
  have rows: "\<forall>r \<in> set (db_edges ?db). \<bar>er_r r\<bar> \<le> 1"
    using edge_pass_correlations [of "db_edges db" "\<lambda>x. \<bar>x\<bar> \<le> 1" "pg_edges g" cfg w _ ts] assms(2,3)
    by (simp add: observe_db_def Let_def edges_ok_def memory_ok_def causal_edges_def split: prod.split)
  have live: "\<bar>e_r e\<bar> \<le> 1" if "e \<in> set (fst ?re)" for e
  proof -
    from that obtain e0 where "e0 \<in> set (pg_edges g)" "e = live_edge cfg (db_edges ?db) e0"
      by (auto simp: render_edges_def Let_def)
    then have "plain_edge e \<in> set (pg_edges g)" by simp
    with assms(3) show ?thesis by (auto simp: causal_edges_def plain_edge_def)
  qed
  have "\<bar>e_r e\<bar> \<le> 1" if "e \<in> set (snd ?re)" for e
  proof -
    from that obtain r where "r \<in> set (held_rows cfg (map (\<lambda>e. (stable_workload (e_src e), stable_workload (e_dst e))) (pg_edges g)) (db_edges ?db))"
      "held_edge (current_pods ?pods) now r = Some e" by (auto simp: render_edges_def List.map_filter_def)
    moreover from this(1) rows have "\<bar>er_r r\<bar> \<le> 1" using held_rows_spec by blast
    ultimately show ?thesis by (simp add: held_edgeD py_round_abs_le_1)
  qed
  with live have ce: "causal_edges (fst ?re @ snd ?re)" by (auto simp: causal_edges_def)
  obtain db' info where ob: "observe_db np digest cfg g vectors w ts db = (db', info)"
    by (cases "observe_db np digest cfg g vectors w ts db")
  from render_returns [OF assms(1) ce] obtain rg where "render nx cfg ?db g ?pods now = Ret rg"
    "rg_findings rg = pg_findings g" "rg_edges rg = fst ?re @ snd ?re" "rg_pods rg = pg_pods g"
    "pg_findings g = [] \<longrightarrow> rg_ranking rg = pg_ranking g \<and> rg_blast rg = pg_blast g" by blast
  with ce show ?thesis by (simp add: observe_def ob)
qed

text \<open>Opening a database of any earlier schema is a one-time upgrade: migrating twice is
  migrating once, the archive (cases, observations, snapshots, mistakes, baselines) survives, and
  the edge beliefs survive unless the schema was v1, whose pod-keyed rows are cleared.\<close>

theorem migrate_preserves_archive:
  "migrate (migrate db) = migrate db \<and> db_version (migrate db) = Some SCHEMA_VERSION \<and>
   map c_id (lb_cases (db_library (migrate db))) = map c_id (lb_cases (db_library db)) \<and>
   map c_key (lb_cases (db_library (migrate db))) = map c_key (lb_cases (db_library db)) \<and>
   lb_observations (db_library (migrate db)) = lb_observations (db_library db) \<and>
   db_snapshots (migrate db) = db_snapshots db \<and> db_mistakes (migrate db) = db_mistakes db \<and>
   db_baselines (migrate db) = db_baselines db \<and>
   map edge_key (db_edges (migrate db)) =
     (if db_version db = Some ''l3-memory-v1'' then [] else map edge_key (db_edges db))"
  by (auto simp: migrate_def Let_def SCHEMA_VERSION_def comp_def)
end
