(* ===== verification/Merge.thy ===== *)
theory Merge
  imports Graph_Memory
begin

text \<open>
  \<open>correlation/engine/merge.py\<close>: the union of the rendered graphs of the signals, each edge and finding
  tagged with its signal, re-ranked over the union.  \<open>per_signal\<close> is the dictionary of rendered
  graphs in insertion order.
\<close>

record tagged_finding = finding +
  tf_signal :: string

record merged_graph =
  mg_findings :: "tagged_finding list"
  mg_edges :: "rendered_edge list"
  mg_ranking :: "ranked list"
  mg_blast :: "victim list"
  mg_signals :: "string list"
  mg_stats :: "memory_stats option"
  mg_held :: "nat option"
  mg_case :: "case_info option"
  mg_signal :: "string option"
  mg_pods :: nat
  mg_active :: nat
  mg_accepted :: nat

definition tag_edge :: "string \<Rightarrow> rendered_edge \<Rightarrow> rendered_edge" where
  "tag_edge sig e = e\<lparr>re_signal := (case re_signal e of None \<Rightarrow> Some sig | Some s \<Rightarrow> Some s)\<rparr>"

definition tag_finding :: "string \<Rightarrow> finding \<Rightarrow> tagged_finding" where
  "tag_finding sig f = finding.extend f \<lparr>tf_signal = sig\<rparr>"

definition union_edges :: "(string \<times> rendered_graph) list \<Rightarrow> rendered_edge list" where
  "union_edges per_signal = concat (map (\<lambda>(sig, g). map (tag_edge sig) (rg_edges g)) per_signal)"

definition union_findings :: "(string \<times> rendered_graph) list \<Rightarrow> tagged_finding list" where
  "union_findings per_signal = concat (map (\<lambda>(sig, g). map (tag_finding sig) (rg_findings g)) per_signal)"

definition sum_stats :: "memory_stats \<Rightarrow> memory_stats \<Rightarrow> memory_stats" where
  "sum_stats a b = \<lparr>ms_edge_memory = ms_edge_memory a + ms_edge_memory b, ms_visible = ms_visible a + ms_visible b,
     ms_cases = ms_cases a + ms_cases b, ms_families = ms_families a + ms_families b,
     ms_open_mistakes = ms_open_mistakes a + ms_open_mistakes b\<rparr>"

definition zero_stats :: memory_stats where
  "zero_stats = \<lparr>ms_edge_memory = 0, ms_visible = 0, ms_cases = 0, ms_families = 0, ms_open_mistakes = 0\<rparr>"

text \<open>\<open>a or b\<close> on optional strings, the empty string being false.\<close>

definition or_else :: "string option \<Rightarrow> string option \<Rightarrow> string option" where
  "or_else a b = (case a of None \<Rightarrow> b | Some s \<Rightarrow> if s = '''' then b else a)"

definition active_signal :: "ranked list \<Rightarrow> rendered_edge list \<Rightarrow> string option" where
  "active_signal ranking edges =
     (case ranking of [] \<Rightarrow> None
      | r # _ \<Rightarrow> (case find (\<lambda>e. e_src e = rc_pod r) edges of None \<Rightarrow> None | Some e \<Rightarrow> re_signal e))"

text \<open>The root causes of the union and the blast radius of the first: only findings that sit on the
  graph seed the ranking, and without one nothing is ranked.\<close>

definition union_diagnosis ::
    "'g nxlib \<Rightarrow> rendered_edge list \<Rightarrow> tagged_finding list \<Rightarrow> (ranked list \<times> victim list) outcome" where
  "union_diagnosis nx edges findings =
     (let g = build_graph nx edges;
          seeds = map f_pod (filter (\<lambda>f. f_pod f \<in> set (nx_nodes nx g)) findings);
          onset = map_of (rev (map (\<lambda>f. (f_pod f, f_onset f)) findings))
      in if edges = [] \<or> findings = [] \<or> seeds = [] then Ret ([], [])
         else and_then (returned (rank_root_causes nx g seeds onset TOP)) (\<lambda>ranking.
           and_then (case ranking of [] \<Rightarrow> Ret [] | r # _ \<Rightarrow> returned (blast_radius nx g (rc_pod r))) (\<lambda>blast.
             Ret (ranking, blast))))"

definition merge_graphs ::
    "'g nxlib \<Rightarrow> (string \<times> rendered_graph) list \<Rightarrow> string option \<Rightarrow> merged_graph outcome" where
  "merge_graphs nx per_signal primary =
     (let edges = union_edges per_signal; findings = union_findings per_signal;
          signals = sort (map fst per_signal)
      in and_then (union_diagnosis nx edges findings) (\<lambda>(ranking, blast).
        let active_sig = active_signal ranking edges;
            owner = (case active_sig of None \<Rightarrow> None | Some s \<Rightarrow> if s = '''' then None else map_of per_signal s)
        in Ret \<lparr>mg_findings = findings, mg_edges = edges, mg_ranking = ranking, mg_blast = blast,
             mg_signals = signals,
             mg_stats = (if per_signal = [] then None
                else Some (foldl (\<lambda>acc sg. sum_stats acc (rg_stats (snd sg))) zero_stats per_signal)),
             mg_held = (if per_signal = [] then None else Some (sum_list (map (\<lambda>sg. rg_held (snd sg)) per_signal))),
             mg_case = (case owner of None \<Rightarrow> None | Some g \<Rightarrow> rg_case g),
             mg_signal = or_else active_sig (or_else primary (case signals of [] \<Rightarrow> None | s # _ \<Rightarrow> Some s)),
             mg_pods = fold max (map (\<lambda>sg. rg_pods (snd sg)) per_signal) 0,
             mg_active = card (f_pod ` set findings),
             mg_accepted = length edges\<rparr>))"

section \<open>The union\<close>

lemma plain_tag_edge [simp]: "plain_edge (tag_edge sig e) = plain_edge e"
  by (simp add: plain_edge_def tag_edge_def)

lemma tag_edge_fields [simp]:
  "e_src (tag_edge sig e) = e_src e" "e_dst (tag_edge sig e) = e_dst e" "e_r (tag_edge sig e) = e_r e"
  by (simp_all add: tag_edge_def)

lemma f_pod_tag [simp]: "f_pod (tag_finding sig f) = f_pod f"
  by (simp add: tag_finding_def finding.defs)

lemma causal_union:
  "\<forall>sg \<in> set per_signal. causal_edges (rg_edges (snd sg)) \<Longrightarrow> causal_edges (union_edges per_signal)"
  by (force simp: causal_edges_def union_edges_def)

lemma union_diagnosis_returns:
  assumes "digraph_library nx" and "causal_edges edges"
  shows "\<exists>rb. union_diagnosis nx edges findings = Ret rb"
proof -
  obtain rs bs where "rank_root_causes nx (build_graph nx edges)
      (map f_pod (filter (\<lambda>f. f_pod f \<in> set (nx_nodes nx (build_graph nx edges))) findings))
      (map_of (rev (map (\<lambda>f. (f_pod f, f_onset f)) findings))) TOP = Some rs"
    "(case rs of [] \<Rightarrow> Ret [] | r # _ \<Rightarrow> returned (blast_radius nx (build_graph nx edges) (rc_pod r))) = Ret bs"
    using diagnosis_returns [OF assms] by blast
  then show ?thesis by (simp add: union_diagnosis_def Let_def)
qed

lemma union_diagnosis_blames:
  assumes lib: "digraph_library nx" and ce: "causal_edges edges"
    and d: "union_diagnosis nx edges findings = Ret (ranking, blast)" and r: "r \<in> set ranking"
  shows "\<exists>f \<in> set findings. f_pod f \<in> e_src ` set edges \<union> e_dst ` set edges \<and>
    ((\<exists>w. explains nx (build_graph nx edges) (rc_pod r) (f_pod f) w) \<or>
     (rc_pod r = f_pod f \<and> (\<forall>e \<in> set edges. e_dst e \<noteq> rc_pod r)))"
proof -
  let ?g = "build_graph nx edges"
  let ?fs = "filter (\<lambda>f. f_pod f \<in> set (nx_nodes nx ?g)) findings"
  let ?onset = "map_of (rev (map (\<lambda>f. (f_pod f, f_onset f)) findings))"
  from d r have ne: "?fs \<noteq> []" and rk: "rank_root_causes nx ?g (map f_pod ?fs) ?onset TOP = Some ranking"
    by (auto simp: union_diagnosis_def Let_def split: if_splits)
  have "filter (\<lambda>s. s \<in> set (nx_nodes nx ?g)) (map f_pod ?fs) = map f_pod ?fs"
    by (auto simp: filter_id_conv)
  then have S: "seed_nodes nx ?g (map f_pod ?fs) = f_pod ` set ?fs"
    using ne by (simp only: seed_nodes_def map_is_Nil_conv if_False set_map)
  from rank_root_causes_pods(1) [OF lib ce rk r] obtain x where
    x: "node_score nx ?g (f_pod ` set ?fs) (rc_pod r) = Some x" "0 < x" unfolding S by blast
  from iffD1 [OF node_score_pos [OF digraph_library.light_build_graph [OF lib ce] x(1)] x(2)]
  obtain f where f: "f \<in> set ?fs" "(\<exists>w. explains nx ?g (rc_pod r) (f_pod f) w) \<or>
      (rc_pod r = f_pod f \<and> nx_in_degree nx ?g (rc_pod r) = 0)" by (elim disjE conjE bexE imageE) auto
  then show ?thesis
    by (intro bexI [of _ f])
      (auto simp: digraph_library.nodes_build_graph [OF lib] digraph_library.in_degree_build_graph [OF lib])
qed

lemma merge_graphs_Ret:
  assumes "merge_graphs nx per_signal primary = Ret m"
  shows "union_diagnosis nx (union_edges per_signal) (union_findings per_signal) = Ret (mg_ranking m, mg_blast m) \<and>
    mg_edges m = union_edges per_signal \<and> mg_findings m = union_findings per_signal \<and>
    mg_signals m = sort (map fst per_signal) \<and>
    mg_signal m = or_else (active_signal (mg_ranking m) (union_edges per_signal))
       (or_else primary (case sort (map fst per_signal) of [] \<Rightarrow> None | s # _ \<Rightarrow> Some s)) \<and>
    mg_case m = (case active_signal (mg_ranking m) (union_edges per_signal) of None \<Rightarrow> None
       | Some s \<Rightarrow> if s = '''' then None else (case map_of per_signal s of None \<Rightarrow> None | Some g \<Rightarrow> rg_case g))"
  using assms by (auto simp: merge_graphs_def Let_def split: option.splits)


text \<open>An idle backbone: a structural edge of one signal, a finding of another that is not on it.\<close>

definition idle_stats :: memory_stats where
  "idle_stats = \<lparr>ms_edge_memory = 1, ms_visible = 0, ms_cases = 2, ms_families = 1, ms_open_mistakes = 0\<rparr>"

definition backbone_graph :: rendered_graph where
  "backbone_graph = \<lparr>rg_findings = [], rg_edges = snd (render_edges default_config [old_row] []
       [''cooling-monitor-b-c'', ''timescaledb''] 30), rg_ranking = [], rg_blast = [], rg_pods = 2,
     rg_held = 1, rg_case = None, rg_stats = idle_stats\<rparr>"

definition burst_graph :: rendered_graph where
  "burst_graph = \<lparr>rg_findings = [\<lparr>f_pod = ''vision-qc-a-b'', f_class = Shift, f_onset = 5, f_severity = 1, f_n_onsets = 1\<rparr>],
     rg_edges = [], rg_ranking = [], rg_blast = [], rg_pods = 3, rg_held = 0, rg_case = None, rg_stats = idle_stats\<rparr>"

lemma backbone_edges: "map plain_edge (rg_edges backbone_graph) =
    [\<lparr>e_src = ''cooling-monitor-b-c'', e_dst = ''timescaledb'', e_r = 8/10, e_lag = 5, e_evidence = [''stat'', ''pvc'']\<rparr>]"
  by (simp add: backbone_graph_def render_edges_def held_rows_def old_row_def default_config_def choose_row_def
      row_pair_def has_pair_def held_edge_def current_pods_def stable_workload_def List.map_filter_simps
      plain_edge_def py_round_def round_half_even_def Let_def)

lemma causal_backbone: "causal_edges (rg_edges backbone_graph)"
proof -
  have "map e_r (rg_edges backbone_graph) = map e_r (map plain_edge (rg_edges backbone_graph))"
    by (simp add: plain_edge_def)
  then have "map e_r (rg_edges backbone_graph) = [8/10]" by (simp add: backbone_edges)
  then show ?thesis by (auto simp: causal_edges_def)
qed

end
