(* ===== verification/Service_Inputs.thy ===== *)
theory Service_Inputs
  imports Pipeline Case_Library
begin

text \<open>
  \<open>correlation/service.py\<close>, the inputs of a pass: reading the aggregator's window and events, time
  alignment of every series onto one grid, and the per-signal physical witness.
  \<open>datetime.fromisoformat(...).timestamp()\<close> depends on the interpreter and the local time zone; it
  is the parameter \<open>fromiso\<close>, \<open>None\<close> where it raises.
\<close>

record service_env =
  sv_signals :: "string list"
  sv_forecast :: string
  sv_limit :: string
  sv_horizon :: real
  sv_min_frac :: real
  sv_copr_min :: real
  sv_window :: nat
  sv_recent :: nat
  sv_step :: real
  sv_memory_db :: string
  sv_storage :: "string list"
  sv_memory :: memory_config

definition SIGNAL_SOURCES :: "(string \<times> string) list" where
  "SIGNAL_SOURCES = [(''psi_io'', ''io_write''), (''psi_cpu'', ''cpu'')]"

definition default_env :: service_env where
  "default_env = \<lparr>sv_signals = [''psi_io'', ''psi_cpu'', ''psi_mem''],
     sv_forecast = ''mem'', sv_limit = ''mem_limit'', sv_horizon = 900, sv_min_frac = 1/2,
     sv_copr_min = 1/10, sv_window = 36, sv_recent = 24, sv_step = 5,
     sv_memory_db = ''/var/lib/skn/memory/l3-memory.db'',
     sv_storage = [''cooling-monitor'', ''dcim-bridge'', ''log-archiver'', ''timescaledb''],
     sv_memory = default_config\<rparr>"

record sample =
  sm_ts :: "string option"
  sm_value :: "real option"

record event =
  ev_kind :: "string option"
  ev_pod :: "string option"

type_synonym points = "(real \<times> real) list"

section \<open>Reading the window\<close>

text \<open>\<open>str(ts).replace("Z", "+00:00")\<close>; a missing timestamp is the string of \<open>None\<close>.\<close>

definition epoch :: "(string \<Rightarrow> real option) \<Rightarrow> string option \<Rightarrow> real option" where
  "epoch fromiso ts =
     fromiso (concat (map (\<lambda>c. if c = CHR ''Z'' then ''+00:00'' else [c])
       (case ts of None \<Rightarrow> ''None'' | Some s \<Rightarrow> s)))"

fun points_of :: "(string \<Rightarrow> real option) \<Rightarrow> sample list \<Rightarrow> points outcome" where
  "points_of fromiso [] = Ret []"
| "points_of fromiso (s # ss) =
     (case epoch fromiso (sm_ts s) of
        None \<Rightarrow> points_of fromiso ss
      | Some t \<Rightarrow> (case sm_value s of
            None \<Rightarrow> Raise KeyError
          | Some v \<Rightarrow> and_then (points_of fromiso ss) (\<lambda>ps. Ret ((t, v) # ps))))"

definition wanted :: "service_env \<Rightarrow> string set" where
  "wanted env = set (sv_signals env) \<union> snd ` set SIGNAL_SOURCES \<union> {sv_forecast env, sv_limit env}"

record ring =
  rg_raw :: "string \<Rightarrow> (string \<times> points) list"
  rg_latest :: real

definition ingest_key ::
    "(string \<Rightarrow> real option) \<Rightarrow> string set \<Rightarrow> string \<times> sample list \<Rightarrow> ring \<Rightarrow> ring outcome" where
  "ingest_key fromiso want ks st =
     (let parts = split_on CHR ''/'' (fst ks)
      in if length parts < 3 \<or> last parts \<notin> want \<or> snd ks = [] then Ret st
         else and_then (points_of fromiso (snd ks)) (\<lambda>ps.
           let pts = sort ps; sig = last parts; pod = parts ! 1
           in if length pts \<ge> 12
              then Ret \<lparr>rg_raw = (rg_raw st)(sig := AList.update pod pts (rg_raw st sig)),
                     rg_latest = max (rg_latest st) (fst (last pts))\<rparr>
              else Ret st))"

fun ingest ::
    "(string \<Rightarrow> real option) \<Rightarrow> string set \<Rightarrow> (string \<times> sample list) list \<Rightarrow> ring \<Rightarrow> ring outcome" where
  "ingest fromiso want [] st = Ret st"
| "ingest fromiso want (ks # window) st =
     and_then (ingest_key fromiso want ks st) (ingest fromiso want window)"

section \<open>Time alignment\<close>

definition GRID_N :: nat where "GRID_N = 180"

definition grid :: "real \<Rightarrow> real \<Rightarrow> real list" where
  "grid latest step = map (\<lambda>k. latest - step * real (GRID_N - 1 - k)) [0..<GRID_N]"

text \<open>The pointer \<open>j\<close> of the loop is the list of points from \<open>j\<close> on.\<close>

fun advance :: "real \<Rightarrow> points \<Rightarrow> points" where
  "advance upto_t (p # q # rest) = (if fst q \<le> upto_t then advance upto_t (q # rest) else p # q # rest)"
| "advance upto_t pts = pts"

fun resample :: "real \<Rightarrow> points \<Rightarrow> real list \<Rightarrow> real option list" where
  "resample step pts [] = []"
| "resample step pts (gt # gs) =
     (let pts' = advance (gt + step / 2) pts
      in (if \<bar>fst (hd pts') - gt\<bar> \<le> step then Some (snd (hd pts')) else None) # resample step pts' gs)"

definition nan_to_num :: "real option \<Rightarrow> real" where
  "nan_to_num x = (case x of None \<Rightarrow> 0 | Some v \<Rightarrow> v)"

definition to_vector :: "real \<Rightarrow> real \<Rightarrow> string \<times> points \<Rightarrow> (string \<times> vec) option" where
  "to_vector step latest pp =
     (if fst (last (snd pp)) < latest - 2 * step then None
      else
        let vec = resample step (snd pp) (grid latest step)
        in if length (filter (\<lambda>x. x \<noteq> None) vec) \<ge> 12 then Some (fst pp, map nan_to_num vec) else None)"

record inputs =
  in_vecs :: "string \<Rightarrow> vectors"
  in_breach :: "string list"

fun breach_pods :: "event option list \<Rightarrow> string list outcome" where
  "breach_pods [] = Ret []"
| "breach_pods (None # es) = breach_pods es"
| "breach_pods (Some e # es) =
     (if ev_kind e = Some ''anomaly_candidate''
      then (case ev_pod e of None \<Rightarrow> Raise KeyError
            | Some p \<Rightarrow> and_then (breach_pods es) (\<lambda>ps. Ret (p # ps)))
      else breach_pods es)"

definition build_inputs ::
    "(string \<Rightarrow> real option) \<Rightarrow> service_env \<Rightarrow> (string \<times> sample list) list \<Rightarrow> event option list \<Rightarrow> inputs outcome" where
  "build_inputs fromiso env window events =
     and_then (ingest fromiso (wanted env) window \<lparr>rg_raw = (\<lambda>_. []), rg_latest = 0\<rparr>) (\<lambda>st.
     and_then (breach_pods events) (\<lambda>ps.
       Ret \<lparr>in_vecs = (\<lambda>sig. List.map_filter (to_vector (sv_step env) (rg_latest st)) (rg_raw st sig)),
            in_breach = sorted_set ps\<rparr>))"

section \<open>The physical witness\<close>

definition hot_pods :: "real \<Rightarrow> vectors \<Rightarrow> string list" where
  "hot_pods copr_min vectors =
     map fst (filter (\<lambda>(p, v). arr_max (tail_slice 6 v) > copr_min) vectors)"

definition witness_for :: "service_env \<Rightarrow> string \<Rightarrow> vectors \<Rightarrow> witness outcome" where
  "witness_for env signal vectors =
     (let pairs = combinations2 (map fst vectors);
          shared = (if signal = ''psi_io''
            then filter (\<lambda>(a, b). stable_workload a \<in> set (sv_storage env) \<and>
                                   stable_workload b \<in> set (sv_storage env)) pairs
            else []);
          same_node = (if signal = ''psi_io'' then [] else pairs)
      in if list_ex (\<lambda>(p, v). v = []) vectors then Raise ValueError
         else Ret \<lparr>w_ebpf = [], w_psi = combinations2 (hot_pods (sv_copr_min env) vectors),
                w_shared = shared, w_node = same_node\<rparr>)"

section \<open>Sample-and-hold\<close>

text \<open>What one column holds, on its own: the last sample not later than half a step after the grid
  time (the first sample if all are later), when it is within a step of it.\<close>

definition held_point :: "real \<Rightarrow> points \<Rightarrow> real \<times> real" where
  "held_point upto_t pts = (case filter (\<lambda>p. fst p \<le> upto_t) pts of [] \<Rightarrow> hd pts | ps \<Rightarrow> last ps)"

definition column :: "real \<Rightarrow> points \<Rightarrow> real \<Rightarrow> real option" where
  "column step pts gt =
     (let p = held_point (gt + step / 2) pts in if \<bar>fst p - gt\<bar> \<le> step then Some (snd p) else None)"

lemma advance_not_Nil: "pts \<noteq> [] \<Longrightarrow> advance upto_t pts \<noteq> []"
  by (induction upto_t pts rule: advance.induct) auto

lemma advance_advance: "upto_t \<le> upto_t' \<Longrightarrow> advance upto_t' (advance upto_t pts) = advance upto_t' pts"
  by (induction upto_t pts rule: advance.induct) auto

lemma hd_advance:
  "sorted (map fst pts) \<Longrightarrow> pts \<noteq> [] \<Longrightarrow> hd (advance upto_t pts) = held_point upto_t pts"
proof (induction upto_t pts rule: advance.induct)
  case (1 upto_t p q rest)
  show ?case
  proof (cases "fst q \<le> upto_t")
    case True
    with 1 have "fst p \<le> upto_t" by auto
    with True 1 show ?thesis by (simp add: held_point_def)
  next
    case False
    with 1(2) have "filter (\<lambda>x. fst x \<le> upto_t) (q # rest) = []" by (auto simp: filter_empty_conv)
    with False show ?thesis by (simp add: held_point_def)
  qed
qed (simp_all add: held_point_def)

lemma resample_columns:
  assumes "sorted (map fst pts)" "pts \<noteq> []"
  shows "sorted gs \<Longrightarrow> (\<forall>g \<in> set gs. upto_t \<le> g + step / 2) \<Longrightarrow>
    resample step (advance upto_t pts) gs = map (column step pts) gs"
proof (induction gs arbitrary: upto_t)
  case (Cons g gs)
  have a: "advance (g + step / 2) (advance upto_t pts) = advance (g + step / 2) pts"
    using Cons.prems(2) by (simp add: advance_advance)
  have "resample step (advance (g + step / 2) pts) gs = map (column step pts) gs"
    using Cons.prems(1) by (intro Cons.IH) auto
  then show ?case by (simp add: a column_def Let_def hd_advance [OF assms])
qed simp

lemma grid_sorted: "0 \<le> step \<Longrightarrow> sorted (grid latest step)"
  unfolding grid_def sorted_iff_nth_mono by (auto intro!: mult_left_mono)

lemma length_grid [simp]: "length (grid latest step) = GRID_N"
  by (simp add: grid_def)

lemma length_resample [simp]: "length (resample step pts gs) = length gs"
  by (induction gs arbitrary: pts) (simp_all add: Let_def)

lemma resample_exact:
  assumes "sorted (map fst pts)" and "pts \<noteq> []" and "0 \<le> step"
  shows "resample step pts (grid latest step) = map (column step pts) (grid latest step)"
proof -
  have "\<exists>upto_t. advance upto_t pts = pts \<and> (\<forall>g \<in> set (grid latest step). upto_t \<le> g + step / 2)"
  proof -
    define upto_t where "upto_t = Min (insert (fst (hd pts)) ((\<lambda>g. g + step / 2) ` set (grid latest step)) \<union> fst ` set pts) - 1"
    have le: "upto_t < x" if "x \<in> insert (fst (hd pts)) ((\<lambda>g. g + step / 2) ` set (grid latest step)) \<union> fst ` set pts" for x
    proof -
      have "Min (insert (fst (hd pts)) ((\<lambda>g. g + step / 2) ` set (grid latest step)) \<union> fst ` set pts) \<le> x"
        by (rule Min_le) (use that in auto)
      then show ?thesis unfolding upto_t_def by linarith
    qed
    have "advance l ps = ps" if "\<forall>p \<in> set ps. l < fst p" for l ps
      using that by (induction l ps rule: advance.induct) auto
    with le show ?thesis by (intro exI [of _ upto_t]) (force intro: less_imp_le)
  qed
  then obtain upto_t where "advance upto_t pts = pts" "\<forall>g \<in> set (grid latest step). upto_t \<le> g + step / 2" by blast
  with resample_columns [OF assms(1,2) grid_sorted [OF assms(3)]] show ?thesis by metis
qed

text \<open>C22 (equivalence).  The one-pass alignment is exact: although the pointer never moves back, every
  column of the grid holds what a search of the whole series for that instant finds.\<close>

theorem resample_is_sample_and_hold:
  assumes "sorted (map fst pts)" and "pts \<noteq> []" and "0 \<le> step"
  shows "resample step pts (grid latest step) = map (column step pts) (grid latest step)"
  by (rule resample_exact [OF assms])

theorem resample_is_sample_and_hold_witness:
  "resample 5 [(0, 7), (5, 9)] (grid 10 5) = map (column 5 [(0, 7), (5, 9)]) (grid 10 5)"
  by (rule resample_is_sample_and_hold) simp_all

section \<open>What the inputs are\<close>

definition ring_ok :: "(string \<times> sample list) list \<Rightarrow> ring \<Rightarrow> bool" where
  "ring_ok window st \<longleftrightarrow> (\<forall>sig. distinct (map fst (rg_raw st sig)) \<and>
     (\<forall>(pod, pts) \<in> set (rg_raw st sig). sorted pts \<and> 12 \<le> length pts \<and> fst (last pts) \<le> rg_latest st \<and>
        (\<exists>ks \<in> set window. split_on CHR ''/'' (fst ks) ! 1 = pod \<and> last (split_on CHR ''/'' (fst ks)) = sig)))"

lemma update_mem: "x \<in> set (AList.update k v al) \<Longrightarrow> x = (k, v) \<or> x \<in> set al"
  by (induction al) (auto split: if_splits)

lemma ingest_key_ok:
  assumes "ingest_key fromiso want ks st = Ret st'" "ring_ok window st" "ks \<in> set window"
  shows "ring_ok window st'"
proof -
  let ?parts = "split_on CHR ''/'' (fst ks)"
  from assms(1) consider "st' = st"
    | ps where "12 \<le> length (sort ps)" "st' = \<lparr>rg_raw = (rg_raw st)(last ?parts :=
          AList.update (?parts ! 1) (sort ps) (rg_raw st (last ?parts))),
        rg_latest = max (rg_latest st) (fst (last (sort ps)))\<rparr>"
    by (auto simp: ingest_key_def Let_def split: if_splits)
  then show ?thesis
  proof cases
    case 2
    have "sorted pts \<and> 12 \<le> length pts \<and> fst (last pts) \<le> rg_latest st' \<and>
        (\<exists>ks \<in> set window. split_on CHR ''/'' (fst ks) ! 1 = pod \<and> last (split_on CHR ''/'' (fst ks)) = sig)"
      if "(pod, pts) \<in> set (rg_raw st' sig)" for pod pts sig
    proof -
      from that 2(2) consider "(pod, pts) \<in> set (rg_raw st sig)"
        | "sig = last ?parts" "(pod, pts) = (?parts ! 1, sort ps)"
        by (auto split: if_splits dest: update_mem)
      then show ?thesis
      proof cases
        case 1
        with assms(2) have "sorted pts \<and> 12 \<le> length pts \<and> fst (last pts) \<le> rg_latest st \<and>
            (\<exists>ks \<in> set window. split_on CHR ''/'' (fst ks) ! 1 = pod \<and> last (split_on CHR ''/'' (fst ks)) = sig)"
          unfolding ring_ok_def by blast
        moreover have "rg_latest st \<le> rg_latest st'" by (simp add: 2(2))
        ultimately show ?thesis by force
      qed (use 2 assms(3) in auto)
    qed
    moreover have "distinct (map fst (rg_raw st' sig))" for sig
      using assms(2) by (simp add: 2(2) ring_ok_def distinct_update)
    ultimately show ?thesis unfolding ring_ok_def by blast
  qed (use assms(2) in simp)
qed

lemma ingest_ok:
  "ingest fromiso want ks st = Ret st' \<Longrightarrow> ring_ok window st \<Longrightarrow> set ks \<subseteq> set window \<Longrightarrow> ring_ok window st'"
  by (induction ks arbitrary: st) (auto dest: ingest_key_ok)

lemma sorted_points: "sorted (pts :: points) \<Longrightarrow> sorted (map fst pts)"
  by (induction pts) (auto simp: less_eq_prod_def)

text \<open>A vector is aligned when it is the held columns of a live series on the grid of this pass, with
  zeros in the gaps.\<close>

definition aligned :: "real \<Rightarrow> real \<Rightarrow> vec \<Rightarrow> bool" where
  "aligned step latest v \<longleftrightarrow> (\<exists>pts. sorted (map fst pts) \<and> 12 \<le> length pts \<and>
     latest - 2 * step \<le> fst (last pts) \<and> fst (last pts) \<le> latest \<and>
     12 \<le> length (filter (\<lambda>g. column step pts g \<noteq> None) (grid latest step)) \<and>
     v = map (\<lambda>g. nan_to_num (column step pts g)) (grid latest step))"

lemma to_vector_aligned:
  assumes "to_vector step latest (pod, pts) = Some (p, v)" "sorted pts" "12 \<le> length pts"
    "fst (last pts) \<le> latest" "0 \<le> step"
  shows "p = pod \<and> aligned step latest v"
proof -
  from assms(3) have "pts \<noteq> []" by auto
  note r = resample_exact [OF sorted_points [OF assms(2)] this assms(5), of latest]
  have "filter (\<lambda>x. x \<noteq> None) (map f gs) = map f (filter (\<lambda>g. f g \<noteq> None) gs)" for f :: "real \<Rightarrow> real option" and gs
    by (induction gs) auto
  with assms sorted_points [OF assms(2)] show ?thesis
    by (auto simp: to_vector_def Let_def r aligned_def comp_def not_less split: if_splits intro!: exI [of _ pts])
qed

lemma map_filter_keys:
  assumes "\<And>x y. f x = Some y \<Longrightarrow> k y = k' x" "distinct (map k' xs)"
  shows "distinct (map k (List.map_filter f xs))"
  using assms(2)
proof (induction xs)
  case (Cons x xs)
  have "k y \<in> k' ` set xs" if "y \<in> set (List.map_filter f xs)" for y
    using that assms(1) by (force simp: List.map_filter_def)
  with Cons assms(1) show ?case by (fastforce simp: List.map_filter_simps split: option.split)
qed (simp add: List.map_filter_simps)

lemma to_vector_pod: "to_vector step latest pp = Some pv \<Longrightarrow> fst pv = fst pp"
  by (auto simp: to_vector_def Let_def split: if_splits)

lemma build_inputs_shape:
  assumes "build_inputs fromiso env window events = Ret inp" "0 \<le> sv_step env"
  shows "\<exists>latest. \<forall>sig. distinct (map fst (in_vecs inp sig)) \<and>
    (\<forall>(p, v) \<in> set (in_vecs inp sig). aligned (sv_step env) latest v \<and>
       (\<exists>ks \<in> set window. split_on CHR ''/'' (fst ks) ! 1 = p \<and> last (split_on CHR ''/'' (fst ks)) = sig))"
proof -
  from assms(1) obtain st where st: "ingest fromiso (wanted env) window \<lparr>rg_raw = (\<lambda>_. []), rg_latest = 0\<rparr> = Ret st"
    and inp: "\<And>sig. in_vecs inp sig = List.map_filter (to_vector (sv_step env) (rg_latest st)) (rg_raw st sig)"
    by (auto simp: build_inputs_def)
  have ok: "ring_ok window st" by (rule ingest_ok [OF st]) (simp_all add: ring_ok_def)
  have "aligned (sv_step env) (rg_latest st) v \<and>
      (\<exists>ks \<in> set window. split_on CHR ''/'' (fst ks) ! 1 = p \<and> last (split_on CHR ''/'' (fst ks)) = sig)"
    if "(p, v) \<in> set (in_vecs inp sig)" for p v sig
  proof -
    from that inp obtain pod pts where m: "(pod, pts) \<in> set (rg_raw st sig)"
      "to_vector (sv_step env) (rg_latest st) (pod, pts) = Some (p, v)"
      by (auto simp: List.map_filter_def)
    from ok m(1) have "sorted pts" "12 \<le> length pts" "fst (last pts) \<le> rg_latest st"
      "\<exists>ks \<in> set window. split_on CHR ''/'' (fst ks) ! 1 = pod \<and> last (split_on CHR ''/'' (fst ks)) = sig"
      unfolding ring_ok_def by blast+
    with to_vector_aligned [OF m(2) this(1-3) assms(2)] show ?thesis by blast
  qed
  moreover have "distinct (map fst (in_vecs inp sig))" for sig
    unfolding inp by (rule map_filter_keys [of _ fst fst]) (use ok in \<open>auto simp: ring_ok_def to_vector_pod\<close>)
  ultimately show ?thesis by (intro exI [of _ "rg_latest st"]) blast
qed

lemma aligned_length: "aligned step latest v \<Longrightarrow> length v = GRID_N"
  by (auto simp: aligned_def)

lemma build_inputs_uniform:
  assumes "build_inputs fromiso env window events = Ret inp" "0 \<le> sv_step env"
  shows "distinct (map fst (in_vecs inp sig)) \<and> lengths_are GRID_N (in_vecs inp sig)"
  using build_inputs_shape [OF assms] by (fastforce simp: lengths_are_def list_all_iff dest: aligned_length)


text \<open>A clock for the examples: the timestamp is read as a decimal number of seconds.\<close>

fun decimal_from :: "real \<Rightarrow> string \<Rightarrow> real option" where
  "decimal_from acc [] = Some acc"
| "decimal_from acc (c # cs) =
     (let d = of_char c - 48 :: int in if 0 \<le> d \<and> d \<le> 9 then decimal_from (10 * acc + of_int d) cs else None)"

definition plain_clock :: "string \<Rightarrow> real option" where "plain_clock = decimal_from 0"

definition steady_window :: "(string \<times> sample list) list" where
  "steady_window = [(''factory/timescaledb-0/psi_io'', map (\<lambda>t. \<lparr>sm_ts = Some t, sm_value = Some (1/10)\<rparr>)
     [''10'', ''15'', ''20'', ''25'', ''30'', ''35'', ''40'', ''45'', ''50'', ''55'', ''60'', ''65'']),
   (''factory/timescaledb-0'', [])]"

lemma steady_points:
  "points_of plain_clock (snd (hd steady_window)) =
     Ret (map (\<lambda>t. (t, 1/10)) [10, 15, 20, 25, 30, 35, 40, 45, 50, 55, 60, 65])"
  by (simp add: steady_window_def epoch_def plain_clock_def)

lemma steady_parts:
  "split_on CHR ''/'' ''factory/timescaledb-0/psi_io'' = [''factory'', ''timescaledb-0'', ''psi_io'']"
  "split_on CHR ''/'' ''factory/timescaledb-0'' = [''factory'', ''timescaledb-0'']"
  by simp_all

lemma steady_inputs:
  "\<exists>inp. build_inputs plain_clock default_env steady_window [None] = Ret inp"
proof -
  have k: "\<exists>st'. ingest_key plain_clock want (hd steady_window) st = Ret st'" for want st
    using steady_points by (auto simp: ingest_key_def Let_def)
  have w: "steady_window = [hd steady_window, (''factory/timescaledb-0'', [])]"
    by (simp add: steady_window_def)
  have "ingest_key plain_clock want (''factory/timescaledb-0'', []) st = Ret st" for want st
    by (simp add: ingest_key_def)
  then have "\<exists>st'. ingest plain_clock want steady_window st = Ret st'" for want st
    using k [of want st] by (subst w) auto
  then show ?thesis by (simp add: build_inputs_def)
qed


section \<open>Unreadable inputs\<close>

text \<open>Every sample of a wanted series that has a time has a value; every anomaly names its pod.\<close>

definition readable :: "(string \<Rightarrow> real option) \<Rightarrow> string set \<Rightarrow> string \<times> sample list \<Rightarrow> bool" where
  "readable fromiso want ks \<longleftrightarrow>
     (let parts = split_on CHR ''/'' (fst ks)
      in length parts < 3 \<or> last parts \<notin> want \<or>
         list_all (\<lambda>s. epoch fromiso (sm_ts s) = None \<or> sm_value s \<noteq> None) (snd ks))"

definition located :: "event option \<Rightarrow> bool" where
  "located e \<longleftrightarrow> (case e of None \<Rightarrow> True | Some e \<Rightarrow> ev_kind e \<noteq> Some ''anomaly_candidate'' \<or> ev_pod e \<noteq> None)"

lemma points_of_error:
  "if list_all (\<lambda>s. epoch fromiso (sm_ts s) = None \<or> sm_value s \<noteq> None) ss
   then \<exists>ps. points_of fromiso ss = Ret ps else points_of fromiso ss = Raise KeyError"
  by (induction ss) (auto split: option.split if_splits)

lemma ingest_key_error:
  "if readable fromiso want ks then \<exists>st'. ingest_key fromiso want ks st = Ret st'
   else ingest_key fromiso want ks st = Raise KeyError"
  using points_of_error [of fromiso "snd ks"]
  by (auto simp: readable_def ingest_key_def Let_def split: if_splits)

lemma ingest_error:
  "if list_all (readable fromiso want) window then \<exists>st'. ingest fromiso want window st = Ret st'
   else ingest fromiso want window st = Raise KeyError"
proof (induction window arbitrary: st)
  case (Cons ks window)
  show ?case
  proof (cases "readable fromiso want ks")
    case True
    with ingest_key_error [of fromiso want ks st] obtain st1 where "ingest_key fromiso want ks st = Ret st1" by auto
    with True Cons.IH [of st1] show ?thesis by simp
  next
    case False
    with ingest_key_error [of fromiso want ks st] show ?thesis by simp
  qed
qed simp

lemma located_simps [simp]:
  "located None"
  "located (Some e) \<longleftrightarrow> ev_kind e \<noteq> Some ''anomaly_candidate'' \<or> ev_pod e \<noteq> None"
  by (simp_all add: located_def)

lemma breach_pods_error:
  "if list_all located es then \<exists>ps. breach_pods es = Ret ps else breach_pods es = Raise KeyError"
  by (induction es rule: breach_pods.induct) (auto split: option.split if_splits)

text \<open>Reading the aggregator fails in one way only: the inputs are built unless a timed
  sample of a wanted series lacks its value or an anomaly lacks its pod, and then the error is a
  missing key.  Unparseable times, foreign keys, short series and events that are not objects are
  skipped.\<close>

theorem build_inputs_error:
  "if list_all (readable fromiso (wanted env)) window \<and> list_all located events
   then \<exists>inp. build_inputs fromiso env window events = Ret inp
   else build_inputs fromiso env window events = Raise KeyError"
  using ingest_error [of fromiso "wanted env" window "\<lparr>rg_raw = (\<lambda>_. []), rg_latest = 0\<rparr>"]
    breach_pods_error [of events]
  by (auto simp: build_inputs_def split: if_splits)

section \<open>What the witness couples\<close>

lemma has_pair_combinations2:
  "distinct xs \<Longrightarrow> has_pair (combinations2 xs) a b \<longleftrightarrow> a \<in> set xs \<and> b \<in> set xs \<and> a \<noteq> b"
  using combinations2_all [of a xs b] combinations2_neq [of xs "(a, b)"] combinations2_neq [of xs "(b, a)"]
    combinations2_mem [of "(a, b)" xs] combinations2_mem [of "(b, a)" xs]
  by (auto simp: has_pair_def)

lemma has_pair_filter:
  "(\<And>a b. P (a, b) = P (b, a)) \<Longrightarrow> has_pair (filter P xs) a b \<longleftrightarrow> has_pair xs a b \<and> P (a, b)"
  by (auto simp: has_pair_def)

definition on_disk :: "service_env \<Rightarrow> string \<Rightarrow> bool" where
  "on_disk env p \<longleftrightarrow> stable_workload p \<in> set (sv_storage env)"

text \<open>C23 (safety).  What physics the service grants each signal: on the disk signal exactly the distinct
  pods of the storage workloads are coupled, for symptom and source edges alike; on every other
  signal no symptom edge is admitted at all, and a source edge between any two pods of the node.\<close>

theorem witness_for_couples:
  assumes "witness_for env signal vectors = Ret w" and "distinct (map fst vectors)"
  shows "(couples w a b \<longleftrightarrow> signal = ''psi_io'' \<and> a \<noteq> b \<and> {a, b} \<subseteq> fst ` set vectors \<and>
           on_disk env a \<and> on_disk env b) \<and>
    (couples_source w a b \<longleftrightarrow> a \<noteq> b \<and> {a, b} \<subseteq> fst ` set vectors \<and>
       (if signal = ''psi_io'' then on_disk env a \<and> on_disk env b else True))"
proof -
  have w: "w = \<lparr>w_ebpf = [], w_psi = combinations2 (hot_pods (sv_copr_min env) vectors),
      w_shared = (if signal = ''psi_io'' then filter (\<lambda>(a, b). on_disk env a \<and> on_disk env b)
        (combinations2 (map fst vectors)) else []),
      w_node = (if signal = ''psi_io'' then [] else combinations2 (map fst vectors))\<rparr>"
    using assms(1) by (auto simp: witness_for_def Let_def on_disk_def split: if_splits)
  have none: "\<not> has_pair [] a b" by (simp add: has_pair_def)
  have pairs: "has_pair (combinations2 (map fst vectors)) a b \<longleftrightarrow> a \<noteq> b \<and> {a, b} \<subseteq> fst ` set vectors"
    using has_pair_combinations2 [OF assms(2), of a b] by auto
  have disk: "has_pair (filter (\<lambda>(a, b). on_disk env a \<and> on_disk env b) (combinations2 (map fst vectors))) a b \<longleftrightarrow>
      a \<noteq> b \<and> {a, b} \<subseteq> fst ` set vectors \<and> on_disk env a \<and> on_disk env b"
    by (subst has_pair_filter) (auto simp: pairs)
  show ?thesis
    by (cases "signal = ''psi_io''")
      (simp_all add: w couples_def couples_source_def kinds_def COUPLING_KINDS_def SOURCE_COUPLING_KINDS_def
        disk pairs none)
qed

theorem witness_for_couples_witness:
  "\<exists>w. witness_for default_env ''psi_io''
     [(''timescaledb-0-a'', [1]), (''cooling-monitor-b-c'', [1]), (''vision-qc-d-e'', [1])] = Ret w \<and>
     couples w ''timescaledb-0-a'' ''cooling-monitor-b-c'' \<and> \<not> couples w ''timescaledb-0-a'' ''vision-qc-d-e''"
proof -
  let ?vs = "[(''timescaledb-0-a'', [1]), (''cooling-monitor-b-c'', [1]), (''vision-qc-d-e'', [1])] :: vectors"
  obtain w where w: "witness_for default_env ''psi_io'' ?vs = Ret w" by (simp add: witness_for_def Let_def)
  have d: "distinct (map fst ?vs)" by simp
  have "on_disk default_env ''timescaledb-0-a''" "on_disk default_env ''cooling-monitor-b-c''"
    "\<not> on_disk default_env ''vision-qc-d-e''"
    by (simp_all add: on_disk_def default_env_def stable_workload_def)
  with w witness_for_couples [OF w d, of "''timescaledb-0-a''" "''cooling-monitor-b-c''"]
    witness_for_couples [OF w d, of "''timescaledb-0-a''" "''vision-qc-d-e''"]
  show ?thesis by simp
qed
end
