(* ===== verification/Service.thy ===== *)
theory Service
  imports Merge Service_Inputs Forecast
begin

text \<open>
  \<open>correlation/service.py\<close>, the process: one memory per signal, one iteration of the loop - fetch,
  build the inputs, a pass and an observation per signal, merge, early warning - and the HTTP
  handler.  The fetches are arguments (what \<open>urlopen\<close> and \<open>json.load\<close> gave or raised), as are the
  clock readings of each observation.  The state of the process is the databases of the signals
  and the graph that is served.
\<close>

definition primary :: "service_env \<Rightarrow> string" where
  "primary env = hd (sv_signals env)"

definition signal_config :: "service_env \<Rightarrow> string \<Rightarrow> memory_config" where
  "signal_config env signal =
     (let structural = (signal = ''psi_io'')
      in (sv_memory env)\<lparr>cf_signal := signal,
           cf_prior := (if structural then cf_prior (sv_memory env) else 0),
           cf_floor_frac := (if structural then cf_floor_frac (sv_memory env) else 0)\<rparr>)"

text \<open>\<open>os.path.splitext\<close>: the extension starts at the last dot of the last path component, unless
  only dots precede it there.\<close>

definition splitext :: "string \<Rightarrow> string \<times> string" where
  "splitext p =
     (let name = last (split_on CHR ''/'' p); parts = split_on CHR ''.'' name;
          stem = join_with ''.'' (butlast parts); ext = ''.'' @ last parts
      in if length parts < 2 \<or> list_all (\<lambda>c. c = CHR ''.'') stem then (p, '''')
         else (take (length p - length ext) p, ext))"

definition db_for :: "service_env \<Rightarrow> string \<Rightarrow> string" where
  "db_for env signal =
     (if signal = primary env then sv_memory_db env
      else let (base, ext) = splitext (sv_memory_db env) in base @ ''.'' @ signal @ ext)"

type_synonym memories = "string \<Rightarrow> database"

datatype served = Served merged_graph "incipient list" | ErrorGraph exn

record service_state =
  ss_memory :: memories
  ss_graph :: served

section \<open>One iteration\<close>

text \<open>The pass and the observation of one signal; \<open>None\<close> is \<open>continue\<close>.\<close>

definition signal_args :: "service_env \<Rightarrow> inputs \<Rightarrow> string \<Rightarrow> witness \<Rightarrow> database \<Rightarrow> pass_args" where
  "signal_args env inp sig w db =
     \<lparr>pa_vectors = in_vecs inp sig, pa_witness = w, pa_slo_breach = in_breach inp, pa_caps = Map.empty,
      pa_window = sv_window env,
      pa_write_vectors = (case map_of SIGNAL_SOURCES sig of None \<Rightarrow> [] | Some src \<Rightarrow> in_vecs inp src),
      pa_baselines = Some (\<lambda>pod. baseline_threshold (signal_config env sig) (db_baselines db) (stable_workload pod)),
      pa_recent = sv_recent env\<rparr>"

definition signal_pass ::
    "numlib \<Rightarrow> 'g nxlib \<Rightarrow> (case_key \<Rightarrow> string) \<Rightarrow> service_env \<Rightarrow> inputs \<Rightarrow> (string \<Rightarrow> real \<times> real) \<Rightarrow>
       string \<Rightarrow> database \<Rightarrow> database \<times> rendered_graph option outcome" where
  "signal_pass np nx digest env inp clock sig db =
     (let vectors = in_vecs inp sig; cfg = signal_config env sig
      in if vectors = [] then (db, Ret None)
         else (case witness_for env sig vectors of
             Raise e \<Rightarrow> (db, Raise e) | Hang \<Rightarrow> (db, Hang)
           | Ret w \<Rightarrow>
             (case run_pass np nx (signal_args env inp sig w db) of
                Raise e \<Rightarrow> (db, Raise e) | Hang \<Rightarrow> (db, Hang)
              | Ret g \<Rightarrow>
                  let (db', rg) = observe np nx digest cfg g vectors (Some w) (fst (clock sig)) (snd (clock sig)) db
                  in (db', and_then rg (\<lambda>rg. Ret (Some rg))))))"

fun run_signals ::
    "numlib \<Rightarrow> 'g nxlib \<Rightarrow> (case_key \<Rightarrow> string) \<Rightarrow> service_env \<Rightarrow> inputs \<Rightarrow> (string \<Rightarrow> real \<times> real) \<Rightarrow>
       string list \<Rightarrow> memories \<Rightarrow> (string \<times> rendered_graph) list \<Rightarrow> memories \<times> (string \<times> rendered_graph) list outcome" where
  "run_signals np nx digest env inp clock [] mem rendered = (mem, Ret rendered)"
| "run_signals np nx digest env inp clock (sig # sigs) mem rendered =
     (let (db, res) = signal_pass np nx digest env inp clock sig (mem sig); mem = mem(sig := db)
      in case res of
           Raise e \<Rightarrow> (mem, Raise e) | Hang \<Rightarrow> (mem, Hang)
         | Ret None \<Rightarrow> run_signals np nx digest env inp clock sigs mem rendered
         | Ret (Some rg) \<Rightarrow> run_signals np nx digest env inp clock sigs mem (AList.update sig rg rendered))"

text \<open>What is served when no signal had a vector.\<close>

definition no_data_graph :: "service_env \<Rightarrow> merged_graph" where
  "no_data_graph env = \<lparr>mg_findings = [], mg_edges = [], mg_ranking = [], mg_blast = [],
     mg_signals = sv_signals env, mg_stats = None, mg_held = None, mg_case = None, mg_signal = None,
     mg_pods = 0, mg_active = 0, mg_accepted = 0\<rparr>"

definition memory_limits :: "vectors \<Rightarrow> (string \<times> real) list" where
  "memory_limits lim_vec =
     map (\<lambda>(p, v). (p, last v)) (filter (\<lambda>(p, v). v \<noteq> [] \<and> last v > 0) lim_vec)"

definition pass_once ::
    "numlib \<Rightarrow> 'g nxlib \<Rightarrow> (case_key \<Rightarrow> string) \<Rightarrow> service_env \<Rightarrow> inputs \<Rightarrow> (string \<Rightarrow> real \<times> real) \<Rightarrow>
       memories \<Rightarrow> memories \<times> (merged_graph \<times> incipient list) outcome" where
  "pass_once np nx digest env inp clock mem =
     (let (mem', rendered) = run_signals np nx digest env inp clock (sv_signals env) mem []
      in (mem', and_then rendered (\<lambda>rendered.
           and_then (if rendered = [] then Ret (no_data_graph env)
                     else merge_graphs nx rendered (Some (primary env))) (\<lambda>merged.
           and_then (incipient_findings np (sv_horizon env) DEFAULT_TAIL (sv_min_frac env)
                       (in_vecs inp (sv_forecast env)) (memory_limits (in_vecs inp (sv_limit env)))) (\<lambda>warn.
             Ret (merged, warn))))))"

record tick =
  tk_window :: "(string \<times> sample list) list outcome"
  tk_events :: "event option list outcome"
  tk_clock :: "string \<Rightarrow> real \<times> real"

definition tick_inputs :: "(string \<Rightarrow> real option) \<Rightarrow> service_env \<Rightarrow> tick \<Rightarrow> inputs outcome" where
  "tick_inputs fromiso env tk =
     and_then (tk_window tk) (\<lambda>window. and_then (tk_events tk) (build_inputs fromiso env window))"

text \<open>The body of the loop: any exception becomes the served graph; \<open>None\<close> is an iteration that never
  ends.\<close>

definition loop_body ::
    "numlib \<Rightarrow> 'g nxlib \<Rightarrow> (case_key \<Rightarrow> string) \<Rightarrow> (string \<Rightarrow> real option) \<Rightarrow> service_env \<Rightarrow> tick \<Rightarrow>
       service_state \<Rightarrow> service_state option" where
  "loop_body np nx digest fromiso env tk st =
     (case tick_inputs fromiso env tk of
        Hang \<Rightarrow> None
      | Raise e \<Rightarrow> Some (st\<lparr>ss_graph := ErrorGraph e\<rparr>)
      | Ret inp \<Rightarrow>
          let (mem, res) = pass_once np nx digest env inp (tk_clock tk) (ss_memory st)
          in (case res of
                Hang \<Rightarrow> None
              | Raise e \<Rightarrow> Some \<lparr>ss_memory = mem, ss_graph = ErrorGraph e\<rparr>
              | Ret (m, warn) \<Rightarrow> Some \<lparr>ss_memory = mem, ss_graph = Served m warn\<rparr>))"

fun loop ::
    "numlib \<Rightarrow> 'g nxlib \<Rightarrow> (case_key \<Rightarrow> string) \<Rightarrow> (string \<Rightarrow> real option) \<Rightarrow> service_env \<Rightarrow> tick list \<Rightarrow>
       service_state \<Rightarrow> service_state option" where
  "loop np nx digest fromiso env [] st = Some st"
| "loop np nx digest fromiso env (tk # tks) st =
     Option.bind (loop_body np nx digest fromiso env tk st) (loop np nx digest fromiso env tks)"

definition open_memories :: "service_env \<Rightarrow> real \<Rightarrow> (string \<Rightarrow> database) \<Rightarrow> memories" where
  "open_memories env now disk = (\<lambda>sig. open_memory (signal_config env sig) now (disk (db_for env sig)))"

definition start_graph :: "'g nxlib \<Rightarrow> service_env \<Rightarrow> real \<Rightarrow> memories \<Rightarrow> merged_graph outcome" where
  "start_graph nx env now mem =
     (let boots = map (\<lambda>sig. (sig, bootstrap_graph nx (signal_config env sig) (mem sig) now)) (remdups (sv_signals env))
      in and_then (collect_some (map (\<lambda>(sig, g). and_then g (\<lambda>rg. Ret (Some (sig, rg)))) boots))
           (\<lambda>rendered. merge_graphs nx rendered (Some (primary env))))"

section \<open>The handler\<close>

datatype response = Json served | Plain nat string

definition do_GET :: "service_state \<Rightarrow> string \<Rightarrow> response" where
  "do_GET st path =
     (if path = ''/healthz'' then Plain 200 (''ok'' @ [CHR 0x0A])
      else if rstrip_slash path = '''' \<or> rstrip_slash path = ''/graph'' then Json (ss_graph st)
      else Plain 404 (''not found'' @ [CHR 0x0A]))"

section \<open>The loop never dies\<close>

lemma sane_signal_config: "sane_config (sv_memory env) \<Longrightarrow> sane_config (signal_config env sig)"
  unfolding sane_config_def signal_config_def Let_def by auto

lemma quad_witness:
  assumes "lengths_are GRID_N vectors"
  shows "\<exists>w. witness_for env sig vectors = Ret w"
proof -
  have "\<not> list_ex (\<lambda>(p, v). v = []) vectors"
    using lengths_areD [OF assms] by (fastforce simp: list_ex_iff GRID_N_def)
  then show ?thesis unfolding witness_for_def Let_def by simp
qed

text \<open>Inputs in which no array has the wrong length.\<close>

definition good_inputs :: "inputs \<Rightarrow> bool" where
  "good_inputs inp \<longleftrightarrow> (\<forall>sig. distinct (map fst (in_vecs inp sig)) \<and> lengths_are GRID_N (in_vecs inp sig))"

lemma tick_inputs_good: "tick_inputs fromiso env tk = Ret inp \<Longrightarrow> 0 \<le> sv_step env \<Longrightarrow> good_inputs inp"
  using build_inputs_uniform unfolding good_inputs_def by (fastforce simp: tick_inputs_def)

lemma signal_args_wf:
  "good_inputs inp \<Longrightarrow> wf_pass (signal_args env inp sig w db) \<and> uniform_pass (signal_args env inp sig w db) GRID_N"
  by (auto simp: good_inputs_def wf_pass_def uniform_pass_def signal_args_def GRID_N_def lengths_are_def split: option.split)

lemma signal_pass_returns:
  assumes np: "numeric_library np" and nx: "digraph_library nx" and cfg: "sane_config (sv_memory env)"
    and good: "good_inputs inp" and ok: "edges_ok (signal_config env sig) db"
  shows "\<exists>db' r. signal_pass np nx digest env inp clock sig db = (db', Ret r) \<and>
    edges_ok (signal_config env sig) db' \<and> (case r of None \<Rightarrow> True | Some rg \<Rightarrow> causal_edges (rg_edges rg))"
proof (cases "in_vecs inp sig = []")
  case True
  with ok show ?thesis by (simp add: signal_pass_def)
next
  case False
  obtain w where w: "witness_for env sig (in_vecs inp sig) = Ret w"
    using quad_witness good unfolding good_inputs_def by blast
  note wf = signal_args_wf [OF good, of env sig w db]
  obtain g where g: "run_pass np nx (signal_args env inp sig w db) = Ret g"
    using run_pass_returns_aux [OF np nx conjunct1 [OF wf] conjunct2 [OF wf]] by blast
  have ce: "causal_edges (pg_edges g)" by (rule pass_edges_causal [OF np conjunct1 [OF run_pass_Ret [OF g]]])
  let ?cfg = "signal_config env sig"
  let ?ts = "fst (clock sig)" and ?now = "snd (clock sig)"
  obtain rg where rg: "snd (observe np nx digest ?cfg g (in_vecs inp sig) (Some w) ?ts ?now db) = Ret rg"
    "causal_edges (rg_edges rg)"
    using observe_returns [OF nx ok ce] by blast
  have "fst (observe np nx digest ?cfg g (in_vecs inp sig) (Some w) ?ts ?now db) =
      fst (observe_db np digest ?cfg g (in_vecs inp sig) (Some w) ?ts db)"
    by (simp add: observe_def split: prod.split)
  with observe_edges_ok [OF sane_signal_config [OF cfg] ok ce]
  have "edges_ok ?cfg (fst (observe np nx digest ?cfg g (in_vecs inp sig) (Some w) ?ts ?now db))" by simp
  with False w g rg show ?thesis
    by (cases "observe np nx digest ?cfg g (in_vecs inp sig) (Some w) ?ts ?now db") (simp add: signal_pass_def Let_def)
qed

definition memories_ok :: "service_env \<Rightarrow> memories \<Rightarrow> bool" where
  "memories_ok env mem \<longleftrightarrow> (\<forall>sig. edges_ok (signal_config env sig) (mem sig))"

lemma run_signals_returns:
  assumes np: "numeric_library np" and nx: "digraph_library nx" and cfg: "sane_config (sv_memory env)"
    and good: "good_inputs inp"
  shows "memories_ok env mem \<Longrightarrow> \<forall>sg \<in> set rendered. causal_edges (rg_edges (snd sg)) \<Longrightarrow>
    \<exists>mem' rendered'. run_signals np nx digest env inp clock sigs mem rendered = (mem', Ret rendered') \<and>
      memories_ok env mem' \<and> (\<forall>sg \<in> set rendered'. causal_edges (rg_edges (snd sg)))"
proof (induction sigs arbitrary: mem rendered)
  case (Cons sig sigs)
  from Cons.prems(1) have "edges_ok (signal_config env sig) (mem sig)" by (simp add: memories_ok_def)
  from signal_pass_returns [OF np nx cfg good this, of digest clock] obtain db r where
    r: "signal_pass np nx digest env inp clock sig (mem sig) = (db, Ret r)" "edges_ok (signal_config env sig) db"
    "case r of None \<Rightarrow> True | Some rg \<Rightarrow> causal_edges (rg_edges rg)" by blast
  have mem: "memories_ok env (mem(sig := db))" using Cons.prems(1) r(2) by (simp add: memories_ok_def)
  show ?case
  proof (cases r)
    case None
    then have "run_signals np nx digest env inp clock (sig # sigs) mem rendered =
        run_signals np nx digest env inp clock sigs (mem(sig := db)) rendered" using r(1) by simp
    with Cons.IH [OF mem Cons.prems(2)] show ?thesis by (simp only:)
  next
    case (Some rg)
    have "\<forall>sg \<in> set (AList.update sig rg rendered). causal_edges (rg_edges (snd sg))"
      using Cons.prems(2) r(3) Some by (auto dest!: update_mem)
    note ih = Cons.IH [OF mem this]
    from Some have "run_signals np nx digest env inp clock (sig # sigs) mem rendered =
        run_signals np nx digest env inp clock sigs (mem(sig := db)) (AList.update sig rg rendered)"
      using r(1) by simp
    with ih show ?thesis by (simp only:)
  qed
qed simp

lemma merge_graphs_returns:
  assumes "digraph_library nx" and "\<forall>sg \<in> set per_signal. causal_edges (rg_edges (snd sg))"
  shows "\<exists>m. merge_graphs nx per_signal p = Ret m"
proof -
  obtain rb where "union_diagnosis nx (union_edges per_signal) (union_findings per_signal) = Ret rb"
    using union_diagnosis_returns [OF assms(1) causal_union [OF assms(2)]] by blast
  then show ?thesis by (cases rb) (simp add: merge_graphs_def Let_def)
qed

lemma pass_once_returns:
  assumes np: "numeric_library np" and nx: "digraph_library nx" and cfg: "sane_config (sv_memory env)"
    and good: "good_inputs inp" and ok: "memories_ok env mem"
  shows "\<exists>mem' m warn. pass_once np nx digest env inp clock mem = (mem', Ret (m, warn)) \<and> memories_ok env mem'"
proof -
  obtain mem' rendered where r: "run_signals np nx digest env inp clock (sv_signals env) mem [] = (mem', Ret rendered)"
    "memories_ok env mem'" "\<forall>sg \<in> set rendered. causal_edges (rg_edges (snd sg))"
    using run_signals_returns [OF np nx cfg good ok, of "[]" digest clock "sv_signals env"] by auto
  obtain m where "(if rendered = [] then Ret (no_data_graph env) else merge_graphs nx rendered (Some (primary env))) = Ret m"
    using merge_graphs_returns [OF nx r(3)] by (cases "rendered = []") auto
  moreover obtain warn where "incipient_findings np (sv_horizon env) DEFAULT_TAIL (sv_min_frac env)
      (in_vecs inp (sv_forecast env)) (memory_limits (in_vecs inp (sv_limit env))) = Ret warn"
    using incipient_findings_total by blast
  ultimately show ?thesis using r by (simp add: pass_once_def)
qed

text \<open>A tick whose fetches come back, with an answer or an error: \<open>urlopen\<close> has a timeout.\<close>

definition answered :: "tick \<Rightarrow> bool" where
  "answered tk \<longleftrightarrow> tk_window tk \<noteq> Hang \<and> tk_events tk \<noteq> Hang"

lemma build_inputs_not_Hang: "build_inputs fromiso env window events \<noteq> Hang"
  using ingest_error [of fromiso "wanted env" window "\<lparr>rg_raw = (\<lambda>_. []), rg_latest = 0\<rparr>"]
    breach_pods_error [of events]
  by (auto simp: build_inputs_def split: if_splits)

lemma tick_inputs_not_Hang: "answered tk \<Longrightarrow> tick_inputs fromiso env tk \<noteq> Hang"
  by (cases "tk_window tk"; cases "tk_events tk")
    (auto simp: answered_def tick_inputs_def build_inputs_not_Hang)

text \<open>What an iteration serves: the merged graph whenever the inputs were readable, the error otherwise.\<close>

definition serves :: "inputs outcome \<Rightarrow> served \<Rightarrow> bool" where
  "serves inputs sv \<longleftrightarrow> (case inputs of
     Ret inp \<Rightarrow> \<exists>m warn. sv = Served m warn | Raise e \<Rightarrow> sv = ErrorGraph e | Hang \<Rightarrow> False)"

lemma loop_body_returns:
  assumes np: "numeric_library np" and nx: "digraph_library nx" and cfg: "sane_config (sv_memory env)"
    and step: "0 \<le> sv_step env" and ok: "memories_ok env (ss_memory st)" and tk: "answered tk"
  shows "\<exists>st'. loop_body np nx digest fromiso env tk st = Some st' \<and> memories_ok env (ss_memory st') \<and>
    serves (tick_inputs fromiso env tk) (ss_graph st')"
proof (cases "tick_inputs fromiso env tk")
  case (Ret inp)
  from pass_once_returns [OF np nx cfg tick_inputs_good [OF Ret step] ok, of digest "tk_clock tk"]
  obtain mem' m warn where "pass_once np nx digest env inp (tk_clock tk) (ss_memory st) = (mem', Ret (m, warn))"
    "memories_ok env mem'" by blast
  with Ret show ?thesis by (simp add: loop_body_def serves_def)
next
  case (Raise e)
  with ok show ?thesis by (simp add: loop_body_def serves_def)
next
  case Hang
  with tick_inputs_not_Hang [OF tk] show ?thesis by simp
qed


text \<open>The service just started on an empty disk, a good tick and a failing one.\<close>

definition fresh_state :: service_state where
  "fresh_state = \<lparr>ss_memory = open_memories default_env 1 (\<lambda>_. empty_db), ss_graph = ErrorGraph KeyError\<rparr>"

definition good_tick :: tick where
  "good_tick = \<lparr>tk_window = Ret steady_window, tk_events = Ret [None], tk_clock = (\<lambda>_. (70, 71))\<rparr>"

definition failed_tick :: tick where
  "failed_tick = \<lparr>tk_window = Raise (OtherError ''timed out''), tk_events = Ret [], tk_clock = (\<lambda>_. (80, 81))\<rparr>"

lemma fresh_memories_ok: "memories_ok default_env (ss_memory fresh_state)"
  using db_ok_fresh [of name_digest] by (simp add: memories_ok_def fresh_state_def open_memories_def db_ok_def)

lemma default_env_sane: "sane_config (sv_memory default_env)" "0 \<le> sv_step default_env"
  using default.sane_config_axioms by (simp_all add: default_env_def)


section \<open>Silence end to end\<close>

text \<open>Every pod of the signal is still learning or inside the band its memory learned.\<close>

definition quiet_signal :: "numlib \<Rightarrow> service_env \<Rightarrow> inputs \<Rightarrow> string \<Rightarrow> database \<Rightarrow> bool" where
  "quiet_signal np env inp sig db \<longleftrightarrow> list_all (\<lambda>(p, v).
     case baseline_threshold (signal_config env sig) (db_baselines db) (stable_workload p) of
       None \<Rightarrow> True
     | Some thr \<Rightarrow> np_percentile np (if sv_recent env > 0 then tail_slice (sv_recent env) v else v) 90 \<le> thr)
     (in_vecs inp sig)"

lemma quiet_signal_pass:
  assumes nx: "digraph_library nx" and good: "good_inputs inp"
    and ok: "edges_ok (signal_config env sig) db" and quiet: "quiet_signal np env inp sig db"
  shows "\<exists>db' r. signal_pass np nx digest env inp clock sig db = (db', Ret r) \<and>
    db_library db' = db_library db \<and> (case r of None \<Rightarrow> True | Some rg \<Rightarrow> rg_findings rg = [])"
proof (cases "in_vecs inp sig = []")
  case True
  then show ?thesis by (simp add: signal_pass_def)
next
  case False
  obtain w where w: "witness_for env sig (in_vecs inp sig) = Ret w"
    using quad_witness good unfolding good_inputs_def by blast
  let ?a = "signal_args env inp sig w db"
  have "v \<noteq> []" if "(p, v) \<in> set (in_vecs inp src)" for p v src
    using good that unfolding good_inputs_def by (force simp: GRID_N_def dest: lengths_areD)
  with quiet have "quiet_pass np ?a"
    by (auto simp: quiet_pass_def quiet_signal_def signal_args_def list_all_iff split: option.split)
  from run_pass_silent_aux [OF nx this] obtain g where g: "run_pass np nx ?a = Ret g"
    "pg_findings g = []" "pg_edges g = []" "pg_ranking g = []" by simp
  have ce: "causal_edges (pg_edges g)" by (simp add: g causal_edges_def)
  let ?cfg = "signal_config env sig"
  let ?ts = "fst (clock sig)" and ?now = "snd (clock sig)"
  obtain rg where rg: "snd (observe np nx digest ?cfg g (in_vecs inp sig) (Some w) ?ts ?now db) = Ret rg"
    "rg_findings rg = []"
    using observe_returns [OF nx ok ce, of np digest "in_vecs inp sig" "Some w" ?ts ?now] g(2) by auto
  have "promote_case digest ?cfg g ?ts lb = (lb, None)" for lb
    by (simp add: promote_case_def incident_key_def g)
  then have "db_library (fst (observe np nx digest ?cfg g (in_vecs inp sig) (Some w) ?ts ?now db)) = db_library db"
    by (simp add: observe_def observe_db_def Let_def)
  with False w g(1) rg show ?thesis
    by (cases "observe np nx digest ?cfg g (in_vecs inp sig) (Some w) ?ts ?now db") (simp add: signal_pass_def Let_def)
qed

lemma run_signals_quiet:
  assumes nx: "digraph_library nx" and good: "good_inputs inp"
  shows "distinct sigs \<Longrightarrow> \<forall>sig \<in> set sigs. edges_ok (signal_config env sig) (mem sig) \<and> quiet_signal np env inp sig (mem sig) \<Longrightarrow>
    \<forall>sg \<in> set rendered. rg_findings (snd sg) = [] \<Longrightarrow>
    \<exists>mem' rendered'. run_signals np nx digest env inp clock sigs mem rendered = (mem', Ret rendered') \<and>
      (\<forall>sig. db_library (mem' sig) = db_library (mem sig)) \<and> (\<forall>sg \<in> set rendered'. rg_findings (snd sg) = [])"
proof (induction sigs arbitrary: mem rendered)
  case (Cons sig sigs)
  from Cons.prems(2) have "edges_ok (signal_config env sig) (mem sig)" "quiet_signal np env inp sig (mem sig)" by simp_all
  from quiet_signal_pass [OF nx good this, of digest clock] obtain db r where
    r: "signal_pass np nx digest env inp clock sig (mem sig) = (db, Ret r)" "db_library db = db_library (mem sig)"
    "case r of None \<Rightarrow> True | Some rg \<Rightarrow> rg_findings rg = []" by blast
  have d: "distinct sigs" using Cons.prems(1) by simp
  have q: "\<forall>s \<in> set sigs. edges_ok (signal_config env s) ((mem(sig := db)) s) \<and> quiet_signal np env inp s ((mem(sig := db)) s)"
    using Cons.prems(1,2) by auto
  have same: "\<And>s. db_library ((mem(sig := db)) s) = db_library (mem s)" using r(2) by simp
  define rendered1 where "rendered1 = (case r of None \<Rightarrow> rendered | Some rg \<Rightarrow> AList.update sig rg rendered)"
  have f: "\<forall>sg \<in> set rendered1. rg_findings (snd sg) = []"
    using Cons.prems(3) r(3) by (auto simp: rendered1_def split: option.splits dest!: update_mem)
  have "run_signals np nx digest env inp clock (sig # sigs) mem rendered =
      run_signals np nx digest env inp clock sigs (mem(sig := db)) rendered1"
    using r(1) by (cases r) (simp_all add: rendered1_def)
  with Cons.IH [OF d q f] show ?case unfolding same by (simp only:)
qed simp

lemma union_findings_empty: "\<forall>sg \<in> set ps. rg_findings (snd sg) = [] \<Longrightarrow> union_findings ps = []"
  by (auto simp: union_findings_def)

lemma service_silent_aux:
  assumes "digraph_library nx" and "tick_inputs fromiso env tk = Ret inp" and "0 \<le> sv_step env"
    and "distinct (sv_signals env)"
    and "list_all (\<lambda>sig. edges_ok (signal_config env sig) (ss_memory st sig) \<and>
           quiet_signal np env inp sig (ss_memory st sig)) (sv_signals env)"
  shows "\<exists>mem m warn. loop_body np nx digest fromiso env tk st = Some \<lparr>ss_memory = mem, ss_graph = Served m warn\<rparr> \<and>
    mg_findings m = [] \<and> mg_ranking m = [] \<and> mg_blast m = [] \<and> mg_case m = None \<and>
    (\<forall>sig. db_library (mem sig) = db_library (ss_memory st sig))"
proof -
  from assms(5) have "\<forall>sig \<in> set (sv_signals env). edges_ok (signal_config env sig) (ss_memory st sig) \<and>
           quiet_signal np env inp sig (ss_memory st sig)" by (simp add: list_all_iff)
  from run_signals_quiet [OF assms(1) tick_inputs_good [OF assms(2,3)] assms(4) this, of "[]" digest "tk_clock tk"]
  obtain mem rendered where r: "run_signals np nx digest env inp (tk_clock tk) (sv_signals env) (ss_memory st) [] = (mem, Ret rendered)"
    "\<forall>sig. db_library (mem sig) = db_library (ss_memory st sig)" "\<forall>sg \<in> set rendered. rg_findings (snd sg) = []" by auto
  note uf = union_findings_empty [OF r(3)]
  have "\<exists>m. merge_graphs nx rendered (Some (primary env)) = Ret m \<and> mg_findings m = [] \<and> mg_ranking m = [] \<and>
      mg_blast m = [] \<and> mg_case m = None"
    by (simp add: merge_graphs_def uf union_diagnosis_def active_signal_def Let_def)
  then obtain m where m: "(if rendered = [] then Ret (no_data_graph env) else merge_graphs nx rendered (Some (primary env))) = Ret m"
    "mg_findings m = []" "mg_ranking m = []" "mg_blast m = []" "mg_case m = None"
    by (cases "rendered = []") (auto simp: no_data_graph_def)
  obtain warn where "incipient_findings np (sv_horizon env) DEFAULT_TAIL (sv_min_frac env)
      (in_vecs inp (sv_forecast env)) (memory_limits (in_vecs inp (sv_limit env))) = Ret warn"
    using incipient_findings_total by blast
  with r m assms(2) show ?thesis by (simp add: loop_body_def pass_once_def)
qed

text \<open>C3 (safety).  Steady state is silent end to end: when the inputs are readable and on every signal
  every pod is still learning or inside its learned band, the iteration serves a graph without
  findings, root causes, blast radius or case, and files no case - although it may draw the
  backbone the memories hold, and whatever the pods write.\<close>

theorem service_silent:
  assumes "digraph_library nx" and "tick_inputs fromiso env tk = Ret inp" and "0 \<le> sv_step env"
    and "distinct (sv_signals env)"
    and "list_all (\<lambda>sig. edges_ok (signal_config env sig) (ss_memory st sig) \<and>
           quiet_signal np env inp sig (ss_memory st sig)) (sv_signals env)"
  shows "\<exists>mem m warn. loop_body np nx digest fromiso env tk st = Some \<lparr>ss_memory = mem, ss_graph = Served m warn\<rparr> \<and>
    mg_findings m = [] \<and> mg_ranking m = [] \<and> mg_blast m = [] \<and> mg_case m = None \<and>
    (\<forall>sig. db_library (mem sig) = db_library (ss_memory st sig))"
  by (rule service_silent_aux [OF assms])

lemma fresh_quiet: "quiet_signal np default_env inp sig (ss_memory fresh_state sig)"
  by (simp add: quiet_signal_def fresh_state_def open_memories_def open_memory_def record_model_version_def
      migrate_def empty_db_def baseline_threshold_def tbl_select_def list_all_iff Let_def)

theorem service_silent_witness:
  "\<exists>mem m warn. loop_body ref_np dict_nx name_digest plain_clock default_env good_tick fresh_state =
     Some \<lparr>ss_memory = mem, ss_graph = Served m warn\<rparr> \<and> mg_findings m = []"
proof -
  obtain inp where inp: "tick_inputs plain_clock default_env good_tick = Ret inp"
    using steady_inputs by (auto simp: tick_inputs_def good_tick_def)
  have "list_all (\<lambda>sig. edges_ok (signal_config default_env sig) (ss_memory fresh_state sig) \<and>
      quiet_signal ref_np default_env inp sig (ss_memory fresh_state sig)) (sv_signals default_env)"
    using fresh_memories_ok fresh_quiet by (simp add: list_all_iff memories_ok_def)
  moreover have "distinct (sv_signals default_env)" by (simp add: default_env_def)
  ultimately show ?thesis
    using service_silent [OF dict.digraph_library_axioms inp default_env_sane(2)] by blast
qed

section \<open>One database per signal\<close>

lemma splitext_append: "splitext p = (b, e) \<Longrightarrow> b @ e = p"
proof -
  assume s: "splitext p = (b, e)"
  let ?parts = "split_on CHR ''.'' (last (split_on CHR ''/'' p))"
  show ?thesis
  proof (cases "length ?parts < 2 \<or> list_all (\<lambda>c. c = CHR ''.'') (join_with ''.'' (butlast ?parts))")
    case True
    with s show ?thesis by (auto simp: splitext_def Let_def)
  next
    case False
    have e: "e = ''.'' @ last ?parts" and b: "b = take (length p - length e) p"
      using s False by (auto simp: splitext_def Let_def)
    obtain x where x: "p = x @ last (split_on CHR ''/'' p)" using split_on_suffix by blast
    obtain y where y: "last (split_on CHR ''/'' p) = y @ e"
      using split_on_suffix_sep [of "CHR ''.''" "last (split_on CHR ''/'' p)"] False e by auto
    have "p = (x @ y) @ e" by (subst x, subst y) simp
    with b show ?thesis by auto
  qed
qed

text \<open>Signals never share a database: the paths of different signals are different, the
  primary signal keeping the configured path.\<close>

theorem db_for_inj:
  "inj (db_for env) \<and> db_for env (primary env) = sv_memory_db env"
proof -
  obtain b e where be: "splitext (sv_memory_db env) = (b, e)" by (cases "splitext (sv_memory_db env)")
  have p: "b @ e = sv_memory_db env" by (rule splitext_append [OF be])
  have other: "db_for env s = b @ ''.'' @ s @ e" if "s \<noteq> primary env" for s
    using that be by (simp add: db_for_def)
  have neq: "db_for env s \<noteq> sv_memory_db env" if "s \<noteq> primary env" for s
  proof
    assume "db_for env s = sv_memory_db env"
    then have "length (b @ ''.'' @ s @ e) = length (b @ e)" by (simp only: other [OF that] p)
    then show False by simp
  qed
  have prim: "db_for env (primary env) = sv_memory_db env" by (simp add: db_for_def)
  have "s = t" if eq: "db_for env s = db_for env t" for s t
  proof (cases "s = primary env \<or> t = primary env")
    case True
    with eq prim neq [of s] neq [of t] show ?thesis by metis
  next
    case False
    with eq other show ?thesis by simp
  qed
  with prim show ?thesis by (auto simp: inj_def)
qed
end
