(* ===== verification/Service_Threads.thy ===== *)
theory Service_Threads
  imports Service
begin

text \<open>
  \<open>correlation/service.py\<close>, the two threads: \<open>loop\<close> computes an iteration on data of its own and then
  assigns \<open>_graph\<close> under \<open>_lock\<close>; the HTTP server answers requests, reading \<open>_graph\<close> under the same lock.
  A step is one critical section or one computation without shared state, so the interleavings
  are those of a step relation.  Requests are served one at a time (\<open>HTTPServer\<close>).
\<close>

text \<open>The graph that is shared, the databases only the loop touches, what the loop has computed and not
  yet published, the ticks it has consumed and the answers given so far.\<close>

record threads =
  th_graph :: served
  th_memory :: memories
  th_pending :: "service_state option"
  th_ticks :: "tick list"
  th_log :: "(nat \<times> string \<times> response) list"

definition start_threads :: "service_state \<Rightarrow> threads" where
  "start_threads st = \<lparr>th_graph = ss_graph st, th_memory = ss_memory st, th_pending = None, th_ticks = [], th_log = []\<rparr>"

text \<open>An answer is logged with the number of iterations published before it.\<close>

definition answer_GET :: "string \<Rightarrow> threads \<Rightarrow> threads" where
  "answer_GET path th = th\<lparr>th_log := th_log th @
     [(length (th_ticks th) - (if th_pending th = None then 0 else 1), path,
       do_GET \<lparr>ss_memory = th_memory th, ss_graph = th_graph th\<rparr> path)]\<rparr>"

lemma answer_GET_fields [simp]:
  "th_graph (answer_GET path th) = th_graph th" "th_memory (answer_GET path th) = th_memory th"
  "th_pending (answer_GET path th) = th_pending th" "th_ticks (answer_GET path th) = th_ticks th"
  by (simp_all add: answer_GET_def)

inductive thread_step ::
    "numlib \<Rightarrow> 'g nxlib \<Rightarrow> (case_key \<Rightarrow> string) \<Rightarrow> (string \<Rightarrow> real option) \<Rightarrow> service_env \<Rightarrow> threads \<Rightarrow> threads \<Rightarrow> bool"
  for np nx digest fromiso env where
  computes: "th_pending th = None \<Longrightarrow>
     loop_body np nx digest fromiso env tk \<lparr>ss_memory = th_memory th, ss_graph = th_graph th\<rparr> = Some st \<Longrightarrow>
     thread_step np nx digest fromiso env th
       (th\<lparr>th_memory := ss_memory st, th_pending := Some st, th_ticks := th_ticks th @ [tk]\<rparr>)"
| publishes: "th_pending th = Some st \<Longrightarrow>
     thread_step np nx digest fromiso env th (th\<lparr>th_graph := ss_graph st, th_pending := None\<rparr>)"
| answers: "thread_step np nx digest fromiso env th (answer_GET path th)"

inductive thread_run ::
    "numlib \<Rightarrow> 'g nxlib \<Rightarrow> (case_key \<Rightarrow> string) \<Rightarrow> (string \<Rightarrow> real option) \<Rightarrow> service_env \<Rightarrow> service_state \<Rightarrow> threads \<Rightarrow> bool"
  for np nx digest fromiso env st where
  starts: "thread_run np nx digest fromiso env st (start_threads st)"
| steps: "thread_run np nx digest fromiso env st th \<Longrightarrow> thread_step np nx digest fromiso env th th' \<Longrightarrow>
     thread_run np nx digest fromiso env st th'"

inductive_cases thread_stepE: "thread_step np nx digest fromiso env th th'"

lemma loop_snoc:
  "loop np nx digest fromiso env (tks @ [tk]) st =
     Option.bind (loop np nx digest fromiso env tks st) (loop_body np nx digest fromiso env tk)"
  by (induction tks arbitrary: st) (simp_all add: bind_assoc Option.bind_assoc split: Option.bind_split)

text \<open>The iterations whose graph has been published, and the state after them.\<close>

definition published :: "threads \<Rightarrow> tick list" where
  "published th = (case th_pending th of None \<Rightarrow> th_ticks th | Some _ \<Rightarrow> butlast (th_ticks th))"

definition threads_ok ::
    "numlib \<Rightarrow> 'g nxlib \<Rightarrow> (case_key \<Rightarrow> string) \<Rightarrow> (string \<Rightarrow> real option) \<Rightarrow> service_env \<Rightarrow> service_state \<Rightarrow> threads \<Rightarrow> bool" where
  "threads_ok np nx digest fromiso env st th \<longleftrightarrow>
     (\<exists>mid. loop np nx digest fromiso env (published th) st = Some mid \<and> ss_graph mid = th_graph th \<and>
        (th_pending th = None \<longrightarrow> ss_memory mid = th_memory th)) \<and>
     (\<forall>st'. th_pending th = Some st' \<longrightarrow> th_ticks th \<noteq> [] \<and>
        loop np nx digest fromiso env (th_ticks th) st = Some st' \<and> ss_memory st' = th_memory th)"

definition log_ok ::
    "numlib \<Rightarrow> 'g nxlib \<Rightarrow> (case_key \<Rightarrow> string) \<Rightarrow> (string \<Rightarrow> real option) \<Rightarrow> service_env \<Rightarrow> service_state \<Rightarrow> threads \<Rightarrow> bool" where
  "log_ok np nx digest fromiso env st th \<longleftrightarrow> sorted (map fst (th_log th)) \<and>
     list_all (\<lambda>(k, path, r). k \<le> length (published th) \<and>
       (\<exists>s. loop np nx digest fromiso env (take k (th_ticks th)) st = Some s \<and> r = do_GET s path)) (th_log th)"

lemma published_answer [simp]: "published (answer_GET path th) = published th"
  by (simp add: published_def split: option.split)

lemma do_GET_graph: "ss_graph s = ss_graph s' \<Longrightarrow> do_GET s path = do_GET s' path"
  by (simp add: do_GET_def)

lemma published_prefix: "published th = take (length (published th)) (th_ticks th)"
  by (simp add: published_def butlast_conv_take split: option.split)

lemma threads_ok_step:
  assumes "thread_step np nx digest fromiso env th th'" and "threads_ok np nx digest fromiso env st th"
  shows "threads_ok np nx digest fromiso env st th'"
  using assms
proof (cases rule: thread_step.cases)
  case (computes tk st')
  with assms(2) obtain mid where "loop np nx digest fromiso env (th_ticks th) st = Some mid"
    "mid = \<lparr>ss_memory = th_memory th, ss_graph = th_graph th\<rparr>"
    by (auto simp: threads_ok_def published_def)
  with computes show ?thesis by (auto simp: threads_ok_def published_def loop_snoc)
next
  case (publishes st')
  with assms(2) show ?thesis by (auto simp: threads_ok_def published_def)
qed (simp_all add: threads_ok_def)

lemma published_step:
  "thread_step np nx digest fromiso env th th' \<Longrightarrow> threads_ok np nx digest fromiso env st th \<Longrightarrow>
     length (published th) \<le> length (published th') \<and> take (length (th_ticks th)) (th_ticks th') = th_ticks th"
  by (erule thread_stepE) (auto simp: published_def threads_ok_def split: option.splits)

lemma published_le_ticks: "length (published th) \<le> length (th_ticks th)"
  by (simp add: published_def split: option.split)

lemma log_ok_step:
  assumes step: "thread_step np nx digest fromiso env th th'" and ok: "threads_ok np nx digest fromiso env st th"
    and log: "log_ok np nx digest fromiso env st th"
  shows "log_ok np nx digest fromiso env st th'"
proof -
  note grow = published_step [OF step ok]
  have old: "k \<le> length (published th') \<and> (\<exists>s. loop np nx digest fromiso env (take k (th_ticks th')) st = Some s \<and> r = do_GET s path)"
    if "(k, path, r) \<in> set (th_log th)" for k path r
  proof -
    from log that have k: "k \<le> length (published th)"
      and s: "\<exists>s. loop np nx digest fromiso env (take k (th_ticks th)) st = Some s \<and> r = do_GET s path"
      by (auto simp: log_ok_def list_all_iff)
    have "take k (th_ticks th') = take k (take (length (th_ticks th)) (th_ticks th'))"
      using k published_le_ticks [of th] by (simp add: min_def)
    with grow k s show ?thesis by simp
  qed
  from step show ?thesis
  proof (cases rule: thread_step.cases)
    case (answers path)
    let ?k = "length (published th)"
    have new: "th_log th' = th_log th @ [(?k, path, do_GET \<lparr>ss_memory = th_memory th, ss_graph = th_graph th\<rparr> path)]"
      by (simp add: answers answer_GET_def published_def split: option.split)
    from ok obtain mid where mid: "loop np nx digest fromiso env (published th) st = Some mid" "ss_graph mid = th_graph th"
      by (auto simp: threads_ok_def)
    have "th_ticks th' = th_ticks th" "published th' = published th" by (simp_all add: answers)
    moreover have "do_GET \<lparr>ss_memory = th_memory th, ss_graph = th_graph th\<rparr> path = do_GET mid path"
      by (rule do_GET_graph) (simp add: mid)
    ultimately show ?thesis
      using old log mid published_prefix [of th]
      by (auto simp: log_ok_def new list_all_iff sorted_append)
  qed (use old log in \<open>auto simp: log_ok_def list_all_iff\<close>)
qed

lemma thread_run_ok:
  assumes "thread_run np nx digest fromiso env st th"
  shows "threads_ok np nx digest fromiso env st th \<and> log_ok np nx digest fromiso env st th"
  using assms
proof (induction rule: thread_run.induct)
  case starts
  show ?case by (simp add: threads_ok_def log_ok_def start_threads_def published_def)
next
  case (steps th th')
  then show ?case using threads_ok_step log_ok_step by blast
qed

text \<open>C2 (invariant).  The handler never sees a torn state: in every interleaving of the loop and the server,
  each answer is the one the sequential service would give after some prefix of the iterations -
  the graph before the first, or one that an iteration computed as a whole, the error graph
  included - and later answers never go back to an earlier graph.\<close>

theorem answers_are_sequential:
  assumes "thread_run np nx digest fromiso env st th"
  shows "sorted (map fst (th_log th)) \<and>
    list_all (\<lambda>(k, path, r). k \<le> length (th_ticks th) \<and>
      (\<exists>s. loop np nx digest fromiso env (take k (th_ticks th)) st = Some s \<and> r = do_GET s path)) (th_log th)"
  using thread_run_ok [OF assms] published_le_ticks [of th]
  by (auto simp: log_ok_def list_all_iff dest!: bspec)

definition first_answer :: threads where
  "first_answer = answer_GET ''/graph/'' (start_threads fresh_state)"

theorem answers_are_sequential_witness:
  "list_all (\<lambda>(k, path, r). r = Json (ss_graph fresh_state)) (th_log first_answer) \<and> length (th_log first_answer) = 1"
proof -
  have "thread_run ref_np dict_nx name_digest plain_clock default_env fresh_state first_answer"
    unfolding first_answer_def by (rule thread_run.steps [OF thread_run.starts thread_step.answers])
  from answers_are_sequential [OF this] show ?thesis
    by (auto simp: first_answer_def answer_GET_def start_threads_def do_GET_def rstrip_slash_def)
qed

section \<open>The loop is never stuck\<close>

text \<open>Whatever the server does in between, a service whose memories are sound can take and publish the next
  answered tick.\<close>

lemma threads_progress:
  assumes "thread_run np nx digest fromiso env st th" and "numeric_library np" and "digraph_library nx"
    and "sane_config (sv_memory env)" and "0 \<le> sv_step env" and "memories_ok env (th_memory th)" and "answered tk"
    and "th_pending th = None"
  shows "\<exists>th1 th2. thread_step np nx digest fromiso env th th1 \<and> thread_step np nx digest fromiso env th1 th2 \<and>
    th_ticks th2 = th_ticks th @ [tk] \<and> memories_ok env (th_memory th2) \<and> th_pending th2 = None"
proof -
  obtain st' where st': "loop_body np nx digest fromiso env tk \<lparr>ss_memory = th_memory th, ss_graph = th_graph th\<rparr> = Some st'"
    "memories_ok env (ss_memory st')"
    using loop_body_returns [OF assms(2-5), of "\<lparr>ss_memory = th_memory th, ss_graph = th_graph th\<rparr>" tk digest fromiso] assms(6,7)
    by auto
  let ?th1 = "th\<lparr>th_memory := ss_memory st', th_pending := Some st', th_ticks := th_ticks th @ [tk]\<rparr>"
  have "thread_step np nx digest fromiso env th ?th1" by (rule thread_step.computes [OF assms(8) st'(1)])
  moreover have "thread_step np nx digest fromiso env ?th1 (?th1\<lparr>th_graph := ss_graph st', th_pending := None\<rparr>)"
    by (rule thread_step.publishes) simp
  ultimately show ?thesis using st'(2)
    by (intro exI [of _ ?th1] exI [of _ "?th1\<lparr>th_graph := ss_graph st', th_pending := None\<rparr>"]) simp
qed

end
