(* ===== verification/Service_Config.thy ===== *)
theory Service_Config
  imports Service Text
begin

text \<open>
  The settings of \<open>correlation/service.py\<close>: the module reads them from the environment when it is loaded, the
  memory of each signal is configured by \<open>_config\<close>.  A setting that is no number stops the process at once, and
  so does an empty list of signals.  \<open>float\<close> and \<open>int\<close> are those of decimal literals; the two windows are
  lengths, negative ones are outside the model.
\<close>

type_synonym environ = "string \<Rightarrow> string option"

definition setting :: "environ \<Rightarrow> string \<Rightarrow> string \<Rightarrow> string" where
  "setting environ k dflt = (case environ k of None \<Rightarrow> dflt | Some s \<Rightarrow> s)"

definition to_float :: "string \<Rightarrow> real outcome" where
  "to_float s = (case parse_float (strip s) of None \<Rightarrow> Raise ValueError | Some x \<Rightarrow> Ret x)"

definition to_int :: "string \<Rightarrow> int outcome" where
  "to_int s = (case parse_exponent (strip s) of None \<Rightarrow> Raise ValueError | Some k \<Rightarrow> Ret k)"

definition float_setting :: "environ \<Rightarrow> string \<Rightarrow> string \<Rightarrow> real outcome" where
  "float_setting environ k dflt = to_float (setting environ k dflt)"

definition int_setting :: "environ \<Rightarrow> string \<Rightarrow> string \<Rightarrow> int outcome" where
  "int_setting environ k dflt = to_int (setting environ k dflt)"

definition load_signals :: "environ \<Rightarrow> string list" where
  "load_signals environ =
     filter (\<lambda>s. s \<noteq> '''') (map strip (split_on CHR '','' (setting environ ''ENGINE_SIGNALS'' ''psi_io,psi_cpu,psi_mem'')))"

definition load_storage :: "environ \<Rightarrow> string list" where
  "load_storage environ =
     map strip (split_on CHR '','' (setting environ ''STORAGE_WORKLOADS'' ''cooling-monitor,dcim-bridge,log-archiver,timescaledb''))"

text \<open>The prior and the floor are read for the disk signal only.\<close>

definition config_for :: "environ \<Rightarrow> string \<Rightarrow> memory_config outcome" where
  "config_for environ signal =
     (let structural = (signal = ''psi_io''); flt = float_setting environ in
      and_then (flt ''EDGE_ALPHA'' ''0.4'') (\<lambda>alpha.
      and_then (flt ''EDGE_DECAY'' ''0.1'') (\<lambda>decay.
      and_then (flt ''EDGE_SHOW'' ''0.6'') (\<lambda>shw.
      and_then (flt ''EDGE_HIDE'' ''0.25'') (\<lambda>hide.
      and_then (if structural then flt ''EDGE_PRIOR'' ''0.2'' else Ret 0) (\<lambda>prior.
      and_then (if structural then flt ''EDGE_FLOOR_FRAC'' ''0.4'' else Ret 0) (\<lambda>floor_frac.
      and_then (flt ''CASE_TAU_MERGE'' ''0.85'') (\<lambda>tau_merge.
      and_then (flt ''CASE_TAU_FAMILY'' ''0.60'') (\<lambda>tau_family.
      and_then (flt ''BASE_ALPHA'' ''0.05'') (\<lambda>base_alpha.
      and_then (flt ''DEV_K'' ''4.0'') (\<lambda>dev_k.
      and_then (flt ''MAD_FLOOR'' ''0.01'') (\<lambda>mad_floor.
      and_then (int_setting environ ''BASE_MIN_N'' ''12'') (\<lambda>base_min_n.
        Ret \<lparr>cf_signal = signal, cf_alpha = alpha, cf_decay = decay, cf_show = shw, cf_hide = hide,
          cf_prior = prior, cf_floor_frac = floor_frac, cf_tau_merge = tau_merge, cf_tau_family = tau_family,
          cf_base_alpha = base_alpha, cf_dev_k = dev_k, cf_mad_floor = mad_floor,
          cf_base_min_n = nat base_min_n\<rparr>)))))))))))))"

fun configs_for :: "environ \<Rightarrow> string list \<Rightarrow> (string \<times> memory_config) list outcome" where
  "configs_for environ [] = Ret []"
| "configs_for environ (s # ss) =
     and_then (config_for environ s) (\<lambda>c. and_then (configs_for environ ss) (\<lambda>cs. Ret ((s, c) # cs)))"

record process_settings =
  ps_window_url :: string
  ps_events_url :: string
  ps_interval :: int
  ps_port :: int
  ps_env :: service_env

text \<open>The module body up to \<open>_memory\<close>.  One configuration stands for all of them in \<open>ps_env\<close>: that of the disk
  signal when it is among the signals.\<close>

definition load_settings :: "environ \<Rightarrow> process_settings outcome" where
  "load_settings environ =
     (let signals = load_signals environ in
      if signals = [] then Raise IndexError
      else
        and_then (float_setting environ ''FORECAST_HORIZON_S'' ''900'') (\<lambda>horizon.
        and_then (float_setting environ ''FORECAST_MIN_FRAC'' ''0.5'') (\<lambda>min_frac.
        and_then (int_setting environ ''ENGINE_INTERVAL'' ''10'') (\<lambda>interval.
        and_then (int_setting environ ''ENGINE_PORT'' ''9100'') (\<lambda>port.
        and_then (float_setting environ ''COPRESSURE_MIN'' ''0.10'') (\<lambda>copr.
        and_then (int_setting environ ''ANALYSIS_WINDOW'' ''36'') (\<lambda>window.
        and_then (int_setting environ ''RESET_WINDOW'' ''24'') (\<lambda>recent.
        and_then (float_setting environ ''POLL_S'' ''5'') (\<lambda>step.
        and_then (configs_for environ signals) (\<lambda>configs.
          Ret \<lparr>ps_window_url = setting environ ''WINDOW_URL'' ''http://aggregator.aiops.svc:9000/window'',
            ps_events_url = setting environ ''EVENTS_URL'' ''http://aggregator.aiops.svc:9000/events'',
            ps_interval = interval, ps_port = port,
            ps_env = \<lparr>sv_signals = signals, sv_forecast = setting environ ''FORECAST_SIGNAL'' ''mem'',
              sv_limit = setting environ ''FORECAST_LIMIT'' ''mem_limit'', sv_horizon = horizon,
              sv_min_frac = min_frac, sv_copr_min = copr, sv_window = nat window, sv_recent = nat recent,
              sv_step = step, sv_memory_db = setting environ ''MEMORY_DB'' ''/var/lib/skn/memory/l3-memory.db'',
              sv_storage = load_storage environ,
              sv_memory = (case map_of configs ''psi_io'' of Some c \<Rightarrow> c | None \<Rightarrow> snd (hd configs))\<rparr>\<rparr>))))))))))"

section \<open>Loading the settings\<close>

lemma literals:
  "parse_float ''0.4'' = Some (4/10)" "parse_float ''0.1'' = Some (1/10)" "parse_float ''0.6'' = Some (6/10)"
  "parse_float ''0.25'' = Some (25/100)" "parse_float ''0.2'' = Some (2/10)" "parse_float ''0.85'' = Some (85/100)"
  "parse_float ''0.60'' = Some (60/100)" "parse_float ''0.05'' = Some (5/100)" "parse_float ''4.0'' = Some 4"
  "parse_float ''0.01'' = Some (1/100)" "parse_float ''900'' = Some 900" "parse_float ''0.5'' = Some (1/2)"
  "parse_float ''0.10'' = Some (1/10)" "parse_float ''5'' = Some 5"
  "parse_exponent ''12'' = Some 12" "parse_exponent ''10'' = Some 10" "parse_exponent ''9100'' = Some 9100"
  "parse_exponent ''36'' = Some 36" "parse_exponent ''24'' = Some 24"
  by (simp_all add: parse_float_def parse_exponent_def signed_def parse_mantissa_def parse_nat_def read_digits_def
      digit_val_def is_digit_def)


lemma strip_id: "s \<noteq> [] \<Longrightarrow> \<not> is_space (hd s) \<Longrightarrow> \<not> is_space (last s) \<Longrightarrow> strip s = s"
proof -
  assume s: "s \<noteq> []" "\<not> is_space (hd s)" "\<not> is_space (last s)"
  have d: "dropWhile is_space t = t" if "t \<noteq> []" "\<not> is_space (hd t)" for t
    using that by (cases t) simp_all
  from s d [of s] d [of "rev s"] show ?thesis by (simp add: strip_def hd_rev)
qed

lemma unset [simp]: "setting (\<lambda>_. None) k d = d" "setting Map.empty k d = d"
  by (simp_all add: setting_def)

lemma default_signals: "load_signals Map.empty = [''psi_io'', ''psi_cpu'', ''psi_mem'']"
  by (simp add: load_signals_def strip_id is_space_def)

lemma default_storage: "load_storage Map.empty = [''cooling-monitor'', ''dcim-bridge'', ''log-archiver'', ''timescaledb'']"
  by (simp add: load_storage_def strip_id is_space_def)

lemma default_float: "float_setting Map.empty k d = to_float d" "int_setting Map.empty k d = to_int d"
  by (simp_all add: float_setting_def int_setting_def)

lemma default_texts:
  "to_float ''0.4'' = Ret (4/10)" "to_float ''0.1'' = Ret (1/10)" "to_float ''0.6'' = Ret (6/10)"
  "to_float ''0.25'' = Ret (25/100)" "to_float ''0.2'' = Ret (2/10)" "to_float ''0.85'' = Ret (85/100)"
  "to_float ''0.60'' = Ret (60/100)" "to_float ''0.05'' = Ret (5/100)" "to_float ''4.0'' = Ret 4"
  "to_float ''0.01'' = Ret (1/100)" "to_float ''900'' = Ret 900" "to_float ''0.5'' = Ret (1/2)"
  "to_float ''0.10'' = Ret (1/10)" "to_float ''5'' = Ret 5"
  "to_int ''12'' = Ret 12" "to_int ''10'' = Ret 10" "to_int ''9100'' = Ret 9100"
  "to_int ''36'' = Ret 36" "to_int ''24'' = Ret 24"
  by (simp_all add: to_float_def to_int_def strip_id is_space_def literals)

lemma default_config_for:
  "config_for Map.empty sig = Ret (signal_config default_env sig)"
  by (simp add: config_for_def default_float default_texts signal_config_def default_env_def default_config_def Let_def)

lemma default_configs:
  "configs_for Map.empty sigs = Ret (map (\<lambda>s. (s, signal_config default_env s)) sigs)"
  by (induction sigs) (simp_all add: default_config_for)

lemma default_settings: "\<exists>ps. load_settings Map.empty = Ret ps \<and> ps_env ps = default_env \<and> ps_interval ps = 10 \<and> ps_port ps = 9100"
  by (simp add: load_settings_def default_signals default_float default_texts default_configs default_storage
      default_env_def signal_config_def default_config_def Let_def)

definition raises_only :: "exn \<Rightarrow> 'a outcome \<Rightarrow> bool" where
  "raises_only e m \<longleftrightarrow> (case m of Ret _ \<Rightarrow> True | Raise e' \<Rightarrow> e' = e | Hang \<Rightarrow> False)"

lemma raises_only_simps [simp]:
  "raises_only e (Ret x)" "raises_only e (Raise e') \<longleftrightarrow> e' = e" "\<not> raises_only e Hang"
  by (simp_all add: raises_only_def)

lemma raises_only_and_then: "raises_only e m \<Longrightarrow> (\<And>x. raises_only e (f x)) \<Longrightarrow> raises_only e (and_then m f)"
  by (cases m) simp_all

lemma raises_only_setting: "raises_only ValueError (float_setting environ k d)" "raises_only ValueError (int_setting environ k d)"
  by (simp_all add: float_setting_def int_setting_def to_float_def to_int_def split: option.split)

lemma raises_only_config: "raises_only ValueError (config_for environ s)"
  unfolding config_for_def Let_def by (intro raises_only_and_then) (simp_all add: raises_only_setting)

lemma raises_only_configs: "raises_only ValueError (configs_for environ ss)"
  by (induction ss) (auto intro!: raises_only_and_then raises_only_config)

lemma load_settings_errors:
  "if load_signals environ = [] then load_settings environ = Raise IndexError
   else raises_only ValueError (load_settings environ)"
proof (cases "load_signals environ = []")
  case False
  then have "raises_only ValueError (load_settings environ)"
    unfolding load_settings_def Let_def if_not_P [OF False]
    by (intro raises_only_and_then raises_only_setting raises_only_configs) simp
  with False show ?thesis by simp
qed (simp add: load_settings_def)

lemma configs_for_Ret:
  "configs_for environ ss = Ret cs \<longleftrightarrow> map fst cs = ss \<and> list_all (\<lambda>(s, c). config_for environ s = Ret c) cs"
proof (induction ss arbitrary: cs)
  case step: (Cons s ss)
  show ?case
  proof (cases cs)
    case Nil
    then show ?thesis by simp
  next
    case (Cons sc cs')
    obtain s' c where "sc = (s', c)" by (cases sc)
    with Cons step [of cs'] show ?thesis by auto
  qed
qed auto

text \<open>The configurations of two signals differ in the signal and in what only the disk has.\<close>

lemma config_for_agree:
  assumes "config_for environ s = Ret c" and "config_for environ s' = Ret c'" and "s' = ''psi_io'' \<longrightarrow> s = ''psi_io''"
  shows "c' = c\<lparr>cf_signal := s', cf_prior := (if s' = ''psi_io'' then cf_prior c else 0),
    cf_floor_frac := (if s' = ''psi_io'' then cf_floor_frac c else 0)\<rparr>"
  using assms by (cases "s = ''psi_io''"; cases "s' = ''psi_io''") (auto simp: config_for_def Let_def)

lemma load_settings_Ret:
  assumes "load_settings environ = Ret ps"
  obtains cs where "load_signals environ \<noteq> []" "configs_for environ (load_signals environ) = Ret cs"
    "sv_signals (ps_env ps) = load_signals environ"
    "sv_memory (ps_env ps) = (case map_of cs ''psi_io'' of Some c \<Rightarrow> c | None \<Rightarrow> snd (hd cs))"
  using assms by (auto simp: load_settings_def Let_def split: if_splits)

lemma loaded_configs:
  assumes ps: "load_settings environ = Ret ps" and sig: "sig \<in> set (sv_signals (ps_env ps))"
  shows "config_for environ sig = Ret (signal_config (ps_env ps) sig)"
proof -
  obtain cs where cs: "load_signals environ \<noteq> []" "map fst cs = load_signals environ"
    "list_all (\<lambda>(s, c). config_for environ s = Ret c) cs" "sv_signals (ps_env ps) = load_signals environ"
    "sv_memory (ps_env ps) = (case map_of cs ''psi_io'' of Some c \<Rightarrow> c | None \<Rightarrow> snd (hd cs))"
    using load_settings_Ret [OF ps] unfolding configs_for_Ret by metis
  have entry: "config_for environ s = Ret c" if "(s, c) \<in> set cs" for s c using cs(3) that by (auto simp: list_all_iff)
  have "sig \<in> set (map fst cs)" using sig by (simp only: cs(2,4))
  then obtain c where c: "(sig, c) \<in> set cs" by auto
  obtain s0 c0 where c0: "(s0, c0) \<in> set cs" "sv_memory (ps_env ps) = c0" "sig = ''psi_io'' \<longrightarrow> s0 = ''psi_io''"
  proof (cases "map_of cs ''psi_io''")
    case (Some c)
    then show ?thesis using that [of "''psi_io''" c] cs(5) map_of_SomeD by fastforce
  next
    case None
    with \<open>sig \<in> set (map fst cs)\<close> have "sig \<noteq> ''psi_io''" unfolding map_of_eq_None_iff set_map by metis
    moreover have "cs \<noteq> []" using c by auto
    ultimately show ?thesis using None cs(5) that [of "fst (hd cs)" "snd (hd cs)"] by simp
  qed
  from config_for_agree [OF entry [OF c0(1)] entry [OF c] c0(3)] entry [OF c]
  show ?thesis by (simp add: signal_config_def Let_def c0(2))
qed

text \<open>C24 (error).  What starts the service: without a signal name the process stops with an index error, and
  otherwise the only other failure is a number that cannot be read; once it runs, the primary
  signal is one of its signals, names carry no blanks, and each signal's memory has exactly the
  configuration \<open>_config\<close> gives it - the prior and the floor for the disk signal alone; with nothing
  set these are the documented defaults.\<close>

theorem service_settings:
  "(if load_signals environ = [] then load_settings environ = Raise IndexError
    else raises_only ValueError (load_settings environ)) \<and>
   (load_settings environ = Ret ps \<longrightarrow> primary (ps_env ps) \<in> set (sv_signals (ps_env ps)) \<and>
      list_all (\<lambda>sig. sig \<noteq> '''' \<and> strip sig = sig \<and> config_for environ sig = Ret (signal_config (ps_env ps) sig))
        (sv_signals (ps_env ps))) \<and>
   (\<exists>ps. load_settings Map.empty = Ret ps \<and> ps_env ps = default_env)"
proof (intro conjI impI)
  assume ps: "load_settings environ = Ret ps"
  obtain cs where cs: "load_signals environ \<noteq> []" "sv_signals (ps_env ps) = load_signals environ"
    using load_settings_Ret [OF ps] by metis
  show "primary (ps_env ps) \<in> set (sv_signals (ps_env ps))" by (simp add: primary_def cs)
  have "sig \<noteq> '''' \<and> strip sig = sig" if "sig \<in> set (load_signals environ)" for sig
    using that by (auto simp: load_signals_def)
  with loaded_configs [OF ps] show "list_all (\<lambda>sig. sig \<noteq> '''' \<and> strip sig = sig \<and>
      config_for environ sig = Ret (signal_config (ps_env ps) sig)) (sv_signals (ps_env ps))"
    by (simp add: list_all_iff cs(2))
qed (use load_settings_errors default_settings in auto)

theorem service_settings_witness:
  "\<exists>ps. load_settings Map.empty = Ret ps \<and> config_for Map.empty ''psi_cpu'' = Ret (signal_config (ps_env ps) ''psi_cpu'')"
proof -
  obtain ps where ps: "load_settings Map.empty = Ret ps" "sv_signals (ps_env ps) = [''psi_io'', ''psi_cpu'', ''psi_mem'']"
    using default_settings by (auto simp: default_env_def)
  with service_settings [of Map.empty ps] have "list_all (\<lambda>sig. config_for Map.empty sig = Ret (signal_config (ps_env ps) sig))
      (sv_signals (ps_env ps))" by (auto simp: list_all_iff)
  with ps show ?thesis by simp
qed

end
