(* ===== verification/Aggregator.thy ===== *)
theory Aggregator
  imports Text Service_Inputs
begin

text \<open>
  \<open>aggregator/main.go\<close>, the collector in front of the engine: the pack of queries, the per-pod ring of samples,
  the threshold events, the poll and the two handlers.  Prometheus is an argument: what each query of a
  poll answered, with the clock readings the code takes.  A panic is \<open>Raise\<close> (it ends the process: there is no step
  after it).  White space is that of ASCII;
  the texts of infinities and NaN do not parse, which is how the code treats them in samples.
\<close>

section \<open>The ring\<close>

record agg_sample =
  ag_ts :: string
  ag_pod :: string
  ag_ns :: string
  ag_sig :: string
  ag_value :: real

record ring_buffer =
  rb_data :: "(string \<times> agg_sample list) list"
  rb_cap :: int

definition ring_key :: "string \<Rightarrow> string \<Rightarrow> string \<Rightarrow> string" where
  "ring_key ns pod sig = ns @ ''/'' @ pod @ ''/'' @ sig"

definition key_of :: "agg_sample \<Rightarrow> string" where
  "key_of s = ring_key (ag_ns s) (ag_pod s) (ag_sig s)"

definition samples_at :: "string \<Rightarrow> ring_buffer \<Rightarrow> agg_sample list" where
  "samples_at k r = (case map_of (rb_data r) k of None \<Rightarrow> [] | Some ss \<Rightarrow> ss)"

definition ring_add :: "agg_sample \<Rightarrow> ring_buffer \<Rightarrow> ring_buffer outcome" where
  "ring_add s r =
     (let k = key_of s; l = samples_at k r @ [s]
      in if int (length l) > rb_cap r
         then if rb_cap r < 0 then Raise (OtherError ''slice bounds out of range'')
              else Ret (r\<lparr>rb_data := AList.update k (drop (length l - nat (rb_cap r)) l) (rb_data r)\<rparr>)
         else Ret (r\<lparr>rb_data := AList.update k l (rb_data r)\<rparr>))"

definition ring_series :: "string \<Rightarrow> string \<Rightarrow> string \<Rightarrow> ring_buffer \<Rightarrow> real list" where
  "ring_series ns pod sig r = map ag_value (samples_at (ring_key ns pod sig) r)"

section \<open>The pack of queries\<close>

record query_pack =
  qp_interval :: int
  qp_window :: int
  qp_queries :: "(string \<times> string) list"
  qp_order :: "string list"
  qp_thresholds :: "(string \<times> real) list"

definition SCHEMA_SIGNALS :: "string list" where
  "SCHEMA_SIGNALS = [''cpu'', ''mem'', ''net_rx'', ''net_tx'', ''pvc_io_util'', ''pvc_capacity'', ''psi_cpu'', ''psi_mem'',
     ''psi_io'', ''restarts'', ''latency_p95'', ''log_error_rate'']"

definition threshold_for :: "string \<Rightarrow> query_pack \<Rightarrow> real option" where
  "threshold_for sig p =
     (if sig = ''pvc_capacity'' then map_of (qp_thresholds p) ''pvc_capacity''
      else if sig \<in> {''psi_cpu'', ''psi_mem'', ''psi_io''} then map_of (qp_thresholds p) ''psi_some_avg''
      else if sig = ''latency_p95'' then map_of (qp_thresholds p) ''latency_p95_s''
      else None)"

definition go_space :: "char \<Rightarrow> bool" where
  "go_space c \<longleftrightarrow> (of_char c :: nat) \<in> {9, 10, 11, 12, 13, 32}"

definition trim_space :: "string \<Rightarrow> string" where
  "trim_space s = rev (dropWhile go_space (rev (dropWhile go_space s)))"

definition trim_right :: "string \<Rightarrow> string" where
  "trim_right s = rev (dropWhile (\<lambda>c. c = CHR '' '') (rev s))"

definition split_kv :: "string \<Rightarrow> (string \<times> string) option" where
  "split_kv s =
     (if CHR '':'' \<in> set s
      then Some (trim_space (takeWhile (\<lambda>c. c \<noteq> CHR '':'') s), trim_space (tl (dropWhile (\<lambda>c. c \<noteq> CHR '':'') s)))
      else None)"

definition val_of :: "string \<Rightarrow> string" where
  "val_of s = (case split_kv s of None \<Rightarrow> '''' | Some (k, v) \<Rightarrow> v)"

text \<open>\<open>Atoi\<close> fails outside 64 bits.\<close>

definition atoi_default :: "string \<Rightarrow> int \<Rightarrow> int" where
  "atoi_default s d = (case parse_exponent (trim_space s) of
     None \<Rightarrow> d | Some n \<Rightarrow> if - (2 ^ 63) \<le> n \<and> n < 2 ^ 63 then n else d)"

fun before_comment :: "string \<Rightarrow> string" where
  "before_comment [] = []"
| "before_comment (c # s) = (if startswith (c # s) '' #'' then [] else c # before_comment s)"

definition drop_comment :: "string \<Rightarrow> string" where
  "drop_comment t = (let u = before_comment t in if length u < length t then trim_space u else t)"

datatype pack_section = NoSection | Queries | Thresholds

definition load_line :: "pack_section \<times> query_pack \<Rightarrow> string \<Rightarrow> pack_section \<times> query_pack" where
  "load_line sp raw =
     (let (sec, p) = sp; line = trim_right raw; t = trim_space line
      in if t = '''' \<or> startswith t ''#'' then (sec, p)
         else
           let indented = startswith line '' ''; t = drop_comment t
           in if \<not> indented then
                if startswith t ''queries:'' then (Queries, p)
                else if startswith t ''thresholds:'' then (Thresholds, p)
                else if startswith t ''interval_s:'' then (sec, p\<lparr>qp_interval := atoi_default (val_of t) 5\<rparr>)
                else if startswith t ''window_min:'' then (sec, p\<lparr>qp_window := atoi_default (val_of t) 15\<rparr>)
                else (NoSection, p)
              else (case split_kv t of
                  None \<Rightarrow> (sec, p)
                | Some (k, v) \<Rightarrow>
                    (case sec of
                       Queries \<Rightarrow> (sec, p\<lparr>qp_queries := AList.update k v (qp_queries p), qp_order := qp_order p @ [k]\<rparr>)
                     | Thresholds \<Rightarrow> (case parse_float (trim_space v) of
                           None \<Rightarrow> (sec, p)
                         | Some x \<Rightarrow> (sec, p\<lparr>qp_thresholds := AList.update k x (qp_thresholds p)\<rparr>))
                     | NoSection \<Rightarrow> (sec, p))))"

text \<open>\<open>bufio.ScanLines\<close>: no empty line after the last line end, a carriage return before it belongs to it.\<close>

definition scan_lines :: "string \<Rightarrow> string list" where
  "scan_lines s =
     (let parts = split_on CHR 0x0A s; lines = (if last parts = [] then butlast parts else parts)
      in map (\<lambda>l. if l \<noteq> [] \<and> last l = CHR 0x0D then butlast l else l) lines)"

definition load_pack :: "string option \<Rightarrow> query_pack outcome" where
  "load_pack f = (case f of
     None \<Rightarrow> Raise (OtherError ''open'')
   | Some s \<Rightarrow> if list_ex (\<lambda>l. 1024 * 1024 \<le> length l) (split_on CHR 0x0A s) then Raise (OtherError ''token too long'')
     else Ret (snd (foldl load_line (NoSection, \<lparr>qp_interval = 5, qp_window = 15, qp_queries = [], qp_order = [],
       qp_thresholds = []\<rparr>) (scan_lines s))))"

section \<open>One poll\<close>

text \<open>One result of a query: its labels, the text of its value if that is a string, and the clock when it is read
  and when an event on it would be stamped.\<close>

record prom_result =
  px_metric :: "(string \<times> string) list"
  px_value :: "string option"
  px_read :: string
  px_fired :: string

definition label :: "string \<Rightarrow> prom_result \<Rightarrow> string" where
  "label k x = (case map_of (px_metric x) k of None \<Rightarrow> '''' | Some s \<Rightarrow> s)"

definition sample_result :: "prom_result \<Rightarrow> (agg_sample \<times> string) option" where
  "sample_result x = (case Option.bind (px_value x) parse_float of
     None \<Rightarrow> None
   | Some v \<Rightarrow> Some (\<lparr>ag_ts = px_read x, ag_pod = label ''pod'' x, ag_ns = label ''namespace'' x, ag_sig = '''',
       ag_value = v\<rparr>, px_fired x))"

text \<open>What a query gave; \<open>None\<close> is any error of the request or of its body.\<close>

definition prom_query :: "prom_result list option \<Rightarrow> (agg_sample \<times> string) list option" where
  "prom_query reply = map_option (List.map_filter sample_result) reply"

definition zscore :: "real list \<Rightarrow> real \<Rightarrow> real" where
  "zscore hist v =
     (if length hist < 12 then 0
      else let cp = sort hist; med = cp ! (length cp div 2); dev = sort (map (\<lambda>x. \<bar>x - med\<bar>) cp);
               mad = dev ! (length dev div 2)
           in if mad = 0 then 0 else (v - med) / (14826/10000 * mad))"

record agg_event =
  ae_v :: int
  ae_ts :: string
  ae_kind :: string
  ae_ns :: string
  ae_pod :: string
  ae_signal :: string
  ae_value :: real
  ae_zscore :: real
  ae_threshold :: real
  ae_window_s :: int

definition breach_event :: "ring_buffer \<Rightarrow> agg_sample \<Rightarrow> string \<Rightarrow> real \<Rightarrow> agg_event" where
  "breach_event r s ts thr =
     \<lparr>ae_v = 1, ae_ts = ts, ae_kind = ''anomaly_candidate'', ae_ns = ag_ns s, ae_pod = ag_pod s, ae_signal = ag_sig s,
      ae_value = ag_value s, ae_zscore = zscore (ring_series (ag_ns s) (ag_pod s) (ag_sig s) r) (ag_value s),
      ae_threshold = thr, ae_window_s = 60\<rparr>"

definition take_sample ::
    "query_pack \<Rightarrow> string \<times> agg_sample \<times> string \<Rightarrow> ring_buffer \<times> agg_event list \<Rightarrow>
       (ring_buffer \<times> agg_event list) outcome" where
  "take_sample p w st =
     (let (sig, s, ts) = w; (r, events) = st
      in if ag_pod s = '''' then Ret (r, events)
         else let s = s\<lparr>ag_sig := sig\<rparr>
              in and_then (ring_add s r) (\<lambda>r.
                   if sig \<notin> set SCHEMA_SIGNALS then Ret (r, events)
                   else (case threshold_for sig p of
                       Some thr \<Rightarrow> if ag_value s > thr then Ret (r, events @ [breach_event r s ts thr]) else Ret (r, events)
                     | None \<Rightarrow> Ret (r, events))))"

text \<open>The samples of a poll in the order the loops meet them.\<close>

definition poll_work :: "query_pack \<Rightarrow> prom_result list option list \<Rightarrow> (string \<times> agg_sample \<times> string) list" where
  "poll_work p replies =
     concat (map (\<lambda>(sig, reply). case prom_query reply of None \<Rightarrow> [] | Some ss \<Rightarrow> map (\<lambda>s. (sig, s)) ss)
       (zip (qp_order p) replies))"

fun take_samples ::
    "query_pack \<Rightarrow> (string \<times> agg_sample \<times> string) list \<Rightarrow> ring_buffer \<times> agg_event list \<Rightarrow>
       (ring_buffer \<times> agg_event list) outcome" where
  "take_samples p [] st = Ret st"
| "take_samples p (w # ws) st = and_then (take_sample p w st) (take_samples p ws)"

definition eval_events ::
    "query_pack \<Rightarrow> prom_result list option list \<Rightarrow> ring_buffer \<Rightarrow> (ring_buffer \<times> agg_event list) outcome" where
  "eval_events p replies r = take_samples p (poll_work p replies) (r, [])"

section \<open>The process\<close>

definition keep_recent :: "agg_event list \<Rightarrow> agg_event \<Rightarrow> agg_event list" where
  "keep_recent recent ev = (let l = recent @ [ev] in if length l > 256 then drop (length l - 256) l else l)"

definition poll_interval :: "query_pack \<Rightarrow> int" where
  "poll_interval p = (if qp_interval p \<le> 0 then 5 else qp_interval p)"

text \<open>The product wraps at 64 bits; the division truncates towards zero.\<close>

definition ring_cap :: "query_pack \<Rightarrow> int" where
  "ring_cap p = (let n = (qp_window p * 60 + 2 ^ 63) mod 2 ^ 64 - 2 ^ 63 in if n < 0 then - (- n div poll_interval p) else n div poll_interval p)"

text \<open>The poller between two accesses of the shared state: the samples still to take, the events of this poll, the
  events still to publish; and for the statements the samples taken and the events made so far.\<close>

record aggregator =
  at_ring :: ring_buffer
  at_recent :: "agg_event list"
  at_work :: "(string \<times> agg_sample \<times> string) list"
  at_events :: "agg_event list"
  at_publish :: "agg_event list"
  at_taken :: "agg_sample list"
  at_made :: "agg_event list"

definition aggregator_start :: "query_pack \<Rightarrow> aggregator" where
  "aggregator_start p = \<lparr>at_ring = \<lparr>rb_data = [], rb_cap = ring_cap p\<rparr>, at_recent = [], at_work = [], at_events = [],
     at_publish = [], at_taken = [], at_made = []\<rparr>"

inductive agg_step :: "query_pack \<Rightarrow> aggregator \<Rightarrow> aggregator \<Rightarrow> bool" for p where
  ticks: "at_work a = [] \<Longrightarrow> at_events a = [] \<Longrightarrow> at_publish a = [] \<Longrightarrow> length replies = length (qp_order p) \<Longrightarrow>
     agg_step p a (a\<lparr>at_work := poll_work p replies\<rparr>)"
| takes: "at_work a = w # ws \<Longrightarrow> take_sample p w (at_ring a, at_events a) = Ret (r, evs) \<Longrightarrow>
     agg_step p a (a\<lparr>at_ring := r, at_work := ws, at_events := evs,
       at_taken := at_taken a @ (if ag_pod (fst (snd w)) = '''' then [] else [(fst (snd w))\<lparr>ag_sig := fst w\<rparr>]),
       at_made := at_made a @ drop (length (at_events a)) evs\<rparr>)"
| collects: "at_work a = [] \<Longrightarrow> at_publish a = [] \<Longrightarrow> agg_step p a (a\<lparr>at_events := [], at_publish := at_events a\<rparr>)"
| publishes: "at_publish a = ev # evs \<Longrightarrow>
     agg_step p a (a\<lparr>at_recent := keep_recent (at_recent a) ev, at_publish := evs\<rparr>)"

inductive agg_run :: "query_pack \<Rightarrow> aggregator \<Rightarrow> bool" for p where
  starts: "agg_run p (aggregator_start p)"
| steps: "agg_run p a \<Longrightarrow> agg_step p a b \<Longrightarrow> agg_run p b"

text \<open>The handlers of \<open>/window\<close> and \<open>/events\<close>, as the engine reads them; an encoded map has its keys sorted.\<close>

definition serve_window :: "aggregator \<Rightarrow> (string \<times> sample list) list" where
  "serve_window a =
     map (\<lambda>(k, ss). (k, map (\<lambda>s. \<lparr>sm_ts = Some (ag_ts s), sm_value = Some (ag_value s)\<rparr>) ss))
       (sort_key fst (rb_data (at_ring a)))"

definition serve_events :: "aggregator \<Rightarrow> event option list" where
  "serve_events a = map (\<lambda>e. Some \<lparr>ev_kind = Some (ae_kind e), ev_pod = Some (ae_pod e)\<rparr>) (at_recent a)"


section \<open>What the ring holds\<close>

definition last_n :: "nat \<Rightarrow> 'a list \<Rightarrow> 'a list" where
  "last_n n xs = drop (length xs - n) xs"

lemma last_n_simps [simp]: "last_n n [] = []" "length (last_n n xs) = min n (length xs)"
  by (auto simp: last_n_def)

lemma set_last_n: "set (last_n n xs) \<subseteq> set xs"
  by (simp add: last_n_def set_drop_subset)

lemma last_n_snoc: "last_n n (last_n n xs @ [x]) = last_n n (xs @ [x])"
proof (cases "length xs \<le> n")
  case False
  have "last_n n xs @ [x] = drop (length xs - n) (xs @ [x])" by (simp add: last_n_def)
  with False show ?thesis by (simp add: last_n_def Suc_diff_le)
qed (simp add: last_n_def)

lemma last_n_all: "length xs \<le> n \<Longrightarrow> last_n n xs = xs"
  by (simp add: last_n_def)

lemma keep_recent_last_n: "keep_recent recent ev = last_n 256 (recent @ [ev])"
  by (simp add: keep_recent_def last_n_def Let_def)

lemma ring_add_Ret:
  assumes "0 \<le> rb_cap r"
  shows "ring_add s r = Ret (r\<lparr>rb_data := AList.update (key_of s) (last_n (nat (rb_cap r)) (samples_at (key_of s) r @ [s])) (rb_data r)\<rparr>)"
  using assms by (auto simp: ring_add_def Let_def last_n_def)

text \<open>With a negative capacity, a \<open>window_min\<close> below zero, the first sample ends the process.\<close>

lemma ring_add_panics: "rb_cap r < 0 \<Longrightarrow> ring_add s r = Raise (OtherError ''slice bounds out of range'')"
  by (simp add: ring_add_def Let_def)

lemma samples_at_update:
  "samples_at k (r\<lparr>rb_data := AList.update k' ss (rb_data r)\<rparr>) = (if k = k' then ss else samples_at k r)"
  by (simp add: samples_at_def update_conv')

text \<open>The ring after samples have been added: of each key the last ones, in the order they were taken.\<close>

definition taken_of :: "string \<Rightarrow> agg_sample list \<Rightarrow> agg_sample list" where
  "taken_of k taken = filter (\<lambda>s. key_of s = k) taken"

definition ring_holds :: "int \<Rightarrow> agg_sample list \<Rightarrow> ring_buffer \<Rightarrow> bool" where
  "ring_holds cap taken r \<longleftrightarrow> rb_cap r = cap \<and> distinct (map fst (rb_data r)) \<and>
     fst ` set (rb_data r) = key_of ` set taken \<and>
     (\<forall>k. samples_at k r = last_n (nat cap) (taken_of k taken))"

lemma ring_holds_add:
  assumes "ring_holds cap taken r" and "0 \<le> cap"
  shows "\<exists>r'. ring_add s r = Ret r' \<and> ring_holds cap (taken @ [s]) r'"
proof -
  have r: "rb_cap r = cap" "distinct (map fst (rb_data r))" "fst ` set (rb_data r) = key_of ` set taken"
    "\<And>k. samples_at k r = last_n (nat cap) (taken_of k taken)"
    using assms(1) by (simp_all add: ring_holds_def)
  let ?r = "r\<lparr>rb_data := AList.update (key_of s) (last_n (nat cap) (samples_at (key_of s) r @ [s])) (rb_data r)\<rparr>"
  have "samples_at k ?r = last_n (nat cap) (taken_of k (taken @ [s]))" for k
    unfolding samples_at_update by (simp add: r(4) last_n_snoc taken_of_def)
  then have "ring_holds cap (taken @ [s]) ?r"
    using r by (simp add: ring_holds_def distinct_update dom_update)
  moreover have "ring_add s r = Ret ?r" using ring_add_Ret [of r s] assms(2) r(1) by simp
  ultimately show ?thesis by blast
qed

section \<open>What is reported\<close>

definition breaches :: "query_pack \<Rightarrow> agg_sample \<Rightarrow> bool" where
  "breaches p s \<longleftrightarrow> ag_sig s \<in> set SCHEMA_SIGNALS \<and>
     (case threshold_for (ag_sig s) p of None \<Rightarrow> False | Some thr \<Rightarrow> ag_value s > thr)"

text \<open>What an event says about its sample, and what the frozen schema asks of it.\<close>

definition tells :: "query_pack \<Rightarrow> agg_event \<Rightarrow> agg_sample \<Rightarrow> bool" where
  "tells p e s \<longleftrightarrow> (ae_ns e, ae_pod e, ae_signal e, ae_value e) = (ag_ns s, ag_pod s, ag_sig s, ag_value s) \<and>
     Some (ae_threshold e) = threshold_for (ag_sig s) p"

definition conforms :: "agg_event \<Rightarrow> bool" where
  "conforms e \<longleftrightarrow> ae_v e = 1 \<and> ae_kind e = ''anomaly_candidate'' \<and> ae_pod e \<noteq> '''' \<and>
     ae_signal e \<in> set SCHEMA_SIGNALS \<and> ae_threshold e < ae_value e"

lemma take_sample_ok:
  assumes "ring_holds cap taken r" and "0 \<le> cap" and "ag_pod s \<noteq> ''''"
  shows "\<exists>r' new. take_sample p (sig, s, ts) (r, evs) = Ret (r', evs @ new) \<and>
    ring_holds cap (taken @ [s\<lparr>ag_sig := sig\<rparr>]) r' \<and>
    list_all2 (tells p) new (filter (breaches p) [s\<lparr>ag_sig := sig\<rparr>]) \<and> list_all conforms new"
proof -
  let ?s = "s\<lparr>ag_sig := sig\<rparr>"
  obtain r' where r': "ring_add ?s r = Ret r'" "ring_holds cap (taken @ [?s]) r'"
    using ring_holds_add [OF assms(1,2)] by blast
  let ?res = "\<lambda>new. take_sample p (sig, s, ts) (r, evs) = Ret (r', evs @ new) \<and>
    list_all2 (tells p) new (filter (breaches p) [?s]) \<and> list_all conforms new"
  have "\<exists>new. ?res new"
  proof (cases "breaches p ?s")
    case True
    then obtain thr where "sig \<in> set SCHEMA_SIGNALS" "threshold_for sig p = Some thr" "thr < ag_value s"
      by (auto simp: breaches_def split: option.splits)
    with True assms(3) r'(1) have "?res [breach_event r' ?s ts thr]"
      by (simp add: take_sample_def tells_def conforms_def breach_event_def)
    then show ?thesis by blast
  next
    case False
    with assms(3) r'(1) have "?res []"
      by (auto simp: take_sample_def breaches_def Let_def split: option.splits)
    then show ?thesis by blast
  qed
  with r'(2) show ?thesis by blast
qed

section \<open>Every state of the process\<close>

definition agg_ok :: "query_pack \<Rightarrow> aggregator \<Rightarrow> bool" where
  "agg_ok p a \<longleftrightarrow> ring_holds (ring_cap p) (at_taken a) (at_ring a) \<and>
     (\<exists>out. at_made a = out @ at_publish a @ at_events a \<and> at_recent a = last_n 256 out) \<and>
     list_all2 (tells p) (at_made a) (filter (breaches p) (at_taken a)) \<and> list_all conforms (at_made a)"

lemma agg_ok_step:
  assumes "agg_step p a b" and ok: "agg_ok p a" and cap: "0 \<le> ring_cap p"
  shows "agg_ok p b"
  using assms(1)
proof (cases rule: agg_step.cases)
  case (ticks replies)
  with ok show ?thesis by (simp add: agg_ok_def)
next
  case (collects)
  with ok show ?thesis by (auto simp: agg_ok_def)
next
  case (publishes ev evs)
  from ok obtain out where out: "at_made a = out @ at_publish a @ at_events a" "at_recent a = last_n 256 out"
    by (auto simp: agg_ok_def)
  then have "at_made a = (out @ [ev]) @ evs @ at_events a" "keep_recent (at_recent a) ev = last_n 256 (out @ [ev])"
    by (simp_all add: publishes keep_recent_last_n last_n_snoc)
  with ok publishes show ?thesis unfolding agg_ok_def by auto
next
  case (takes w ws r evs)
  obtain sig s ts where w: "w = (sig, s, ts)" by (cases w)
  show ?thesis
  proof (cases "ag_pod s = ''''")
    case True
    with takes w have "r = at_ring a" "evs = at_events a" by (simp_all add: take_sample_def)
    with True takes w ok show ?thesis by (simp add: agg_ok_def)
  next
    case False
    have ring: "ring_holds (ring_cap p) (at_taken a) (at_ring a)" using ok by (simp add: agg_ok_def)
    from take_sample_ok [OF ring cap False, of p sig ts "at_events a"] takes(3) w obtain new where
      new: "evs = at_events a @ new" "ring_holds (ring_cap p) (at_taken a @ [s\<lparr>ag_sig := sig\<rparr>]) r"
      "list_all2 (tells p) new (filter (breaches p) [s\<lparr>ag_sig := sig\<rparr>])" "list_all conforms new" by auto
    from ok obtain out where out: "at_made a = out @ at_publish a @ at_events a" "at_recent a = last_n 256 out"
      "list_all2 (tells p) (at_made a) (filter (breaches p) (at_taken a))" "list_all conforms (at_made a)"
      by (auto simp: agg_ok_def)
    have "at_made a @ new = out @ at_publish a @ (at_events a @ new)" by (simp add: out(1))
    moreover have "list_all2 (tells p) (at_made a @ new) (filter (breaches p) (at_taken a @ [s\<lparr>ag_sig := sig\<rparr>]))"
      unfolding filter_append by (rule list_all2_appendI [OF out(3) new(3)])
    ultimately show ?thesis using takes w new(1,2,4) out(2,4) False by (auto simp: agg_ok_def)
  qed
qed

lemma agg_run_ok: "agg_run p a \<Longrightarrow> 0 \<le> ring_cap p \<Longrightarrow> agg_ok p a"
proof (induction rule: agg_run.induct)
  case starts
  show ?case by (simp add: agg_ok_def aggregator_start_def ring_holds_def taken_of_def samples_at_def)
next
  case (steps a b)
  from agg_ok_step [OF steps.hyps(2) steps.IH [OF steps.prems] steps.prems] show ?case .
qed


section \<open>Reading a pack\<close>

text \<open>Every signal polled has its query.\<close>

lemma load_line_order:
  "set (qp_order (snd sp)) = fst ` set (qp_queries (snd sp)) \<Longrightarrow>
   set (qp_order (snd (load_line sp l))) = fst ` set (qp_queries (snd (load_line sp l)))"
  by (cases sp) (auto simp: load_line_def Let_def dom_update split: option.split pack_section.split)

lemma load_lines_order:
  "set (qp_order (snd sp)) = fst ` set (qp_queries (snd sp)) \<Longrightarrow>
   set (qp_order (snd (foldl load_line sp ls))) = fst ` set (qp_queries (snd (foldl load_line sp ls)))"
  by (induction ls arbitrary: sp) (simp_all add: load_line_order)

lemma load_pack_order: "load_pack f = Ret p \<Longrightarrow> set (qp_order p) = fst ` set (qp_queries p)"
  using load_lines_order [of "(NoSection, \<lparr>qp_interval = 5, qp_window = 15, qp_queries = [], qp_order = [], qp_thresholds = []\<rparr>)"]
  by (auto simp only: load_pack_def outcome.inject outcome.distinct snd_conv query_pack.simps list.set image_empty split: option.splits if_splits)

text \<open>The pack of the program's own tests.\<close>

definition test_lines :: "string list" where
  "test_lines = [''interval_s: 5'', ''window_min: 15'', ''queries:'',
     ''  psi_io:       rate(container_pressure_io_stalled_seconds_total{namespace=~'' @ [CHR 0x22] @ ''factory-.*'' @ [CHR 0x22] @ ''}[30s])'',
     ''thresholds:'', ''  psi_some_avg: 0.20'']"

lemmas load_defs = load_line_def Let_def trim_right_def trim_space_def go_space_def startswith_def drop_comment_def split_kv_def
  val_of_def atoi_default_def

lemma test_numbers:
  "parse_exponent ''5'' = Some 5" "parse_exponent ''15'' = Some 15" "parse_float ''0.20'' = Some (2/10)"
  by (simp_all add: parse_exponent_def parse_float_def parse_mantissa_def parse_nat_def signed_def is_digit_def
      read_digits_def digit_val_def)

lemma load_test_pack:
  "foldl load_line (NoSection, \<lparr>qp_interval = 5, qp_window = 15, qp_queries = [], qp_order = [], qp_thresholds = []\<rparr>) test_lines =
   (Thresholds, \<lparr>qp_interval = 5, qp_window = 15,
     qp_queries = [(''psi_io'', ''rate(container_pressure_io_stalled_seconds_total{namespace=~'' @ [CHR 0x22] @ ''factory-.*'' @ [CHR 0x22] @ ''}[30s])'')],
     qp_order = [''psi_io''], qp_thresholds = [(''psi_some_avg'', 2/10)]\<rparr>)"
  by (simp add: test_lines_def load_defs test_numbers)

definition file_of :: "string list \<Rightarrow> string" where
  "file_of ls = concat (map (\<lambda>l. l @ [CHR 0x0A]) ls)"

definition whole_line :: "string \<Rightarrow> bool" where
  "whole_line l \<longleftrightarrow> CHR 0x0A \<notin> set l \<and> CHR 0x0D \<notin> set l \<and> length l < 1024 * 1024"

lemma split_file: "list_all whole_line ls \<Longrightarrow> split_on CHR 0x0A (file_of ls) = ls @ [[]]"
  by (induction ls) (simp_all add: file_of_def whole_line_def split_on_append)

lemma load_file:
  assumes "list_all whole_line ls"
  shows "load_pack (Some (file_of ls)) = Ret (snd (foldl load_line (NoSection, \<lparr>qp_interval = 5, qp_window = 15,
    qp_queries = [], qp_order = [], qp_thresholds = []\<rparr>) ls))"
proof -
  have "\<not> list_ex (\<lambda>l. 1024 * 1024 \<le> length l) (split_on CHR 0x0A (file_of ls))"
    using assms by (auto simp: split_file list_ex_iff list_all_iff whole_line_def)
  moreover have "l \<noteq> [] \<and> last l = CHR 0x0D \<longleftrightarrow> False" if "l \<in> set ls" for l
  proof -
    from assms that have "CHR 0x0D \<notin> set l" by (simp add: list_all_iff whole_line_def)
    then show ?thesis by (cases "l = []") (auto dest: last_in_set)
  qed
  then have "map (\<lambda>l. if l \<noteq> [] \<and> last l = CHR 0x0D then butlast l else l) ls = ls"
    by (intro map_idI) (simp only: if_False)
  then have "scan_lines (file_of ls) = ls"
    using assms by (simp add: scan_lines_def split_file)
  ultimately show ?thesis by (simp add: load_pack_def)
qed

text \<open>The capacity of the ring is 180 samples a series, the length of the engine's grid.\<close>

lemma load_pack_test:
  "\<exists>p. load_pack (Some (file_of test_lines)) = Ret p \<and> qp_order p = [''psi_io''] \<and> threshold_for ''psi_io'' p = Some (2/10) \<and>
    ring_cap p = int GRID_N"
proof -
  have "list_all whole_line test_lines" by (simp add: test_lines_def whole_line_def)
  from load_file [OF this] show ?thesis
    by (simp add: load_test_pack threshold_for_def ring_cap_def poll_interval_def GRID_N_def)
qed

section \<open>What the two handlers answer\<close>

definition shown :: "agg_sample \<Rightarrow> sample" where
  "shown s = \<lparr>sm_ts = Some (ag_ts s), sm_value = Some (ag_value s)\<rparr>"

definition sent :: "agg_event \<Rightarrow> event option" where
  "sent e = Some \<lparr>ev_kind = Some (ae_kind e), ev_pod = Some (ae_pod e)\<rparr>"

lemma sorted_keys:
  assumes "distinct (map fst al)"
  shows "map fst (sort_key fst al) = sorted_list_of_set (fst ` set al)"
proof -
  have "distinct (map fst (sort_key fst al))" using assms by (simp add: distinct_map)
  moreover have "sorted (map fst (sort_key fst al))" by simp
  moreover have "set (map fst (sort_key fst al)) = fst ` set al" by simp
  ultimately show ?thesis by (metis sorted_list_of_set.idem_if_sorted_distinct)
qed

lemma serve_window_keys:
  assumes "distinct (map fst (rb_data (at_ring a)))"
  shows "serve_window a = map (\<lambda>k. (k, map shown (samples_at k (at_ring a)))) (sorted_list_of_set (fst ` set (rb_data (at_ring a))))"
proof -
  have "samples_at k (at_ring a) = ss" if "(k, ss) \<in> set (rb_data (at_ring a))" for k ss
    using that assms by (simp add: samples_at_def)
  then have "serve_window a = map (\<lambda>x. (fst x, map shown (samples_at (fst x) (at_ring a)))) (sort_key fst (rb_data (at_ring a)))"
    by (auto simp: serve_window_def shown_def)
  also have "\<dots> = map (\<lambda>k. (k, map shown (samples_at k (at_ring a)))) (map fst (sort_key fst (rb_data (at_ring a))))"
    by simp
  finally show ?thesis by (simp only: sorted_keys [OF assms])
qed

lemma serve_window_reachable:
  assumes "agg_run p a" and "0 \<le> ring_cap p"
  shows "serve_window a = map (\<lambda>k. (k, map shown (last_n (nat (ring_cap p)) (taken_of k (at_taken a)))))
    (sorted_list_of_set (key_of ` set (at_taken a)))"
  using agg_run_ok [OF assms] serve_window_keys [of a] by (simp add: agg_ok_def ring_holds_def)

lemma serve_events_reachable:
  assumes "agg_run p a" and "0 \<le> ring_cap p"
  shows "\<exists>out. at_made a = out @ at_publish a @ at_events a \<and> serve_events a = map sent (last_n 256 out)"
proof -
  from agg_run_ok [OF assms] obtain out where
    "at_made a = out @ at_publish a @ at_events a" "at_recent a = last_n 256 out" by (auto simp: agg_ok_def)
  moreover have "serve_events a = map sent (at_recent a)" by (simp add: serve_events_def sent_def)
  ultimately show ?thesis by auto
qed

text \<open>C20 (invariant).  The aggregator at any moment, between any two accesses of its shared state and whatever
  Prometheus has answered: the window has one entry per pod and signal ever sampled, holding the newest
  samples up to the capacity in the order they were taken; one event was made per sample above its
  threshold, in order and conforming to the event schema; and the events served are the newest 256 of those published.\<close>

theorem aggregator_answers_exact:
  assumes "agg_run p a" and "0 \<le> ring_cap p"
  shows "serve_window a = map (\<lambda>k. (k, map shown (last_n (nat (ring_cap p)) (taken_of k (at_taken a)))))
      (sorted_list_of_set (key_of ` set (at_taken a))) \<and>
    (\<exists>out. at_made a = out @ at_publish a @ at_events a \<and> serve_events a = map sent (last_n 256 out)) \<and>
    list_all2 (tells p) (at_made a) (filter (breaches p) (at_taken a)) \<and> list_all conforms (at_made a)"
  using serve_window_reachable [OF assms] serve_events_reachable [OF assms] agg_run_ok [OF assms]
  by (simp_all add: agg_ok_def)

text \<open>A pack with a ring of one sample, and two polls that meet one pod above its threshold and one without a name.\<close>

definition small_pack :: query_pack where
  "small_pack = \<lparr>qp_interval = 60, qp_window = 1, qp_queries = [(''psi_io'', ''q'')], qp_order = [''psi_io''],
     qp_thresholds = [(''psi_some_avg'', 1)]\<rparr>"

definition small_sample :: "real \<Rightarrow> agg_sample" where
  "small_sample v = \<lparr>ag_ts = ''10'', ag_pod = ''a'', ag_ns = ''n'', ag_sig = ''psi_io'', ag_value = v\<rparr>"

definition small_reply :: "int \<Rightarrow> prom_result list option" where
  "small_reply v = Some [\<lparr>px_metric = [(''pod'', ''a''), (''namespace'', ''n'')], px_value = Some (show_int v),
     px_read = ''10'', px_fired = ''11''\<rparr>]"

lemma small_poll:
  "poll_work small_pack [small_reply v] = [(''psi_io'', (small_sample (of_int v))\<lparr>ag_sig := []\<rparr>, ''11'')]"
  by (simp add: poll_work_def small_pack_def small_reply_def prom_query_def sample_result_def label_def
      List.map_filter_simps parse_float_show_int small_sample_def)

lemma small_cap: "ring_cap small_pack = 1"
  by (simp add: small_pack_def ring_cap_def poll_interval_def)

lemma small_threshold: "threshold_for ''psi_io'' small_pack = Some 1" "''psi_io'' \<in> set SCHEMA_SIGNALS"
  by (simp_all add: small_pack_def threshold_for_def SCHEMA_SIGNALS_def)

lemma small_take:
  assumes "1 < v" "rb_cap r = 1"
  shows "\<exists>r' e. take_sample small_pack (''psi_io'', (small_sample v)\<lparr>ag_sig := ''''\<rparr>, ts) (r, evs) = Ret (r', evs @ [e]) \<and> rb_cap r' = 1"
  using assms small_threshold by (auto simp: take_sample_def ring_add_Ret small_sample_def Let_def)

text \<open>One whole poll that meets one sample above its threshold.\<close>

lemma small_run_poll:
  assumes run: "agg_run small_pack a" and idle: "at_work a = []" "at_events a = []" "at_publish a = []"
    and cap: "rb_cap (at_ring a) = 1" and v: "1 < v" "poll_work small_pack [reply] = [(''psi_io'', (small_sample v)\<lparr>ag_sig := ''''\<rparr>, ts)]"
  shows "\<exists>b. agg_run small_pack b \<and> at_work b = [] \<and> at_events b = [] \<and> at_publish b = [] \<and> rb_cap (at_ring b) = 1 \<and>
    at_taken b = at_taken a @ [small_sample v]"
proof -
  let ?b = "a\<lparr>at_work := [(''psi_io'', (small_sample v)\<lparr>ag_sig := ''''\<rparr>, ts)]\<rparr>"
  have "agg_step small_pack a ?b"
    using agg_step.ticks [OF idle, of "[reply]" small_pack] v(2) by (simp add: small_pack_def)
  with run have b: "agg_run small_pack ?b" by (rule agg_run.steps)
  obtain r e where r: "take_sample small_pack (''psi_io'', (small_sample v)\<lparr>ag_sig := ''''\<rparr>, ts) (at_ring ?b, at_events ?b) = Ret (r, [e])"
    "rb_cap r = 1" using small_take [OF v(1), of "at_ring a" ts "[]"] cap idle(2) by auto
  have w: "at_work ?b = [(''psi_io'', (small_sample v)\<lparr>ag_sig := ''''\<rparr>, ts)]" by simp
  from agg_run.steps [OF b agg_step.takes [OF w r(1)]]
  obtain c where c: "agg_run small_pack c" "at_work c = []" "at_events c = [e]" "at_publish c = []" "at_ring c = r"
    "at_taken c = at_taken a @ [small_sample v]" using idle by (simp add: small_sample_def) 
  from agg_run.steps [OF c(1) agg_step.collects [OF c(2,4)]] c obtain d where d: "agg_run small_pack d" "at_work d = []"
    "at_events d = []" "at_publish d = [e]" "at_ring d = r" "at_taken d = at_taken a @ [small_sample v]" by force
  from agg_run.steps [OF d(1) agg_step.publishes [OF d(4)]] d r(2) show ?thesis by force
qed

lemma small_run: "\<exists>a. agg_run small_pack a \<and> at_publish a = [] \<and> at_events a = [] \<and> at_taken a = [small_sample 5, small_sample 7]"
proof -
  have start: "agg_run small_pack (aggregator_start small_pack)" by (rule agg_run.starts)
  have z: "at_work (aggregator_start small_pack) = []" "at_events (aggregator_start small_pack) = []"
    "at_publish (aggregator_start small_pack) = []" "rb_cap (at_ring (aggregator_start small_pack)) = 1"
    "at_taken (aggregator_start small_pack) = []"
    using small_cap by (simp_all add: aggregator_start_def)
  note poll = small_run_poll [where reply = "small_reply v" and v = "of_int v" and ts = "''11''" for v, OF _ _ _ _ _ _ small_poll]
  from poll [OF start z(1-4), of 5] z(5) obtain a where a: "agg_run small_pack a" "at_work a = []" "at_events a = []"
    "at_publish a = []" "rb_cap (at_ring a) = 1" "at_taken a = [small_sample 5]" by auto
  from poll [OF a(1-5), of 7] a(6) show ?thesis by auto
qed

theorem aggregator_answers_exact_witness:
  "\<exists>a. agg_run small_pack a \<and> serve_window a = [(''n/a/psi_io'', [shown (small_sample 7)])] \<and>
     length (serve_events a) = 2"
proof -
  obtain a where a: "agg_run small_pack a" "at_publish a = []" "at_events a = []" "at_taken a = [small_sample 5, small_sample 7]"
    using small_run by blast
  have cap: "0 \<le> ring_cap small_pack" by (simp add: small_cap)
  have "breaches small_pack (small_sample 5)" "breaches small_pack (small_sample 7)"
    using small_threshold by (simp_all add: breaches_def small_sample_def)
  then have "length (at_made a) = 2"
    using aggregator_answers_exact [OF a(1) cap] a(4) by (auto dest: list_all2_lengthD)
  with aggregator_answers_exact [OF a(1) cap] a(2,3) have "length (serve_events a) = 2" by auto
  moreover have "serve_window a = [(''n/a/psi_io'', [shown (small_sample 7)])]"
    using aggregator_answers_exact [OF a(1) cap]
    by (simp add: a(4) small_cap key_of_def ring_key_def small_sample_def taken_of_def last_n_def)
  ultimately show ?thesis using a(1) by blast
qed

end
