(* ===== verification/Aggregator_Service.thy ===== *)
theory Aggregator_Service
  imports Aggregator Service
begin

text \<open>
  The aggregator and the engine together: what \<open>build_inputs\<close> of \<open>correlation/service.py\<close> makes of the answers of
  \<open>aggregator/main.go\<close> at any two moments (the engine fetches the window and then the events).
\<close>

section \<open>The shape of the answers\<close>

lemma window_readable: "list_all (readable fromiso want) (serve_window a)"
  by (auto simp: list_all_iff readable_def serve_window_def Let_def)

lemma events_located: "list_all located (serve_events a)"
  by (simp add: list_all_iff located_def serve_events_def)

lemma build_inputs_total:
  "\<exists>inp. build_inputs fromiso env (serve_window a) (serve_events b) = Ret inp"
  using ingest_error [of fromiso "wanted env" "serve_window a" "\<lparr>rg_raw = (\<lambda>_. []), rg_latest = 0\<rparr>"]
    breach_pods_error [of "serve_events b"]
  by (auto simp: build_inputs_def window_readable events_located)

section \<open>Where a point comes from\<close>

definition ring_from :: "(string \<Rightarrow> real option) \<Rightarrow> (string \<times> sample list) list \<Rightarrow> ring \<Rightarrow> bool" where
  "ring_from fromiso window st \<longleftrightarrow> (\<forall>sig. \<forall>(pod, pts) \<in> set (rg_raw st sig).
     \<exists>ks \<in> set window. 3 \<le> length (split_on CHR ''/'' (fst ks)) \<and> split_on CHR ''/'' (fst ks) ! 1 = pod \<and>
       last (split_on CHR ''/'' (fst ks)) = sig \<and> pts \<noteq> [] \<and>
       snd ` set pts \<subseteq> {v. \<exists>s \<in> set (snd ks). sm_value s = Some v})"

lemma points_values: "points_of fromiso ss = Ret ps \<Longrightarrow> snd ` set ps \<subseteq> {v. \<exists>s \<in> set ss. sm_value s = Some v}"
  by (induction ss arbitrary: ps) (fastforce split: option.splits)+

lemma ingest_key_from:
  assumes "ingest_key fromiso want ks st = Ret st'" and "ring_from fromiso window st" and "ks \<in> set window"
  shows "ring_from fromiso window st'"
proof -
  let ?parts = "split_on CHR ''/'' (fst ks)"
  from assms(1) consider "st' = st"
    | ps where "3 \<le> length ?parts" "points_of fromiso (snd ks) = Ret ps" "12 \<le> length ps"
        "rg_raw st' = (rg_raw st)(last ?parts := AList.update (?parts ! 1) (sort ps) (rg_raw st (last ?parts)))"
    by (auto simp: ingest_key_def Let_def not_less split: if_splits)
  then show ?thesis
  proof cases
    case 2
    have new: "3 \<le> length ?parts \<and> sort ps \<noteq> [] \<and> snd ` set (sort ps) \<subseteq> {v. \<exists>s \<in> set (snd ks). sm_value s = Some v}"
      using 2(1,3) points_values [OF 2(2)] by (auto simp flip: length_0_conv)
    show ?thesis unfolding ring_from_def
    proof (intro allI ballI, clarify)
      fix sig pod pts assume "(pod, pts) \<in> set (rg_raw st' sig)"
      with 2(4) consider "(pod, pts) \<in> set (rg_raw st sig)" | "sig = last ?parts" "(pod, pts) = (?parts ! 1, sort ps)"
        by (auto split: if_splits dest: update_mem)
      then show "\<exists>ks \<in> set window. 3 \<le> length (split_on CHR ''/'' (fst ks)) \<and> split_on CHR ''/'' (fst ks) ! 1 = pod \<and>
          last (split_on CHR ''/'' (fst ks)) = sig \<and> pts \<noteq> [] \<and> snd ` set pts \<subseteq> {v. \<exists>s \<in> set (snd ks). sm_value s = Some v}"
      proof cases
        case 1 with assms(2) show ?thesis unfolding ring_from_def by blast
      next
        case 2 with new assms(3) show ?thesis by (intro bexI [of _ ks]) simp_all
      qed
    qed
  qed (use assms(2) in simp)
qed

lemma ingest_from:
  "ingest fromiso want ks st = Ret st' \<Longrightarrow> ring_from fromiso window st \<Longrightarrow> set ks \<subseteq> set window \<Longrightarrow> ring_from fromiso window st'"
  by (induction ks arbitrary: st) (auto dest: ingest_key_from)

lemma advance_subset: "set (advance u pts) \<subseteq> set pts"
  by (induction u pts rule: advance.induct) auto

lemma resample_values:
  "pts \<noteq> [] \<Longrightarrow> Some v \<in> set (resample step pts gs) \<Longrightarrow> v \<in> snd ` set pts"
proof (induction gs arbitrary: pts)
  case (Cons g gs)
  let ?pts = "advance (g + step / 2) pts"
  have ne: "?pts \<noteq> []" by (rule advance_not_Nil [OF Cons.prems(1)])
  from Cons.prems(2) consider "v = snd (hd ?pts)" | "Some v \<in> set (resample step ?pts gs)"
    by (auto simp: Let_def split: if_splits)
  then have "v \<in> snd ` set ?pts" by cases (use ne Cons.IH [OF ne] in auto)
  then show ?case using advance_subset [of "g + step / 2" pts] by blast
qed simp

text \<open>A column of a vector is a gap or a value that was in the window under that pod and signal.\<close>

lemma build_inputs_from:
  assumes "build_inputs fromiso env window events = Ret inp" and "(pod, v) \<in> set (in_vecs inp sig)"
  shows "\<exists>ks \<in> set window. 3 \<le> length (split_on CHR ''/'' (fst ks)) \<and> split_on CHR ''/'' (fst ks) ! 1 = pod \<and>
    last (split_on CHR ''/'' (fst ks)) = sig \<and> set v \<subseteq> insert 0 {x. \<exists>s \<in> set (snd ks). sm_value s = Some x}"
proof -
  from assms(1) obtain st where st: "ingest fromiso (wanted env) window \<lparr>rg_raw = (\<lambda>_. []), rg_latest = 0\<rparr> = Ret st"
    and inp: "\<And>sig. in_vecs inp sig = List.map_filter (to_vector (sv_step env) (rg_latest st)) (rg_raw st sig)"
    by (auto simp: build_inputs_def)
  have ok: "ring_from fromiso window st" by (rule ingest_from [OF st]) (simp_all add: ring_from_def)
  from assms(2) obtain pp where pp: "pp \<in> set (rg_raw st sig)" "to_vector (sv_step env) (rg_latest st) pp = Some (pod, v)"
    unfolding inp by (auto simp: List.map_filter_def)
  moreover from to_vector_pod [OF pp(2)] obtain pts where "pp = (pod, pts)" by (cases pp) simp
  ultimately have pts: "(pod, pts) \<in> set (rg_raw st sig)" and v: "to_vector (sv_step env) (rg_latest st) (pod, pts) = Some (pod, v)"
    by simp_all
  from ok pts obtain ks where ks: "ks \<in> set window" "3 \<le> length (split_on CHR ''/'' (fst ks))"
    "split_on CHR ''/'' (fst ks) ! 1 = pod" "last (split_on CHR ''/'' (fst ks)) = sig" "pts \<noteq> []"
    "snd ` set pts \<subseteq> {v. \<exists>s \<in> set (snd ks). sm_value s = Some v}"
    unfolding ring_from_def by blast
  from v have v': "v = map nan_to_num (resample (sv_step env) pts (grid (rg_latest st) (sv_step env)))"
    by (auto simp: to_vector_def Let_def split: if_splits)
  have "nan_to_num y = 0 \<or> nan_to_num y \<in> snd ` set pts"
    if "y \<in> set (resample (sv_step env) pts (grid (rg_latest st) (sv_step env)))" for y
  proof (cases y)
    case (Some z)
    with that resample_values [OF ks(5)] show ?thesis by (simp add: nan_to_num_def)
  qed (simp add: nan_to_num_def)
  with v' have "set v \<subseteq> insert 0 (snd ` set pts)" by auto
  also have "\<dots> \<subseteq> insert 0 {x. \<exists>s \<in> set (snd ks). sm_value s = Some x}" using ks(6) by (rule insert_mono)
  finally show ?thesis using ks(1-4) by (intro bexI [of _ ks] conjI)
qed

section \<open>From Prometheus to the engine\<close>

text \<open>Names of Kubernetes objects and of signals have no slash.\<close>

definition slashless :: "agg_sample \<Rightarrow> bool" where
  "slashless s \<longleftrightarrow> CHR ''/'' \<notin> set (ag_ns s) \<and> CHR ''/'' \<notin> set (ag_pod s) \<and> CHR ''/'' \<notin> set (ag_sig s)"

lemma split_key: "slashless s \<Longrightarrow> split_on CHR ''/'' (key_of s) = [ag_ns s, ag_pod s, ag_sig s]"
  by (simp add: slashless_def key_of_def ring_key_def split_on_append)

lemma breach_pods_sent: "list_all conforms es \<Longrightarrow> breach_pods (map sent es) = Ret (map ae_pod es)"
  by (induction es) (auto simp: sent_def conforms_def)

lemma list_all_last_n: "list_all P xs \<Longrightarrow> list_all P (last_n n xs)"
  using set_last_n [of n xs] by (auto simp: list_all_iff)

lemma tells_source: "list_all2 (tells p) es ss \<Longrightarrow> e \<in> set es \<Longrightarrow> \<exists>s \<in> set ss. ag_pod s = ae_pod e"
  by (induction rule: list_all2_induct) (auto simp: tells_def)

text \<open>The vectors of a pass, and the pods it takes to be in breach.\<close>

definition measured :: "query_pack \<Rightarrow> agg_sample list \<Rightarrow> string \<Rightarrow> string \<times> vec \<Rightarrow> bool" where
  "measured p taken sig pv \<longleftrightarrow> length (snd pv) = GRID_N \<and>
     (\<exists>ns. ring_key ns (fst pv) sig \<in> key_of ` set taken \<and>
        set (snd pv) \<subseteq> insert 0 (ag_value ` set (last_n (nat (ring_cap p)) (taken_of (ring_key ns (fst pv) sig) taken))))"

definition in_breach_of :: "query_pack \<Rightarrow> agg_sample list \<Rightarrow> string \<Rightarrow> bool" where
  "in_breach_of p taken pod \<longleftrightarrow> (\<exists>s \<in> set taken. ag_pod s = pod \<and> breaches p s)"

lemma vectors_measured:
  assumes run: "agg_run p a" "0 \<le> ring_cap p" and names: "list_all slashless (at_taken a)" and step: "0 \<le> sv_step env"
    and inp: "build_inputs fromiso env (serve_window a) events = Ret inp" and pv: "pv \<in> set (in_vecs inp sig)"
  shows "measured p (at_taken a) sig pv"
proof -
  obtain pod v where pv': "pv = (pod, v)" by (cases pv)
  note window = serve_window_reachable [OF run]
  from build_inputs_shape [OF inp step] pv pv' have len: "length v = GRID_N" by (fastforce dest: aligned_length)
  have key: "\<exists>s \<in> set (at_taken a). fst ks = key_of s \<and> snd ks = map shown (last_n (nat (ring_cap p)) (taken_of (key_of s) (at_taken a)))"
    if "ks \<in> set (serve_window a)" for ks
    using that unfolding window by auto
  from build_inputs_from [OF inp pv [unfolded pv']] obtain ks where ks: "ks \<in> set (serve_window a)"
    "split_on CHR ''/'' (fst ks) ! 1 = pod" "last (split_on CHR ''/'' (fst ks)) = sig"
    "set v \<subseteq> insert 0 {x. \<exists>s \<in> set (snd ks). sm_value s = Some x}" by blast
  from key [OF ks(1)] obtain s where s: "s \<in> set (at_taken a)" "fst ks = key_of s"
    "snd ks = map shown (last_n (nat (ring_cap p)) (taken_of (key_of s) (at_taken a)))" by blast
  from names s(1) have "split_on CHR ''/'' (key_of s) = [ag_ns s, ag_pod s, ag_sig s]" by (simp add: list_all_iff split_key)
  with ks(2,3) s(2) have "pod = ag_pod s" "sig = ag_sig s" by simp_all
  then have key_s: "key_of s = ring_key (ag_ns s) pod sig" by (simp add: key_of_def)
  have "set v \<subseteq> insert 0 (ag_value ` set (last_n (nat (ring_cap p)) (taken_of (key_of s) (at_taken a))))"
    using ks(4) s(3) by (auto simp: shown_def)
  moreover from s(1) have "ring_key (ag_ns s) pod sig \<in> key_of ` set (at_taken a)" by (simp flip: key_s)
  ultimately show ?thesis using len pv' key_s by (auto simp: measured_def)
qed

lemma breaches_published:
  assumes run: "agg_run p b" "0 \<le> ring_cap p"
  shows "\<exists>out. at_made b = out @ at_publish b @ at_events b \<and>
    breach_pods (serve_events b) = Ret (map ae_pod (last_n 256 out)) \<and>
    list_all (in_breach_of p (at_taken b)) (map ae_pod (last_n 256 out))"
proof -
  from serve_events_reachable [OF run] obtain out where
    out: "at_made b = out @ at_publish b @ at_events b" "serve_events b = map sent (last_n 256 out)" by blast
  have ok: "list_all2 (tells p) (at_made b) (filter (breaches p) (at_taken b))" "list_all conforms (at_made b)"
    using agg_run_ok [OF run] by (simp_all add: agg_ok_def)
  have "list_all conforms (last_n 256 out)" using ok(2) out(1) by (simp add: list_all_last_n)
  moreover have "in_breach_of p (at_taken b) (ae_pod e)" if "e \<in> set (last_n 256 out)" for e
    using tells_source [OF ok(1), of e] that set_last_n [of 256 out] out(1) by (auto simp: in_breach_of_def)
  ultimately show ?thesis using out by (auto simp: breach_pods_sent list_all_iff)
qed

lemma build_inputs_breach:
  "build_inputs fromiso env window events = Ret inp \<Longrightarrow> breach_pods events = Ret ps \<Longrightarrow> in_breach inp = sorted_set ps"
  by (auto simp: build_inputs_def)

text \<open>C6 (functional).  The engine reads what was measured.  Whatever two moments of the aggregator it asks, its inputs are
  built; every column of every vector is a gap or one of the newest samples taken for that very pod and
  signal; and the pods in breach are those of the newest 256 published events, each of which really
  exceeded the threshold of the pack.\<close>

theorem engine_reads_measurements:
  assumes "agg_run p a" and "agg_run p b" and "0 \<le> ring_cap p" and "list_all slashless (at_taken a)" and "0 \<le> sv_step env"
  shows "\<exists>inp out. build_inputs fromiso env (serve_window a) (serve_events b) = Ret inp \<and>
    (\<forall>sig. list_all (measured p (at_taken a) sig) (in_vecs inp sig)) \<and>
    at_made b = out @ at_publish b @ at_events b \<and> set (in_breach inp) = ae_pod ` set (last_n 256 out) \<and>
    list_all (in_breach_of p (at_taken b)) (in_breach inp)"
proof -
  from build_inputs_total obtain inp where inp: "build_inputs fromiso env (serve_window a) (serve_events b) = Ret inp" by blast
  from breaches_published [OF assms(2,3)] obtain out where out: "at_made b = out @ at_publish b @ at_events b"
    "breach_pods (serve_events b) = Ret (map ae_pod (last_n 256 out))"
    "list_all (in_breach_of p (at_taken b)) (map ae_pod (last_n 256 out))" by blast
  have "list_all (measured p (at_taken a) sig) (in_vecs inp sig)" for sig
    using vectors_measured [OF assms(1,3,4,5) inp] by (auto simp: list_all_iff)
  moreover have "set (in_breach inp) = ae_pod ` set (last_n 256 out)"
    using build_inputs_breach [OF inp out(2)] by simp
  moreover from this have "list_all (in_breach_of p (at_taken b)) (in_breach inp)"
    using out(3) by (simp add: list_all_iff)
  ultimately show ?thesis using inp out(1) by blast
qed

lemma distinct_singleton_list: "xs \<noteq> [] \<Longrightarrow> set xs \<subseteq> {x} \<Longrightarrow> distinct xs \<Longrightarrow> xs = [x]"
  by (cases xs rule: remdups_adj.cases) auto

theorem engine_reads_measurements_witness:
  "\<exists>a inp. agg_run small_pack a \<and>
     build_inputs plain_clock default_env (serve_window a) (serve_events a) = Ret inp \<and> in_breach inp = [''a'']"
proof -
  obtain a where a: "agg_run small_pack a" "at_publish a = []" "at_events a = []" "at_taken a = [small_sample 5, small_sample 7]"
    using small_run by blast
  have cap: "0 \<le> ring_cap small_pack" by (simp add: small_cap)
  have names: "list_all slashless (at_taken a)" by (simp add: a(4) slashless_def small_sample_def)
  from engine_reads_measurements [OF a(1,1) cap names default_env_sane(2), of plain_clock] obtain inp out where
    inp: "build_inputs plain_clock default_env (serve_window a) (serve_events a) = Ret inp"
    "at_made a = out @ at_publish a @ at_events a" "set (in_breach inp) = ae_pod ` set (last_n 256 out)"
    "list_all (in_breach_of small_pack (at_taken a)) (in_breach inp)" by blast
  have "breaches small_pack (small_sample 5)" "breaches small_pack (small_sample 7)"
    using small_threshold by (simp_all add: breaches_def small_sample_def)
  moreover from breaches_published [OF a(1) cap] obtain ps where breaches: "breach_pods (serve_events a) = Ret ps" by blast
  ultimately have "length (at_made a) = 2"
    using agg_run_ok [OF a(1) cap] a(4) by (auto simp: agg_ok_def dest: list_all2_lengthD)
  with inp(2) a(2,3) have "last_n 256 out \<noteq> []" by (auto simp: last_n_def)
  with inp(3) have "in_breach inp \<noteq> []" by auto
  moreover have only: "pod = ''a''" if "in_breach_of small_pack (at_taken a) pod" for pod
    using that unfolding in_breach_of_def a(4) by (elim bexE) (auto simp: small_sample_def)
  have "set (in_breach inp) \<subseteq> {''a''}"
    using inp(4) only by (fastforce simp only: list_all_iff)
  moreover have "distinct (in_breach inp)"
    using build_inputs_breach [OF inp(1) breaches] by simp
  ultimately have "in_breach inp = [''a'']" by (simp add: distinct_singleton_list)
  with a(1) inp(1) show ?thesis by blast
qed

section \<open>The service on the aggregator\<close>

definition collected :: "query_pack \<Rightarrow> tick \<Rightarrow> bool" where
  "collected p tk \<longleftrightarrow> (\<exists>a b. agg_run p a \<and> agg_run p b \<and> tk_window tk = Ret (serve_window a) \<and> tk_events tk = Ret (serve_events b))"

lemma collected_inputs: "collected p tk \<Longrightarrow> answered tk \<and> (\<exists>inp. tick_inputs fromiso env tk = Ret inp)"
  using build_inputs_total by (auto simp: collected_def answered_def tick_inputs_def)

text \<open>The engine on a live aggregator never serves an error: after every tick a merged graph.\<close>

lemma collected_loop_serves:
  assumes "numeric_library np" and "digraph_library nx" and "sane_config (sv_memory env)" and "0 \<le> sv_step env"
    and "memories_ok env (ss_memory st)" and "list_all (collected p) tks" and "tks \<noteq> []"
  shows "\<exists>st' m warn. loop np nx digest fromiso env tks st = Some st' \<and> memories_ok env (ss_memory st') \<and>
    ss_graph st' = Served m warn"
  using assms(5-7)
proof (induction tks arbitrary: st)
  case (Cons t tks)
  from Cons.prems(2) have t: "collected p t" by simp
  from collected_inputs [OF t] obtain inp where inp: "answered t" "tick_inputs fromiso env t = Ret inp" by blast
  from loop_body_returns [OF assms(1-4) Cons.prems(1) inp(1), of digest fromiso] inp(2) obtain st1 m warn where
    st1: "loop_body np nx digest fromiso env t st = Some st1" "memories_ok env (ss_memory st1)" "ss_graph st1 = Served m warn"
    by (auto simp: serves_def)
  show ?case
  proof (cases "tks = []")
    case True
    with st1 show ?thesis by simp
  next
    case False
    with Cons.IH [OF st1(2)] Cons.prems(2) st1(1) show ?thesis by simp
  qed
qed simp

end
