(* ===== verification/Gateway_Metrics.thy ===== *)
theory Gateway_Metrics
  imports Text Edge_Memory
begin

text \<open>
  \<open>api/main.py\<close>, what the gateway computes from Prometheus: the Caretta topology, sums per workload or
  pod, right-sizing cards, the fairness index and the two reports built from them.  The reply to
  a query is an argument: \<open>None\<close> where the request or its decoding raised.  The PromQL text of a
  query is represented by the constructor that names it.
\<close>

record series =
  se_labels :: "(string \<times> string) list"
  se_value :: "string option"

record prom_data = pd_result :: "series list option"
record prom_reply = pr_data :: "prom_data option"

text \<open>\<open>(r.get("data") or {}).get("result") or []\<close>.\<close>

definition result_of :: "prom_reply \<Rightarrow> series list" where
  "result_of r = (case pr_data r of None \<Rightarrow> [] | Some d \<Rightarrow> (case pd_result d of None \<Rightarrow> [] | Some ss \<Rightarrow> ss))"

definition label :: "series \<Rightarrow> string \<Rightarrow> string option" where
  "label s k = map_of (se_labels s) k"

text \<open>\<open>float(s.get("value", [0, 0])[1])\<close>: 0 when there is no value, \<open>None\<close> when it raises.\<close>

definition series_float :: "series \<Rightarrow> real option" where
  "series_float s = (case se_value s of None \<Rightarrow> Some 0 | Some t \<Rightarrow> parse_float t)"

section \<open>Topology\<close>

record flow =
  fl_src :: string
  fl_dst :: string
  fl_src_ns :: string
  fl_dst_ns :: string
  fl_port :: "string option"
  fl_bytes :: int

text \<open>The flow a series stands for; \<open>None\<close> is \<open>continue\<close>.\<close>

definition series_flow :: "string \<Rightarrow> series \<Rightarrow> (flow \<times> real) option" where
  "series_flow ns_prefix s =
     (let cn = label s ''client_name''; sn = label s ''server_name'';
          cns = or_empty (label s ''client_namespace''); sns = or_empty (label s ''server_namespace'')
      in if \<not> truthy cn \<or> \<not> truthy sn \<or> cn = sn then None
         else if \<not> (startswith cns ns_prefix \<and> startswith sns ns_prefix) then None
         else
           let b = (case series_float s of None \<Rightarrow> 0 | Some x \<Rightarrow> x)
           in Some (\<lparr>fl_src = the cn, fl_dst = the sn, fl_src_ns = cns, fl_dst_ns = sns,
                fl_port = label s ''server_port'', fl_bytes = round_half_even b\<rparr>, b))"

definition flow_pair :: "flow \<Rightarrow> string \<times> string" where
  "flow_pair f = (fl_src f, fl_dst f)"

definition caretta_step :: "string \<Rightarrow> ((string \<times> string) \<times> flow) list \<Rightarrow> series \<Rightarrow> ((string \<times> string) \<times> flow) list" where
  "caretta_step ns_prefix best s =
     (case series_flow ns_prefix s of
        None \<Rightarrow> best
      | Some (f, b) \<Rightarrow>
          (case map_of best (flow_pair f) of
             None \<Rightarrow> AList.update (flow_pair f) f best
           | Some old \<Rightarrow> if b > of_int (fl_bytes old) then AList.update (flow_pair f) f best else best))"

definition parse_caretta :: "string \<Rightarrow> series list \<Rightarrow> flow list" where
  "parse_caretta ns_prefix result =
     sort_key (\<lambda>f. - fl_bytes f) (map snd (foldl (caretta_step ns_prefix) [] result))"

datatype source = Caretta | Prometheus | Unavailable

definition caretta_topology :: "prom_reply option \<Rightarrow> flow list \<times> source" where
  "caretta_topology reply =
     (case reply of None \<Rightarrow> ([], Unavailable) | Some r \<Rightarrow> (parse_caretta ''factory'' (result_of r), Caretta))"

section \<open>Sums per workload and per pod\<close>

type_synonym prom_key = "string \<times> string"
type_synonym prom_map = "(prom_key \<times> real) list"

definition add_to :: "prom_key \<Rightarrow> real \<Rightarrow> prom_map \<Rightarrow> prom_map" where
  "add_to k v d = AList.update k ((case map_of d k of None \<Rightarrow> 0 | Some x \<Rightarrow> x) + v) d"

definition prom_step :: "(string \<Rightarrow> string) \<Rightarrow> prom_map \<Rightarrow> series \<Rightarrow> prom_map" where
  "prom_step name out s =
     (let ns = label s ''namespace''; pod = label s ''pod''
      in if \<not> truthy ns \<or> \<not> truthy pod then out
         else (case series_float s of None \<Rightarrow> out | Some v \<Rightarrow> add_to (the ns, name (the pod)) v out))"

definition prom_map_by :: "(string \<Rightarrow> string) \<Rightarrow> prom_reply option \<Rightarrow> prom_map" where
  "prom_map_by name reply =
     (case reply of None \<Rightarrow> [] | Some r \<Rightarrow> foldl (prom_step name) [] (result_of r))"

definition prom_map :: "prom_reply option \<Rightarrow> prom_map" where
  "prom_map = prom_map_by stable_workload"

definition prom_pod_map :: "prom_reply option \<Rightarrow> prom_map" where
  "prom_pod_map = prom_map_by (\<lambda>pod. pod)"

section \<open>Right-sizing\<close>

definition RECLAIM_FRAC :: real where "RECLAIM_FRAC = 1/2"
definition RESIZE_FRAC :: real where "RESIZE_FRAC = 85/100"
definition HEADROOM :: real where "HEADROOM = 13/10"

definition fmt_cpu :: "real \<Rightarrow> string" where
  "fmt_cpu c = (if c < 1 then show_int (round_half_even (c * 1000)) @ ''m'' else show_round2 c @ '' CPU'')"

fun fmt_unit :: "real \<Rightarrow> string \<Rightarrow> string list \<Rightarrow> real \<times> string" where
  "fmt_unit v u [] = (v, u)"
| "fmt_unit v u (u' # us) = (if v \<ge> 1024 then fmt_unit (v / 1024) u' us else (v, u))"

definition fmt_mem :: "real \<Rightarrow> string" where
  "fmt_mem b = (let (v, u) = fmt_unit b ''B'' [''KB'', ''MB'', ''GB''] in show_int (round_half_even v) @ '' '' @ u)"

datatype resource = Cpu | Mem

datatype verb = Resize | Reclaim

text \<open>The cards are sorted by \<open>verb != "resize"\<close>: what is at risk comes first.\<close>

instantiation verb :: linorder
begin

definition less_eq_verb :: "verb \<Rightarrow> verb \<Rightarrow> bool" where
  "less_eq_verb v w \<longleftrightarrow> v = Resize \<or> w = Reclaim"

definition less_verb :: "verb \<Rightarrow> verb \<Rightarrow> bool" where
  "less_verb v w \<longleftrightarrow> v = Resize \<and> w = Reclaim"

instance
proof
  fix u v w :: verb
  show "v < w \<longleftrightarrow> v \<le> w \<and> \<not> w \<le> v" "v \<le> v" "v \<le> w \<Longrightarrow> w \<le> v \<Longrightarrow> v = w" "v \<le> w \<or> w \<le> v"
    "u \<le> v \<Longrightarrow> v \<le> w \<Longrightarrow> u \<le> w"
    by (cases u; cases v; cases w; simp add: less_eq_verb_def less_verb_def)+
qed

end

record card =
  cd_verb :: verb
  cd_namespace :: string
  cd_workload :: string
  cd_resource :: resource
  cd_detail :: string
  cd_request :: "real option"
  cd_limit :: "real option"
  cd_p95 :: real
  cd_target :: real

definition min_save :: "resource \<Rightarrow> real" where
  "min_save res = (case res of Cpu \<Rightarrow> 5/100 | Mem \<Rightarrow> 64 * 1024 * 1024)"

definition fmt :: "resource \<Rightarrow> real \<Rightarrow> string" where
  "fmt res = (case res of Cpu \<Rightarrow> fmt_cpu | Mem \<Rightarrow> fmt_mem)"

text \<open>\<open>if req\<close>: a number that is there and not zero.\<close>

definition nonzero :: "real option \<Rightarrow> real option" where
  "nonzero x = (case x of None \<Rightarrow> None | Some r \<Rightarrow> if r = 0 then None else Some r)"

definition reclaim_target :: "real \<Rightarrow> real \<Rightarrow> real" where
  "reclaim_target req p95 = max (p95 * HEADROOM) (req * (1/10))"

definition resize_card :: "string \<Rightarrow> string \<Rightarrow> real option \<Rightarrow> real option \<Rightarrow> real option \<Rightarrow> resource \<Rightarrow> card option" where
  "resize_card ns wl req cap p95 res =
     (case (nonzero cap, p95) of
        (Some l, Some p) \<Rightarrow>
          if p > RESIZE_FRAC * l
          then Some \<lparr>cd_verb = Resize, cd_namespace = ns, cd_workload = wl, cd_resource = res,
                 cd_detail = ''p95 '' @ fmt res p @ '' near limit '' @ fmt res l @ '' -> resize up (throttle/OOM risk)'',
                 cd_request = req, cd_limit = cap, cd_p95 = p, cd_target = py_round 3 (l * (3/2))\<rparr>
          else None
      | _ \<Rightarrow> None)"

definition rightsize :: "string \<Rightarrow> string \<Rightarrow> real option \<Rightarrow> real option \<Rightarrow> real option \<Rightarrow> resource \<Rightarrow> card option" where
  "rightsize ns wl req cap p95 res =
     (case (nonzero req, p95) of
        (Some r, Some p) \<Rightarrow>
          if p < RECLAIM_FRAC * r \<and> r - reclaim_target r p > min_save res
          then Some \<lparr>cd_verb = Reclaim, cd_namespace = ns, cd_workload = wl, cd_resource = res,
                 cd_detail = ''requests '' @ fmt res r @ '', p95 '' @ fmt res p @ '' -> reclaim '' @
                   fmt res (r - reclaim_target r p),
                 cd_request = req, cd_limit = cap, cd_p95 = p, cd_target = py_round 3 (reclaim_target r p)\<rparr>
          else resize_card ns wl req cap p95 res
      | _ \<Rightarrow> resize_card ns wl req cap p95 res)"

section \<open>Fairness\<close>

definition gini :: "real list \<Rightarrow> real" where
  "gini vs =
     (let xs = sort (filter (\<lambda>v. v \<ge> 0) vs); n = real (length xs); s = sum_list xs
      in if xs = [] \<or> s = 0 then 0
         else let cum = (\<Sum>i < length xs. (real i + 1) * xs ! i)
              in py_round 3 ((2 * cum) / (n * s) - (n + 1) / n))"

definition group_by_ns :: "prom_map \<Rightarrow> (string \<times> real list) list" where
  "group_by_ns stall =
     foldl (\<lambda>by_ns ((ns, wl), v).
         AList.update ns ((case map_of by_ns ns of None \<Rightarrow> [] | Some vs \<Rightarrow> vs) @ [v]) by_ns) [] stall"

record fairness_row =
  fr_namespace :: string
  fr_gini :: real
  fr_workloads :: nat

definition fairness :: "prom_map \<Rightarrow> fairness_row list" where
  "fairness stall =
     map (\<lambda>(ns, vs). \<lparr>fr_namespace = ns, fr_gini = gini vs, fr_workloads = length vs\<rparr>)
       (sort_key fst (group_by_ns stall))"

section \<open>The two reports\<close>

datatype metric_query = CpuReq | CpuLim | CpuP95 | CpuUse | MemReq | MemLim | MemP95 | MemUse
  | StallIo | StallCpu | StallMem

definition merge_sums :: "prom_map list \<Rightarrow> prom_map" where
  "merge_sums ms = foldl (\<lambda>stall (k, v). add_to k v stall) [] (concat ms)"

definition all_keys :: "prom_map list \<Rightarrow> prom_key list" where
  "all_keys ms = sorted_list_of_set (\<Union>m \<in> set ms. fst ` set m)"

definition cards_for :: "(metric_query \<Rightarrow> prom_map) \<Rightarrow> prom_key \<Rightarrow> card list" where
  "cards_for maps k =
     List.map_filter (\<lambda>(res, rq, lm, p9).
         rightsize (fst k) (snd k) (map_of (maps rq) k) (map_of (maps lm) k) (map_of (maps p9) k) res)
       [(Cpu, CpuReq, CpuLim, CpuP95), (Mem, MemReq, MemLim, MemP95)]"

definition card_order :: "card \<Rightarrow> verb \<times> real" where
  "card_order c = (cd_verb c, - cd_p95 c)"

definition recommendations ::
    "(metric_query \<Rightarrow> prom_reply option) \<Rightarrow> card list \<times> fairness_row list \<times> source" where
  "recommendations prom =
     (let maps = (\<lambda>q. prom_map (prom q));
          used = map maps [CpuReq, CpuLim, CpuP95, MemReq, MemLim, MemP95]
      in if list_all (\<lambda>m. m = []) used then ([], [], Unavailable)
         else
           let cards = concat (map (cards_for maps) (all_keys used));
               stall = merge_sums (map maps [StallIo, StallCpu, StallMem])
           in (sort_key card_order cards, fairness stall, Prometheus))"

record usage_row =
  us_request :: "real option"
  us_limit :: "real option"
  us_usage :: real

record pod_row =
  pw_namespace :: string
  pw_pod :: string
  pw_workload :: string
  pw_cpu :: usage_row
  pw_mem :: usage_row

definition get_or_0 :: "prom_map \<Rightarrow> prom_key \<Rightarrow> real" where
  "get_or_0 m k = (case map_of m k of None \<Rightarrow> 0 | Some v \<Rightarrow> v)"

definition pod_resources :: "(metric_query \<Rightarrow> prom_reply option) \<Rightarrow> pod_row list \<times> source" where
  "pod_resources prom =
     (let maps = (\<lambda>q. prom_pod_map (prom q));
          used = map maps [CpuReq, CpuLim, CpuUse, MemReq, MemLim, MemUse]
      in if list_all (\<lambda>m. m = []) used then ([], Unavailable)
         else (map (\<lambda>k. \<lparr>pw_namespace = fst k, pw_pod = snd k, pw_workload = stable_workload (snd k),
                 pw_cpu = \<lparr>us_request = map_of (maps CpuReq) k, us_limit = map_of (maps CpuLim) k,
                   us_usage = py_round 4 (get_or_0 (maps CpuUse) k)\<rparr>,
                 pw_mem = \<lparr>us_request = map_of (maps MemReq) k, us_limit = map_of (maps MemLim) k,
                   us_usage = of_int (round_half_even (get_or_0 (maps MemUse) k))\<rparr>\<rparr>) (all_keys used), Prometheus))"

section \<open>One flow per pair\<close>

definition flows :: "string \<Rightarrow> series list \<Rightarrow> (flow \<times> real) list" where
  "flows ns_prefix result = List.map_filter (series_flow ns_prefix) result"

definition caretta_inv :: "flow set \<Rightarrow> ((string \<times> string) \<times> flow) list \<Rightarrow> bool" where
  "caretta_inv F best \<longleftrightarrow> distinct (map fst best) \<and>
     (\<forall>x \<in> set best. fst x = flow_pair (snd x) \<and> snd x \<in> F \<and>
        (\<forall>g \<in> F. flow_pair g = fst x \<longrightarrow> fl_bytes g \<le> fl_bytes (snd x))) \<and>
     flow_pair ` F \<subseteq> fst ` set best"

lemma series_flow_bytes: "series_flow p s = Some (f, b) \<Longrightarrow> fl_bytes f = round_half_even b"
  by (auto simp: series_flow_def Let_def split: if_splits)

lemma set_update_distinct:
  "distinct (map fst al) \<Longrightarrow> set (AList.update k v al) = insert (k, v) {x \<in> set al. fst x \<noteq> k}"
  by (induction al) (force simp: image_iff)+

lemma caretta_replace:
  assumes inv: "caretta_inv F best" and top: "\<forall>g \<in> F. flow_pair g = flow_pair f \<longrightarrow> fl_bytes g \<le> fl_bytes f"
  shows "caretta_inv (insert f F) (AList.update (flow_pair f) f best)"
proof -
  from inv have d: "distinct (map fst best)" by (simp add: caretta_inv_def)
  have "distinct (map fst (AList.update (flow_pair f) f best))" by (rule distinct_update [OF d])
  moreover have "\<forall>x \<in> set (AList.update (flow_pair f) f best). fst x = flow_pair (snd x) \<and> snd x \<in> insert f F \<and>
      (\<forall>g \<in> insert f F. flow_pair g = fst x \<longrightarrow> fl_bytes g \<le> fl_bytes (snd x))"
    unfolding set_update_distinct [OF d] using inv top unfolding caretta_inv_def by auto
  moreover have "flow_pair ` insert f F \<subseteq> fst ` set (AList.update (flow_pair f) f best)"
  proof -
    from inv have "flow_pair ` F \<subseteq> fst ` set best" unfolding caretta_inv_def by blast
    then show ?thesis unfolding dom_update by blast
  qed
  ultimately show ?thesis unfolding caretta_inv_def by (intro conjI)
qed

lemma caretta_keep:
  assumes inv: "caretta_inv F best" and old: "(flow_pair f, old) \<in> set best" "fl_bytes f \<le> fl_bytes old"
  shows "caretta_inv (insert f F) best"
proof -
  have uniq: "x = (flow_pair f, old)" if "x \<in> set best" "fst x = flow_pair f" for x
  proof -
    from inv have "inj_on fst (set best)" unfolding caretta_inv_def distinct_map by blast
    from inj_onD [OF this _ that(1) old(1)] that(2) show ?thesis by simp
  qed
  have "\<forall>g \<in> insert f F. flow_pair g = fst x \<longrightarrow> fl_bytes g \<le> fl_bytes (snd x)" if x: "x \<in> set best" for x
  proof
    fix g assume g: "g \<in> insert f F"
    show "flow_pair g = fst x \<longrightarrow> fl_bytes g \<le> fl_bytes (snd x)"
    proof (cases "g = f")
      case True
      with uniq [OF x] old(2) show ?thesis by fastforce
    next
      case False
      with g inv x show ?thesis unfolding caretta_inv_def by blast
    qed
  qed
  moreover have "flow_pair f \<in> fst ` set best" using old(1) by force
  ultimately show ?thesis using inv unfolding caretta_inv_def image_insert by blast
qed

lemma caretta_step_inv:
  assumes inv: "caretta_inv F best" and flow: "series_flow p s = Some (f, b)"
  shows "caretta_inv (insert f F) (caretta_step p best s)"
proof (cases "map_of best (flow_pair f)")
  case None
  then have "flow_pair f \<notin> fst ` set best" by (simp add: map_of_eq_None_iff)
  moreover from inv have "flow_pair ` F \<subseteq> fst ` set best" unfolding caretta_inv_def by blast
  ultimately have "\<forall>g \<in> F. flow_pair g = flow_pair f \<longrightarrow> fl_bytes g \<le> fl_bytes f" by force
  with caretta_replace [OF inv] None flow show ?thesis by (simp add: caretta_step_def)
next
  case (Some old)
  then have old: "(flow_pair f, old) \<in> set best" by (rule map_of_SomeD)
  with inv have top: "\<forall>g \<in> F. flow_pair g = flow_pair f \<longrightarrow> fl_bytes g \<le> fl_bytes old"
    unfolding caretta_inv_def by fastforce
  note bytes = series_flow_bytes [OF flow]
  show ?thesis
  proof (cases "b > of_int (fl_bytes old)")
    case True
    then have "fl_bytes old \<le> fl_bytes f"
      using round_half_even_mono [of "of_int (fl_bytes old)" b] by (simp add: bytes)
    with top have "\<forall>g \<in> F. flow_pair g = flow_pair f \<longrightarrow> fl_bytes g \<le> fl_bytes f" by fastforce
    from caretta_replace [OF inv this] Some True flow show ?thesis by (simp add: caretta_step_def)
  next
    case False
    then have "fl_bytes f \<le> fl_bytes old"
      using round_half_even_mono [of b "of_int (fl_bytes old)"] by (simp add: bytes)
    from caretta_keep [OF inv old this] Some False flow show ?thesis by (simp add: caretta_step_def)
  qed
qed

lemma caretta_fold_inv: "caretta_inv (fst ` set (flows p result)) (foldl (caretta_step p) [] result)"
proof (induction result rule: rev_induct)
  case (snoc s result)
  let ?best = "foldl (caretta_step p) [] result"
  show ?case
  proof (cases "series_flow p s")
    case None
    then have "caretta_step p ?best s = ?best" "flows p (result @ [s]) = flows p result"
      by (simp_all add: caretta_step_def flows_def List.map_filter_def)
    with snoc show ?thesis by (simp only: foldl_append foldl.simps)
  next
    case (Some fb)
    obtain f b where fb: "fb = (f, b)" by (cases fb)
    have "fst ` set (flows p (result @ [s])) = insert f (fst ` set (flows p result))"
      by (simp add: flows_def List.map_filter_def Some fb)
    with caretta_step_inv [OF snoc Some [unfolded fb]] show ?thesis by (simp only: foldl_append foldl.simps)
  qed
qed (simp add: caretta_inv_def flows_def List.map_filter_def)

lemma series_flow_scope:
  "series_flow p s = Some (f, b) \<Longrightarrow> fl_src f \<noteq> fl_dst f \<and> startswith (fl_src_ns f) p \<and> startswith (fl_dst_ns f) p"
  by (auto simp: series_flow_def Let_def truthy_def split: if_splits option.splits)

text \<open>The topology has one edge per directed pair of workloads, heaviest first, each
  inside the factory namespaces and between different workloads: of the series of a pair the one
  with the most bytes after rounding is kept, although the code compares an unrounded count with
  a rounded one, and every series in scope is represented.\<close>

theorem parse_caretta_heaviest:
  "distinct (map flow_pair (parse_caretta p result)) \<and>
   sorted_wrt (\<lambda>f g. fl_bytes g \<le> fl_bytes f) (parse_caretta p result) \<and>
   (\<forall>f \<in> set (parse_caretta p result). fl_src f \<noteq> fl_dst f \<and> startswith (fl_src_ns f) p \<and> startswith (fl_dst_ns f) p \<and>
      f \<in> fst ` set (flows p result) \<and>
      (\<forall>g \<in> fst ` set (flows p result). flow_pair g = flow_pair f \<longrightarrow> fl_bytes g \<le> fl_bytes f)) \<and>
   flow_pair ` set (parse_caretta p result) = flow_pair ` fst ` set (flows p result)"
proof -
  define best where "best = foldl (caretta_step p) [] result"
  define F where "F = fst ` set (flows p result)"
  have inv: "caretta_inv F best" unfolding F_def best_def by (rule caretta_fold_inv)
  have out: "parse_caretta p result = sort_key (\<lambda>f. - fl_bytes f) (map snd best)"
    by (simp add: parse_caretta_def best_def)
  have "map flow_pair (map snd best) = map fst best" using inv by (simp add: caretta_inv_def)
  then have d: "distinct (map flow_pair (map snd best))" using inv by (simp only: caretta_inv_def)
  have s: "sorted_wrt (\<lambda>f g. fl_bytes g \<le> fl_bytes f) (parse_caretta p result)"
    using sorted_sort_key [of "\<lambda>f. - fl_bytes f" "map snd best"] by (simp add: out sorted_wrt_map)
  have mem: "f \<in> F \<and> (\<forall>g \<in> F. flow_pair g = flow_pair f \<longrightarrow> fl_bytes g \<le> fl_bytes f)"
    if "f \<in> set (parse_caretta p result)" for f
    using that inv unfolding caretta_inv_def out by auto
  have scope: "fl_src f \<noteq> fl_dst f \<and> startswith (fl_src_ns f) p \<and> startswith (fl_dst_ns f) p" if "f \<in> F" for f
    using that series_flow_scope by (force simp: F_def flows_def List.map_filter_def)
  have "flow_pair ` set (parse_caretta p result) = fst ` set best"
    using inv unfolding caretta_inv_def out by (force simp: image_image)
  moreover have "fst ` set best = flow_pair ` F" using inv unfolding caretta_inv_def by force
  ultimately have "flow_pair ` set (parse_caretta p result) = flow_pair ` F" by simp
  moreover have "distinct (map flow_pair (parse_caretta p result))" using d by (simp add: out)
  ultimately show ?thesis using s mem scope unfolding F_def [symmetric] by blast
qed

theorem parse_caretta_heaviest_witness:
  "length (parse_caretta ''factory'' [\<lparr>se_labels = [(''client_name'', ''vision-qc''), (''server_name'', ''timescaledb''),
      (''client_namespace'', ''factory-edge''), (''server_namespace'', ''factory-data'')], se_value = Some ''10.4''\<rparr>]) = 1"
proof -
  let ?r = "[\<lparr>se_labels = [(''client_name'', ''vision-qc''), (''server_name'', ''timescaledb''),
      (''client_namespace'', ''factory-edge''), (''server_namespace'', ''factory-data'')], se_value = Some ''10.4''\<rparr>]"
  have "flow_pair ` fst ` set (flows ''factory'' ?r) = {(''vision-qc'', ''timescaledb'')}"
    by (simp add: flows_def List.map_filter_def series_flow_def label_def truthy_def startswith_def
        or_empty_def flow_pair_def Let_def)
  with parse_caretta_heaviest [of "''factory''" ?r]
  have "set (map flow_pair (parse_caretta ''factory'' ?r)) = {(''vision-qc'', ''timescaledb'')}"
    "distinct (map flow_pair (parse_caretta ''factory'' ?r))" by simp_all
  then have "length (map flow_pair (parse_caretta ''factory'' ?r)) = card {(''vision-qc'', ''timescaledb'')}"
    by (metis distinct_card)
  then show ?thesis by simp
qed

section \<open>Right-sizing is safe\<close>

definition over_provisioned :: "real option \<Rightarrow> real option \<Rightarrow> resource \<Rightarrow> bool" where
  "over_provisioned req p95 res \<longleftrightarrow> (case (nonzero req, p95) of
     (Some r, Some p) \<Rightarrow> p < r / 2 \<and> min_save res < r - max (13/10 * p) (r / 10) | _ \<Rightarrow> False)"

definition at_risk :: "real option \<Rightarrow> real option \<Rightarrow> bool" where
  "at_risk cap p95 \<longleftrightarrow> (case (nonzero cap, p95) of (Some l, Some p) \<Rightarrow> 85/100 * l < p | _ \<Rightarrow> False)"

lemma rightsize_not_over:
  "\<not> over_provisioned req p95 res \<Longrightarrow> rightsize ns wl req cap p95 res = resize_card ns wl req cap p95 res"
  by (auto simp: rightsize_def over_provisioned_def reclaim_target_def RECLAIM_FRAC_def HEADROOM_def
      mult.commute split: option.split)

lemma rightsize_over:
  "over_provisioned req p95 res \<Longrightarrow> \<exists>r p c. req = Some r \<and> p95 = Some p \<and>
     min_save res < r - max (13/10 * p) (r / 10) \<and> rightsize ns wl req cap p95 res = Some c \<and>
     cd_verb c = Reclaim \<and> cd_namespace c = ns \<and> cd_workload c = wl \<and> cd_resource c = res \<and> cd_p95 c = p \<and>
     cd_target c = py_round 3 (max (13/10 * p) (r / 10))"
  by (auto simp: rightsize_def over_provisioned_def nonzero_def reclaim_target_def RECLAIM_FRAC_def HEADROOM_def
      mult.commute split: option.splits if_splits)

text \<open>C34 (functional).  Right-sizing advice is complete and safe: a reclaim card appears exactly when the
  p95 is below half the request and more than the minimum is saved, a resize card exactly when
  it does not and the p95 is above 0.85 of the limit; a reclaim never goes below the observed p95
  nor below a tenth of the request and always frees more than the minimum, up to rounding of
  the printed target, and a resize raises the limit by half.\<close>

theorem rightsize_safe:
  assumes "0 \<le> the p95"
  shows "case rightsize ns wl req cap p95 res of
      None \<Rightarrow> \<not> over_provisioned req p95 res \<and> \<not> at_risk cap p95
    | Some c \<Rightarrow> cd_namespace c = ns \<and> cd_workload c = wl \<and> cd_resource c = res \<and> p95 = Some (cd_p95 c) \<and>
        (case cd_verb c of
           Reclaim \<Rightarrow> over_provisioned req p95 res \<and>
             (\<exists>target. \<bar>cd_target c - target\<bar> \<le> 1/2000 \<and> the p95 \<le> target \<and> the req / 10 \<le> target \<and>
                min_save res < the req - target)
         | Resize \<Rightarrow> \<not> over_provisioned req p95 res \<and> at_risk cap p95 \<and>
             \<bar>cd_target c - 3/2 * the cap\<bar> \<le> 1/2000)"
proof (cases "over_provisioned req p95 res")
  case True
  from rightsize_over [OF this, of ns wl cap] obtain r p c where rp: "req = Some r" "p95 = Some p"
    "min_save res < r - max (13/10 * p) (r / 10)" and c: "rightsize ns wl req cap p95 res = Some c"
    "cd_verb c = Reclaim" "cd_namespace c = ns" "cd_workload c = wl" "cd_resource c = res" "cd_p95 c = p"
    "cd_target c = py_round 3 (max (13/10 * p) (r / 10))" by blast
  have "p \<le> max (13/10 * p) (r / 10)" using assms rp(2) by simp
  with rp(3) py_round_error [of 3 "max (13/10 * p) (r / 10)"]
  have "\<exists>target. \<bar>cd_target c - target\<bar> \<le> 1/2000 \<and> p \<le> target \<and> r / 10 \<le> target \<and> min_save res < r - target"
    by (intro exI [of _ "max (13/10 * p) (r / 10)"]) (simp add: c)
  with True rp c show ?thesis by simp
next
  case False
  then show ?thesis
    using py_round_error [of 3 "the cap * (3/2)"]
    by (auto simp: rightsize_not_over resize_card_def at_risk_def nonzero_def RESIZE_FRAC_def mult.commute split: option.splits)
qed

theorem rightsize_safe_witness:
  "case rightsize ''factory-edge'' ''vision-qc'' (Some 1) None (Some (2/10)) Cpu of None \<Rightarrow> False | Some c \<Rightarrow> cd_verb c = Reclaim"
  using rightsize_safe [of "Some (2/10)" "Some 1" Cpu None "''factory-edge''" "''vision-qc''"]
  by (auto simp: over_provisioned_def nonzero_def min_save_def at_risk_def split: option.splits verb.splits)

section \<open>Fairness is an index\<close>

lemma weighted_sum_upper:
  assumes "\<forall>x \<in> set xs. (0::real) \<le> x"
  shows "(\<Sum>i < length xs. (real i + 1) * xs ! i) \<le> real (length xs) * sum_list xs"
proof -
  have "(\<Sum>i < length xs. (real i + 1) * xs ! i) \<le> (\<Sum>i < length xs. real (length xs) * xs ! i)"
    by (rule sum_mono) (use assms in \<open>auto intro!: mult_right_mono\<close>)
  also have "\<dots> = real (length xs) * sum_list xs"
    by (simp add: sum_distrib_left [symmetric] sum_list_sum_nth atLeast0LessThan)
  finally show ?thesis .
qed

lemma sum_ranks: "(\<Sum>i < n. real i + 1) = real n * (real n + 1) / 2"
  by (induction n) (auto simp: field_simps)

lemma weighted_sum_lower:
  assumes "sorted xs"
  shows "(real (length xs) + 1) / 2 * sum_list xs \<le> (\<Sum>i < length xs. (real i + 1) * xs ! i)"
proof (cases "xs = []")
  case False
  let ?n = "length xs"
  have "real ?n * (\<Sum>k = 0..<?n. (real k + 1) * (- xs ! k)) \<le> (\<Sum>k = 0..<?n. real k + 1) * (\<Sum>k = 0..<?n. - xs ! k)"
    by (rule Chebyshev_sum_upper) (use assms in \<open>auto intro: sorted_nth_mono\<close>)
  then have "(\<Sum>k = 0..<?n. real k + 1) * (\<Sum>k = 0..<?n. xs ! k) \<le> real ?n * (\<Sum>k = 0..<?n. (real k + 1) * xs ! k)"
    by (simp only: sum_negf mult_minus_right neg_le_iff_le)
  then have "real ?n * ((real ?n + 1) / 2 * sum_list xs) \<le> real ?n * (\<Sum>i < ?n. (real i + 1) * xs ! i)"
    unfolding atLeast0LessThan sum_ranks sum_list_sum_nth by (simp add: mult.assoc)
  with False show ?thesis by (simp add: mult_le_cancel_left_pos)
qed simp

lemma weighted_sum_const: "(\<Sum>i < n. (real i + 1) * replicate n x ! i) = x * (real n * (real n + 1) / 2)"
proof -
  have "(\<Sum>i < n. (real i + 1) * replicate n x ! i) = (\<Sum>i < n. real i + 1) * x"
    by (simp add: sum_distrib_right)
  then show ?thesis by (simp add: sum_ranks)
qed

lemma gini_range: "0 \<le> gini vs \<and> gini vs \<le> 1"
proof -
  define xs where "xs = sort (filter (\<lambda>v. v \<ge> 0) vs)"
  let ?n = "real (length xs)" and ?s = "sum_list xs" and ?cum = "\<Sum>i < length xs. (real i + 1) * xs ! i"
  have nn: "\<forall>x \<in> set xs. 0 \<le> x" and so: "sorted xs" by (auto simp: xs_def)
  have g: "gini vs = (if xs = [] \<or> ?s = 0 then 0 else py_round 3 ((2 * ?cum) / (?n * ?s) - (?n + 1) / ?n))"
    by (simp add: gini_def Let_def flip: xs_def)
  show ?thesis
  proof (cases "xs = [] \<or> ?s = 0")
    case False
    then have n: "0 < ?n" by simp
    have "0 \<le> ?s" using nn by (intro sum_list_nonneg) auto
    with False have s: "0 < ?s" by linarith
    have "(?n + 1) * ?s \<le> 2 * ?cum" using weighted_sum_lower [OF so] by simp
    then have "((?n + 1) * ?s) / (?n * ?s) \<le> (2 * ?cum) / (?n * ?s)"
      using n s by (intro divide_right_mono) simp_all
    then have "(?n + 1) / ?n \<le> (2 * ?cum) / (?n * ?s)" using s by simp
    moreover have "?cum \<le> ?n * ?s" by (rule weighted_sum_upper [OF nn])
    then have "(2 * ?cum) / (?n * ?s) \<le> 2" using n s by (simp add: divide_le_eq)
    moreover have "1 \<le> (?n + 1) / ?n" using n by simp
    ultimately have "0 \<le> (2 * ?cum) / (?n * ?s) - (?n + 1) / ?n" "(2 * ?cum) / (?n * ?s) - (?n + 1) / ?n \<le> 1"
      by linarith+
    then show ?thesis unfolding g using False by (simp add: py_round_nonneg py_round_le_1)
  qed (simp add: g)
qed

lemma gini_even: "gini (replicate k x) = 0"
proof (cases "0 \<le> x")
  case True
  then have sort: "sort (filter (\<lambda>v. v \<ge> 0) (replicate k x)) = replicate k x" by (simp add: sorted_sort_id)
  show ?thesis
  proof (cases "k = 0 \<or> x = 0")
    case False
    then have "2 * (x * (real k * (real k + 1) / 2)) / (real k * (real k * x)) - (real k + 1) / real k = 0"
      by (simp add: field_simps)
    then show ?thesis
      unfolding gini_def sort Let_def length_replicate weighted_sum_const sum_list_replicate by simp
  next
    case True
    then have "replicate k x = [] \<or> sum_list (replicate k x) = 0" by (auto simp: sum_list_replicate)
    then show ?thesis unfolding gini_def sort Let_def by simp
  qed
qed (simp add: gini_def filter_replicate)

text \<open>The fairness index is an index: between 0 and 1 whatever the stalls, and 0 when
  every workload of the namespace stalls equally.\<close>

theorem gini_bounds:
  "0 \<le> gini vs \<and> gini vs \<le> 1 \<and> gini (replicate k x) = 0"
  by (simp add: gini_range gini_even)

section \<open>The report\<close>

text \<open>The report leaves no workload out: with Prometheus up, its cards are exactly the
  right-sizing cards of every namespace and workload that any of the six queries mentions, for
  CPU and memory, those at risk first and each group by decreasing p95; it is marked
  unavailable exactly when all six answers are empty.\<close>

theorem recommendations_complete:
  fixes prom :: "metric_query \<Rightarrow> prom_reply option"
  defines "maps \<equiv> \<lambda>q. prom_map (prom q)" and "used \<equiv> [CpuReq, CpuLim, CpuP95, MemReq, MemLim, MemP95]"
    and "cards \<equiv> fst (recommendations prom)"
  shows "(snd (snd (recommendations prom)) = Unavailable \<longleftrightarrow> list_all (\<lambda>q. maps q = []) used) \<and>
    sorted_wrt (\<lambda>c d. card_order c \<le> card_order d) cards \<and>
    set cards = {c. \<exists>ns wl. (ns, wl) \<in> (\<Union>q \<in> set used. fst ` set (maps q)) \<and>
      (rightsize ns wl (map_of (maps CpuReq) (ns, wl)) (map_of (maps CpuLim) (ns, wl)) (map_of (maps CpuP95) (ns, wl)) Cpu = Some c \<or>
       rightsize ns wl (map_of (maps MemReq) (ns, wl)) (map_of (maps MemLim) (ns, wl)) (map_of (maps MemP95) (ns, wl)) Mem = Some c)}"
proof -
  have keys: "set (all_keys (map maps used)) = (\<Union>q \<in> set used. fst ` set (maps q))"
    by (simp add: all_keys_def)
  have mf: "set (List.map_filter f xs) = {y. \<exists>x \<in> set xs. f x = Some y}" for f :: "'a \<Rightarrow> card option" and xs
    by (force simp: List.map_filter_def)
  have one: "c \<in> set (cards_for maps k) \<longleftrightarrow>
      rightsize (fst k) (snd k) (map_of (maps CpuReq) k) (map_of (maps CpuLim) k) (map_of (maps CpuP95) k) Cpu = Some c \<or>
      rightsize (fst k) (snd k) (map_of (maps MemReq) k) (map_of (maps MemLim) k) (map_of (maps MemP95) k) Mem = Some c" for c k
    unfolding cards_for_def mf by auto
  have sorted: "sorted_wrt (\<lambda>c d. card_order c \<le> card_order d) (sort_key card_order cs)" for cs
    using sorted_sort_key [of card_order cs] by (simp add: sorted_wrt_map)
  show ?thesis
  proof (cases "list_all (\<lambda>q. maps q = []) used")
    case True
    then have "recommendations prom = ([], [], Unavailable)"
      by (simp add: recommendations_def Let_def maps_def used_def)
    moreover have "(\<Union>q \<in> set used. fst ` set (maps q)) = {}" using True by (auto simp: list_all_iff)
    ultimately show ?thesis using True by (simp add: cards_def)
  next
    case False
    then have r: "recommendations prom = (sort_key card_order (concat (map (cards_for maps) (all_keys (map maps used)))),
        fairness (merge_sums (map maps [StallIo, StallCpu, StallMem])), Prometheus)"
      by (auto simp: recommendations_def Let_def maps_def used_def)
    have "set cards = (\<Union>k \<in> set (all_keys (map maps used)). set (cards_for maps k))"
      by (simp add: cards_def r)
    also have "\<dots> = {c. \<exists>ns wl. (ns, wl) \<in> (\<Union>q \<in> set used. fst ` set (maps q)) \<and>
      (rightsize ns wl (map_of (maps CpuReq) (ns, wl)) (map_of (maps CpuLim) (ns, wl)) (map_of (maps CpuP95) (ns, wl)) Cpu = Some c \<or>
       rightsize ns wl (map_of (maps MemReq) (ns, wl)) (map_of (maps MemLim) (ns, wl)) (map_of (maps MemP95) (ns, wl)) Mem = Some c)}"
      unfolding keys set_eq_iff UN_iff one mem_Collect_eq split_paired_Ex Bex_def fst_conv snd_conv by (rule allI) (rule refl)
    finally show ?thesis using False sorted by (simp add: r cards_def)
  qed
qed

end
