(* ===== verification/Gateway.thy ===== *)
theory Gateway
  imports Service Gateway_Metrics "HOL-Library.Sublist"
begin

text \<open>
  \<open>api/main.py\<close>, the endpoints over the engine and the aggregator: the normalised graph, the operator
  narrative with its cache, the telemetry views, health, and the scenario console with its calls
  to the Kubernetes API.  What an upstream answers is an argument.  The language model is the
  parameter \<open>llm\<close>: the text it returns, given the resource word and the verdict its prompt is built
  from, or \<open>None\<close> on any failure.  Time stamps of the answers are left out.
\<close>

section \<open>The normalised graph\<close>

record shown_finding =
  sf_pod :: string
  sf_class :: shape
  sf_onset :: real
  sf_severity :: real

record warning =
  wn_pod :: string
  wn_class :: string
  wn_signal :: string
  wn_eta :: real
  wn_value :: int
  wn_limit :: int
  wn_headroom :: real

record gateway_graph =
  gg_root :: "ranked list"
  gg_edges :: "rendered_edge list"
  gg_blast :: "victim list"
  gg_findings :: "shown_finding list"
  gg_incipient :: "warning list"
  gg_signal :: "string option"
  gg_pods :: nat
  gg_case :: "case_info option"

text \<open>An edge keeps neither its floor, its hits nor its last sighting.\<close>

definition shown_edge :: "rendered_edge \<Rightarrow> rendered_edge" where
  "shown_edge e = e\<lparr>e_src := stable_workload (e_src e), e_dst := stable_workload (e_dst e),
     re_base_conf := None, re_hits := None, re_last_seen := None\<rparr>"

definition engine_graph :: "served \<Rightarrow> gateway_graph" where
  "engine_graph sv =
     (case sv of
        ErrorGraph e \<Rightarrow> \<lparr>gg_root = [], gg_edges = [], gg_blast = [], gg_findings = [], gg_incipient = [],
          gg_signal = None, gg_pods = 0, gg_case = None\<rparr>
      | Served m warn \<Rightarrow>
          \<lparr>gg_root = map (\<lambda>r. r\<lparr>rc_pod := stable_workload (rc_pod r)\<rparr>) (mg_ranking m),
           gg_edges = map shown_edge (mg_edges m),
           gg_blast = map (\<lambda>v. v\<lparr>v_pod := stable_workload (v_pod v)\<rparr>) (mg_blast m),
           gg_findings = map (\<lambda>f. \<lparr>sf_pod = stable_workload (f_pod f), sf_class = f_class f, sf_onset = f_onset f,
             sf_severity = f_severity f\<rparr>) (mg_findings m),
           gg_incipient = map (\<lambda>i. \<lparr>wn_pod = stable_workload (i_pod i), wn_class = i_class i, wn_signal = i_signal i,
             wn_eta = i_eta i, wn_value = i_value i, wn_limit = i_limit i, wn_headroom = i_headroom i\<rparr>) warn,
           gg_signal = mg_signal m, gg_pods = mg_pods m, gg_case = mg_case m\<rparr>)"

definition SERVICE_UNAVAILABLE :: exn where "SERVICE_UNAVAILABLE = HTTPException 503"

definition graph :: "served option \<Rightarrow> gateway_graph outcome" where
  "graph engine = (case engine of None \<Rightarrow> Raise SERVICE_UNAVAILABLE | Some sv \<Rightarrow> Ret (engine_graph sv))"

section \<open>The narrative\<close>

definition SIGNAL :: string where "SIGNAL = ''psi_io''"

definition signal_label :: "gateway_graph \<Rightarrow> string" where
  "signal_label g = (case gg_signal g of None \<Rightarrow> SIGNAL | Some s \<Rightarrow> s)"

definition register_text :: "register \<Rightarrow> string" where
  "register_text r = (case r of Recurrence \<Rightarrow> ''recurrence'' | Variant \<Rightarrow> ''variant'' | Novel \<Rightarrow> ''novel'')"

definition eta_text :: "gateway_graph \<Rightarrow> string \<Rightarrow> string" where
  "eta_text g victim =
     (case map_of (rev (map (\<lambda>v. (v_pod v, v_eta v)) (gg_blast g))) victim of
        None \<Rightarrow> ''''
      | Some eta \<Rightarrow> if eta = 0 then ''''
          else '', with impact on '' @ victim @ '' expected in ~'' @ show_int eta @ ''s'')"

definition case_text :: "gateway_graph \<Rightarrow> string" where
  "case_text g =
     (case gg_case g of None \<Rightarrow> ''''
      | Some info \<Rightarrow> if ci_register info \<in> {Recurrence, Variant}
          then '' (recognised as a '' @ register_text (ci_register info) @ '' of a known case)'' else '''')"

definition template_narrative :: "gateway_graph \<Rightarrow> string" where
  "template_narrative g =
     (if gg_root g = [] \<or> gg_edges g = []
      then ''Steady state: no causal contention detected across '' @ show_nat (gg_pods g) @ '' workloads.''
      else
        let cause = rc_pod (hd (gg_root g));
            leaving = filter (\<lambda>e. e_src e = cause) (gg_edges g);
            out = (if leaving = [] then gg_edges g else leaving);
            e = the (max_by (\<lambda>x. \<bar>e_r x\<bar>) out);
            ev = join_with '', '' (e_evidence e);
            ev = (if ev = '''' then ''correlation'' else ev)
        in cause @ '' is the likely root cause of '' @ signal_label g @ '' contention: its activity correlates with '' @
           e_dst e @ '' over '' @ ev @ eta_text g (e_dst e) @ case_text g @ ''.'')"

text \<open>The dash of the warning is U+2014, here as its three bytes.\<close>

definition incipient_text :: "warning list \<Rightarrow> string" where
  "incipient_text incip =
     (let f = the (min_by wn_eta incip)
      in ''Early warning: '' @ wn_pod f @ '' is trending toward its memory limit ('' @ fmt_mem (of_int (wn_value f)) @
         '' of '' @ fmt_mem (of_int (wn_limit f)) @ '') '' @ [CHR 0xE2, CHR 0x80, CHR 0x94] @
         '' projected OOM in ~'' @ show_int (py_int (wn_eta f)) @ ''s.'')"

text \<open>The key of the cache: root, sorted edges with their states, register of the case.\<close>

definition state_text :: "edge_state \<Rightarrow> string" where
  "state_text s = (case s of Active \<Rightarrow> ''active'' | Confirming \<Rightarrow> ''confirming'' | Steady \<Rightarrow> ''steady''
     | Decaying \<Rightarrow> ''decaying'' | Hidden \<Rightarrow> ''hidden'')"

record signature =
  sg_root :: "string option"
  sg_edges :: "(string \<times> string \<times> string option) list"
  sg_case :: "register option"

definition edge_entry :: "rendered_edge \<Rightarrow> string \<times> string \<times> string option" where
  "edge_entry e = (e_src e, e_dst e, map_option state_text (re_state e))"

text \<open>Sorting compares \<open>None\<close> with a string, which raises, exactly when two edges of one directed pair have
  one a state and the other none.\<close>

definition mixed_states :: "rendered_edge list \<Rightarrow> bool" where
  "mixed_states es \<longleftrightarrow> list_ex (\<lambda>e. list_ex (\<lambda>f. (e_src e, e_dst e) = (e_src f, e_dst f) \<and>
     re_state e = None \<and> re_state f \<noteq> None) es) es"

definition verdict_signature :: "gateway_graph \<Rightarrow> signature outcome" where
  "verdict_signature g =
     (if mixed_states (gg_edges g) then Raise (OtherError ''TypeError'')
      else Ret \<lparr>sg_root = (case gg_root g of [] \<Rightarrow> None | r # _ \<Rightarrow> Some (rc_pod r)),
        sg_edges = sort_key (\<lambda>(s, d, st). (s, d, case st of None \<Rightarrow> '''' | Some t \<Rightarrow> t)) (map edge_entry (gg_edges g)),
        sg_case = map_option ci_register (gg_case g)\<rparr>)"

datatype origin = Forecast | SteadyLine | Llm | Fallback

record verdict =
  vd_text :: string
  vd_source :: origin

type_synonym narrative_cache = "(signature \<times> verdict) list"

definition SIGNAL_RESOURCE :: "(string \<times> string) list" where
  "SIGNAL_RESOURCE = [(''psi_io'', ''disk I/O''), (''psi_cpu'', ''CPU''), (''psi_mem'', ''memory'')]"

definition resource_word :: "gateway_graph \<Rightarrow> string" where
  "resource_word g =
     (let root_pod = (case gg_root g of [] \<Rightarrow> None | r # _ \<Rightarrow> Some (rc_pod r));
          active_sig = (case find (\<lambda>e. Some (e_src e) = root_pod \<and> truthy (re_signal e)) (gg_edges g) of
            None \<Rightarrow> None | Some e \<Rightarrow> re_signal e);
          sig = (case active_sig of Some s \<Rightarrow> s | None \<Rightarrow> signal_label g)
      in (case map_of SIGNAL_RESOURCE sig of None \<Rightarrow> ''resource'' | Some r \<Rightarrow> r))"

text \<open>\<open>_ollama\<close>: the stripped answer, \<open>None\<close> when there is none.\<close>

definition ollama :: "(string \<Rightarrow> gateway_graph \<Rightarrow> string option) \<Rightarrow> string \<Rightarrow> gateway_graph \<Rightarrow> string option" where
  "ollama llm resource g =
     (case llm resource g of None \<Rightarrow> None | Some t \<Rightarrow> if strip t = '''' then None else Some (strip t))"

definition narrative ::
    "(string \<Rightarrow> gateway_graph \<Rightarrow> string option) \<Rightarrow> served option \<Rightarrow> narrative_cache \<Rightarrow>
       narrative_cache \<times> verdict outcome" where
  "narrative llm engine cache =
     (case graph engine of
        Raise e \<Rightarrow> (cache, Raise e) | Hang \<Rightarrow> (cache, Hang)
      | Ret g \<Rightarrow>
        if gg_root g = []
        then (cache, Ret (if gg_incipient g \<noteq> []
                          then \<lparr>vd_text = incipient_text (gg_incipient g), vd_source = Forecast\<rparr>
                          else \<lparr>vd_text = template_narrative g, vd_source = SteadyLine\<rparr>))
        else (case verdict_signature g of
            Raise e \<Rightarrow> (cache, Raise e) | Hang \<Rightarrow> (cache, Hang)
          | Ret sig \<Rightarrow>
            let fc = (if gg_incipient g = [] then '''' else '' '' @ incipient_text (gg_incipient g))
            in (case map_of cache sig of
                  Some c \<Rightarrow> (cache, Ret (c\<lparr>vd_text := vd_text c @ fc\<rparr>))
                | None \<Rightarrow>
                    let text = ollama llm (resource_word g) g;
                        out = (case text of
                          None \<Rightarrow> \<lparr>vd_text = template_narrative g, vd_source = Fallback\<rparr>
                        | Some t \<Rightarrow> \<lparr>vd_text = t, vd_source = Llm\<rparr>);
                        cache = (case text of None \<Rightarrow> cache | Some t \<Rightarrow> [(sig, out)])
                    in (cache, Ret (out\<lparr>vd_text := vd_text out @ fc\<rparr>)))))"

section \<open>Telemetry\<close>

record pod_level =
  pl_workload :: string
  pl_namespace :: string
  pl_signal :: string
  pl_value :: real
  pl_anomalous :: bool

definition pods_step ::
    "string list \<Rightarrow> string set \<Rightarrow> string \<times> sample list \<Rightarrow> (string \<times> pod_level) list outcome \<Rightarrow>
       (string \<times> pod_level) list outcome" where
  "pods_step signals flagged ks out =
     and_then out (\<lambda>out.
       let parts = split_on CHR ''/'' (fst ks)
       in if length parts < 3 \<or> last parts \<notin> set signals \<or> snd ks = [] then Ret out
          else (case sm_value (last (snd ks)) of
              None \<Rightarrow> Raise KeyError
            | Some val \<Rightarrow>
                let w = stable_workload (parts ! 1);
                    cur = (case map_of out w of Some c \<Rightarrow> c
                      | None \<Rightarrow> \<lparr>pl_workload = w, pl_namespace = parts ! 0, pl_signal = last parts, pl_value = 0, pl_anomalous = False\<rparr>);
                    cur = (if val \<ge> pl_value cur then cur\<lparr>pl_value := py_round 4 val, pl_signal := last parts\<rparr> else cur)
                in Ret (AList.update w (cur\<lparr>pl_anomalous := w \<in> flagged\<rparr>) out)))"

definition pods ::
    "string list \<Rightarrow> (string \<times> sample list) list option \<Rightarrow> served option \<Rightarrow> pod_level list outcome" where
  "pods signals window engine =
     (case window of
        None \<Rightarrow> Raise SERVICE_UNAVAILABLE
      | Some window \<Rightarrow>
          let flagged = (case engine of Some (Served m warn) \<Rightarrow> (\<lambda>f. stable_workload (f_pod f)) ` set (mg_findings m) | _ \<Rightarrow> {})
          in and_then (fold (pods_step signals flagged) window (Ret []))
               (\<lambda>out. Ret (sort_key (\<lambda>p. - pl_value p) (map snd out))))"

definition matches :: "string \<Rightarrow> string \<Rightarrow> string \<times> sample list \<Rightarrow> bool" where
  "matches pod sig ks \<longleftrightarrow>
     (let parts = split_on CHR ''/'' (fst ks)
      in length parts \<ge> 3 \<and> last parts = sig \<and> snd ks \<noteq> [] \<and> stable_workload (parts ! 1) = pod)"

fun all_points :: "sample list \<Rightarrow> (string \<times> real) list outcome" where
  "all_points [] = Ret []"
| "all_points (s # ss) =
     (case (sm_ts s, sm_value s) of
        (Some t, Some v) \<Rightarrow> and_then (all_points ss) (\<lambda>ps. Ret ((t, v) # ps))
      | _ \<Rightarrow> Raise KeyError)"

definition signal ::
    "string \<Rightarrow> string \<Rightarrow> (string \<times> sample list) list option \<Rightarrow> (string \<times> real) list outcome" where
  "signal pod sig window =
     (case window of
        None \<Rightarrow> Raise SERVICE_UNAVAILABLE
      | Some window \<Rightarrow> (case find (matches pod sig) window of
            None \<Rightarrow> Raise (HTTPException 404) | Some ks \<Rightarrow> all_points (snd ks)))"

definition events :: "event option list option \<Rightarrow> event option list outcome" where
  "events reply = (case reply of None \<Rightarrow> Raise SERVICE_UNAVAILABLE | Some es \<Rightarrow> Ret es)"

text \<open>\<open>/api/health\<close>: whether the aggregator and the engine answered, and both.\<close>

definition health :: "bool \<Rightarrow> bool \<Rightarrow> (string \<times> string) list \<times> bool" where
  "health aggregator engine =
     (let services = [(''aggregator'', if aggregator then ''up'' else ''down''),
                      (''engine'', if engine then ''up'' else ''down'')]
      in (services, list_all (\<lambda>(n, v). v = ''up'') services))"

record scenario =
  sc_id :: string
  sc_triggerable :: bool

definition SCENARIOS :: "scenario list" where
  "SCENARIOS = map (\<lambda>(i, t). \<lparr>sc_id = i, sc_triggerable = t\<rparr>)
     [(''S0'', False), (''S1'', True), (''S2'', True), (''S3'', False), (''S4'', False), (''S5'', True)]"

section \<open>The scenario console\<close>

text \<open>The API server and the cooling service answer each call, knowing all calls so far.  The payload
  that matters is the job template of a CronJob, if the answer has one.\<close>

datatype api_call = ApiDelete string | ApiGet string | ApiPost string string | ApiPatch string string | HttpPost string

datatype api_reply = Reply "string option" | HttpError nat | NoReply

datatype 'a answer = Done 'a | Http nat | Broke

type_synonym 'a console = "api_call list \<Rightarrow> api_call list \<times> 'a answer"

definition call :: "(api_call list \<Rightarrow> api_reply) \<Rightarrow> api_call \<Rightarrow> string option console" where
  "call api c trc =
     (let trc = trc @ [c]
      in (trc, case api trc of Reply p \<Rightarrow> Done p | HttpError code \<Rightarrow> Http code | NoReply \<Rightarrow> Broke))"

definition andthen :: "'a console \<Rightarrow> ('a \<Rightarrow> 'b console) \<Rightarrow> 'b console" where
  "andthen m f trc =
     (case m trc of (trc, Done a) \<Rightarrow> f a trc | (trc, Http code) \<Rightarrow> (trc, Http code) | (trc, Broke) \<Rightarrow> (trc, Broke))"

text \<open>\<open>except HTTPError as e: if e.code != 404: raise\<close>.\<close>

definition unless_404 :: "'a console \<Rightarrow> unit console" where
  "unless_404 m trc =
     (case m trc of (trc, Done a) \<Rightarrow> (trc, Done ())
      | (trc, Http code) \<Rightarrow> (trc, if code = 404 then Done () else Http code) | (trc, Broke) \<Rightarrow> (trc, Broke))"

definition JOB :: string where "JOB = ''/apis/batch/v1/namespaces/factory-data/jobs/log-archiver-s2''"
definition DELETE_JOB :: string where "DELETE_JOB = JOB @ ''?propagationPolicy=Background''"
definition CRONJOB :: string where "CRONJOB = ''/apis/batch/v1/namespaces/factory-data/cronjobs/log-archiver''"
definition JOBS :: string where "JOBS = ''/apis/batch/v1/namespaces/factory-data/jobs''"
definition VISION_QC :: string where "VISION_QC = ''/apis/apps/v1/namespaces/factory-edge/deployments/vision-qc''"
definition FLUSH :: string where "FLUSH = ''/flush''"

fun await_gone :: "(api_call list \<Rightarrow> api_reply) \<Rightarrow> nat \<Rightarrow> unit console" where
  "await_gone api 0 trc = (trc, Done ())"
| "await_gone api (Suc n) trc =
     (case call api (ApiGet JOB) trc of
        (trc, Done p) \<Rightarrow> await_gone api n trc
      | (trc, Http code) \<Rightarrow> (trc, if code = 404 then Done () else Http code)
      | (trc, Broke) \<Rightarrow> (trc, Broke))"

definition trigger_s2 :: "(api_call list \<Rightarrow> api_reply) \<Rightarrow> unit console" where
  "trigger_s2 api =
     andthen (unless_404 (call api (ApiDelete DELETE_JOB))) (\<lambda>_.
     andthen (await_gone api 20) (\<lambda>_.
     andthen (call api (ApiGet CRONJOB)) (\<lambda>cj.
       (case cj of None \<Rightarrow> (\<lambda>trc. (trc, Broke))
        | Some spec \<Rightarrow> andthen (call api (ApiPost JOBS spec)) (\<lambda>_ trc. (trc, Done ()))))))"

definition leak :: "(api_call list \<Rightarrow> api_reply) \<Rightarrow> string \<Rightarrow> unit console" where
  "leak api value = andthen (call api (ApiPatch VISION_QC value)) (\<lambda>_ trc. (trc, Done ()))"

definition trigger :: "(api_call list \<Rightarrow> api_reply) \<Rightarrow> string \<Rightarrow> api_call list \<times> (string \<times> string) outcome" where
  "trigger api sid =
     (let sid = upper sid;
          fire = (\<lambda>m :: unit console. \<lambda>status. (case m [] of
            (trc, Done _) \<Rightarrow> (trc, Ret (sid, status))
          | (trc, Http code) \<Rightarrow> (trc, Raise (HTTPException code))
          | (trc, Broke) \<Rightarrow> (trc, Raise (HTTPException 503))))
      in if sid = ''S1'' then fire (andthen (call api (HttpPost FLUSH)) (\<lambda>_ trc. (trc, Done ()))) ''armed''
         else if sid = ''S2'' then fire (trigger_s2 api) ''fired''
         else if sid = ''S5'' then fire (leak api ''true'') ''fired''
         else ([], Raise (HTTPException 501)))"

definition reset_scenario :: "(api_call list \<Rightarrow> api_reply) \<Rightarrow> string \<Rightarrow> api_call list \<times> (string \<times> string) outcome" where
  "reset_scenario api sid =
     (let sid = upper sid;
          undo = (\<lambda>m :: unit console. (case m [] of
            (trc, Done _) \<Rightarrow> (trc, Ret (sid, ''reset''))
          | (trc, Http code) \<Rightarrow> (trc, Raise (HTTPException code))
          | (trc, Broke) \<Rightarrow> (trc, Raise (OtherError ''urlopen''))))
      in if sid = ''S2'' then undo (unless_404 (call api (ApiDelete DELETE_JOB)))
         else if sid = ''S5'' then undo (leak api ''false'')
         else if sid = ''S1'' then ([], Ret (sid, ''self-clears via recency gate''))
         else ([], Raise (HTTPException 501)))"

lemmas console_simps = call_def andthen_def unless_404_def leak_def Let_def

section \<open>The narrative never depends on the model\<close>

text \<open>The cache holds at most one verdict, and only rendered by the model.\<close>

definition cache_ok :: "narrative_cache \<Rightarrow> bool" where
  "cache_ok cache \<longleftrightarrow> length cache \<le> 1 \<and> list_all (\<lambda>(sig, v). vd_source v = Llm \<and> vd_text v \<noteq> '''') cache"

lemma cache_okD: "cache_ok cache \<Longrightarrow> map_of cache sig = Some v \<Longrightarrow> vd_source v = Llm \<and> vd_text v \<noteq> ''''"
  by (auto simp: cache_ok_def list_all_iff dest!: map_of_SomeD)

lemma template_not_Nil [simp]: "template_narrative g \<noteq> ''''"
  by (simp add: template_narrative_def Let_def)

lemma incipient_text_not_Nil [simp]: "incipient_text incip \<noteq> ''''"
  by (simp add: incipient_text_def Let_def)

lemma ollama_not_Nil: "ollama llm r g = Some t \<Longrightarrow> t \<noteq> ''''"
  by (auto simp: ollama_def split: option.splits if_splits)



section \<open>What a trigger does to the cluster\<close>

text \<open>The console touches the cluster exactly for the scenarios the catalogue calls
  triggerable; any other identifier is answered 501 without a call, and no failure escapes as
  anything but an HTTP error.\<close>

theorem trigger_matches_catalogue:
  "(fst (trigger api sid) \<noteq> [] \<longleftrightarrow> list_ex (\<lambda>s. sc_id s = upper sid \<and> sc_triggerable s) SCENARIOS) \<and>
   (case snd (trigger api sid) of Ret (i, status) \<Rightarrow> i = upper sid | Raise (HTTPException code) \<Rightarrow> True | _ \<Rightarrow> False) \<and>
   (if fst (trigger api sid) = [] then snd (trigger api sid) = Raise (HTTPException 501) else True)"
proof -
  have trc: "fst (await_gone api n trc) \<noteq> []" if "trc \<noteq> []" for n trc
    using that by (induction n arbitrary: trc) (auto simp: call_def Let_def split: api_reply.split)
  have s2: "fst (trigger_s2 api []) \<noteq> []"
    using trc [of "[ApiDelete DELETE_JOB]" 20]
    by (auto simp: trigger_s2_def console_simps split: api_reply.split answer.splits prod.splits option.splits)
  have cat: "list_ex (\<lambda>s. sc_id s = upper sid \<and> sc_triggerable s) SCENARIOS \<longleftrightarrow> upper sid \<in> {''S1'', ''S2'', ''S5''}"
    by (auto simp: SCENARIOS_def)
  show ?thesis
    unfolding cat using s2
    by (auto simp: trigger_def console_simps split: answer.splits prod.splits api_reply.splits)
qed

text \<open>What the answer to a call was, given the trc up to it.\<close>

definition old_job_settled :: "(api_call list \<Rightarrow> api_reply) \<Rightarrow> nat \<Rightarrow> bool" where
  "old_job_settled api n \<longleftrightarrow>
     (n = 20 \<and> (\<exists>p. api (ApiDelete DELETE_JOB # replicate 20 (ApiGet JOB)) = Reply p)) \<or>
     api (ApiDelete DELETE_JOB # replicate n (ApiGet JOB)) = HttpError 404"

lemma await_gone_trace:
  assumes "await_gone api n (c # replicate k (ApiGet JOB)) = (trc, res)" and "0 < n"
  shows "\<exists>j. 1 \<le> j \<and> j \<le> n \<and> trc = c # replicate (k + j) (ApiGet JOB) \<and>
    (case res of Done _ \<Rightarrow> (j = n \<and> (\<exists>p. api trc = Reply p)) \<or> api trc = HttpError 404
     | Http code \<Rightarrow> code \<noteq> 404 \<and> api trc = HttpError code | Broke \<Rightarrow> api trc = NoReply)"
  using assms
proof (induction n arbitrary: k)
  case (Suc n)
  let ?trc = "c # replicate (k + 1) (ApiGet JOB)"
  have call: "call api (ApiGet JOB) (c # replicate k (ApiGet JOB)) =
      (?trc, case api ?trc of Reply p \<Rightarrow> Done p | HttpError code \<Rightarrow> Http code | NoReply \<Rightarrow> Broke)"
    by (simp add: call_def Let_def replicate_append_same)
  show ?case
  proof (cases "api ?trc")
    case (Reply p)
    show ?thesis
    proof (cases n)
      case 0
      with Suc.prems Reply call show ?thesis by (intro exI [of _ 1]) auto
    next
      case (Suc m)
      from Suc.prems(1) Reply call have "await_gone api n ?trc = (trc, res)" by simp
      from Suc.IH [OF this] Suc obtain j where "1 \<le> j" "j \<le> n" "trc = c # replicate (k + 1 + j) (ApiGet JOB)"
        "case res of Done _ \<Rightarrow> (j = n \<and> (\<exists>p. api trc = Reply p)) \<or> api trc = HttpError 404
         | Http code \<Rightarrow> code \<noteq> 404 \<and> api trc = HttpError code | Broke \<Rightarrow> api trc = NoReply" by auto
      then show ?thesis by (intro exI [of _ "j + 1"]) (auto split: answer.splits)
    qed
  next
    case (HttpError code)
    with Suc.prems call show ?thesis by (intro exI [of _ 1]) (auto split: if_splits)
  next
    case NoReply
    with Suc.prems call show ?thesis by (intro exI [of _ 1]) auto
  qed
qed simp

text \<open>The answer to \<open>S2\<close>, with the calls it made: the old Job is deleted and polled away before the
  CronJob is read and its template posted.\<close>

definition s2_order :: "(api_call list \<Rightarrow> api_reply) \<Rightarrow> nat \<Rightarrow> string \<Rightarrow> api_call list \<Rightarrow> bool \<Rightarrow> bool" where
  "s2_order api n spec trc fired \<longleftrightarrow>
     n \<le> 20 \<and> prefix trc (ApiDelete DELETE_JOB # replicate n (ApiGet JOB) @ [ApiGet CRONJOB, ApiPost JOBS spec]) \<and>
     (if ApiPost JOBS spec \<in> set trc
      then 1 \<le> n \<and> old_job_settled api n \<and>
        api (ApiDelete DELETE_JOB # replicate n (ApiGet JOB) @ [ApiGet CRONJOB]) = Reply (Some spec) \<and>
        (fired \<longleftrightarrow> (\<exists>p. api trc = Reply p))
      else \<not> fired)"

lemma s2_order_stopped:
  "n \<le> 20 \<Longrightarrow> trc = ApiDelete DELETE_JOB # replicate n (ApiGet JOB) \<Longrightarrow> s2_order api n spec trc False"
  by (auto simp: s2_order_def)

lemma s2_post:
  assumes "1 \<le> n" "n \<le> 20" "old_job_settled api n" "trc1 = ApiDelete DELETE_JOB # replicate n (ApiGet JOB)"
    and run: "andthen (call api (ApiGet CRONJOB)) (\<lambda>cj.
       (case cj of None \<Rightarrow> (\<lambda>trc. (trc, Broke))
        | Some spec \<Rightarrow> andthen (call api (ApiPost JOBS spec)) (\<lambda>_ trc. (trc, Done ())))) trc1 = (trc, res)"
  shows "\<exists>spec. s2_order api n spec trc (res = Done ())"
proof -
  let ?cron = "trc1 @ [ApiGet CRONJOB]"
  show ?thesis
  proof (cases "\<exists>spec. api ?cron = Reply (Some spec)")
    case True
    then obtain spec where spec: "api ?cron = Reply (Some spec)" by blast
    let ?post = "?cron @ [ApiPost JOBS spec]"
    have "trc = ?post" "res = Done () \<longleftrightarrow> (\<exists>p. api ?post = Reply p)"
      using run spec by (auto simp: andthen_def call_def Let_def split: api_reply.splits)
    then have "s2_order api n spec trc (res = Done ())" using assms(1-4) spec by (simp add: s2_order_def)
    then show ?thesis by blast
  next
    case False
    then have "trc = ?cron" "res \<noteq> Done ()"
      using run by (auto simp: andthen_def call_def Let_def split: api_reply.splits option.splits)
    then have "s2_order api n spec trc (res = Done ())" for spec using assms(2,4) by (auto simp: s2_order_def)
    then show ?thesis by blast
  qed
qed

lemma trigger_s2_order_aux:
  assumes "trigger_s2 api [] = (trc, res)"
  shows "\<exists>n spec. s2_order api n spec trc (res = Done ())"
proof -
  let ?d = "[ApiDelete DELETE_JOB]"
  obtain trc0 res0 where first: "unless_404 (call api (ApiDelete DELETE_JOB)) [] = (trc0, res0)" by fastforce
  then have trc0: "trc0 = ?d" by (auto simp: console_simps split: api_reply.splits)
  show ?thesis
  proof (cases "res0 = Done ()")
    case True
    obtain trc1 res1 where polls: "await_gone api 20 ?d = (trc1, res1)" by fastforce
    then obtain n where n: "1 \<le> n" "n \<le> 20" "trc1 = ApiDelete DELETE_JOB # replicate n (ApiGet JOB)"
      and settled: "case res1 of Done _ \<Rightarrow> (n = 20 \<and> (\<exists>p. api trc1 = Reply p)) \<or> api trc1 = HttpError 404
        | Http code \<Rightarrow> code \<noteq> 404 \<and> api trc1 = HttpError code | Broke \<Rightarrow> api trc1 = NoReply"
      using await_gone_trace [of api 20 "ApiDelete DELETE_JOB" 0 trc1 res1] by auto
    show ?thesis
    proof (cases "res1 = Done ()")
      case gone: True
      then have "old_job_settled api n" using settled n by (auto simp: old_job_settled_def)
      with s2_post [OF n(1,2) _ n(3), of api trc res] assms first trc0 True polls gone show ?thesis
        by (auto simp: trigger_s2_def andthen_def)
    next
      case False
      with assms first trc0 True polls have "trc = trc1" "res \<noteq> Done ()"
        by (auto simp: trigger_s2_def andthen_def split: answer.splits)
      with n s2_order_stopped [of n trc api] show ?thesis by auto
    qed
  next
    case False
    with assms first trc0 have "trc = ?d" "res \<noteq> Done ()" by (auto simp: trigger_s2_def andthen_def split: answer.splits)
    with s2_order_stopped [of 0 trc api] show ?thesis by auto
  qed
qed

text \<open>C33 (safety).  Firing S2 never races the old Job: the calls are a prefix of delete, at most twenty polls,
  the CronJob, the post; the post carries exactly the CronJob's template and is reached only when the
  old Job was seen gone or all twenty polls still saw it; the scenario is reported fired exactly when
  the post was answered.\<close>

theorem trigger_s2_order:
  assumes "upper sid = ''S2''"
  shows "\<exists>n spec. s2_order api n spec (fst (trigger api sid)) (snd (trigger api sid) = Ret (''S2'', ''fired''))"
proof -
  obtain trc res where run: "trigger_s2 api [] = (trc, res)" by fastforce
  have "fst (trigger api sid) = trc" "snd (trigger api sid) = Ret (''S2'', ''fired'') \<longleftrightarrow> res = Done ()"
    using assms run by (auto simp: trigger_def Let_def split: answer.split)
  with trigger_s2_order_aux [OF run] show ?thesis by simp
qed

theorem trigger_s2_order_witness:
  "\<exists>n spec. s2_order (\<lambda>trc. if last trc = ApiGet JOB then HttpError 404 else Reply (Some ''job'')) n spec
     (fst (trigger (\<lambda>trc. if last trc = ApiGet JOB then HttpError 404 else Reply (Some ''job'')) ''s2''))
     (snd (trigger (\<lambda>trc. if last trc = ApiGet JOB then HttpError 404 else Reply (Some ''job'')) ''s2'')
        = Ret (''S2'', ''fired''))"
  by (rule trigger_s2_order) code_simp

end
