(* ===== verification/Gateway_Threads.thy ===== *)
theory Gateway_Threads
  imports Gateway
begin

text \<open>
  The narrative endpoint of \<open>api/main.py\<close> under concurrent requests.  FastAPI runs the handlers in a pool of
  threads and \<open>_NARR_CACHE\<close> is a plain dictionary without a lock; one operation on it is atomic, what
  happens between two is not.  A handler is a state machine whose steps are those operations, and the gateway
  interleaves any number of them.
\<close>

text \<open>A handler by what it does next: look the signature up, index the dictionary, ask the model, clear the
  dictionary, store the new text; or it has answered.\<close>

datatype stage = Arrived | Hit gateway_graph signature | Missed gateway_graph signature
  | Rendered gateway_graph signature string | Cleared gateway_graph signature string
  | Answered "verdict outcome"

definition forecast_tail :: "gateway_graph \<Rightarrow> string" where
  "forecast_tail g = (if gg_incipient g = [] then '''' else '' '' @ incipient_text (gg_incipient g))"

definition rootless_verdict :: "gateway_graph \<Rightarrow> verdict" where
  "rootless_verdict g =
     (if gg_incipient g \<noteq> [] then \<lparr>vd_text = incipient_text (gg_incipient g), vd_source = Forecast\<rparr>
      else \<lparr>vd_text = template_narrative g, vd_source = SteadyLine\<rparr>)"

fun handler_step ::
    "(string \<Rightarrow> gateway_graph \<Rightarrow> string option) \<Rightarrow> served option \<Rightarrow> narrative_cache \<Rightarrow> stage \<Rightarrow>
       narrative_cache \<times> stage" where
  "handler_step llm engine cache Arrived =
     (cache,
      case graph engine of
        Raise e \<Rightarrow> Answered (Raise e) | Hang \<Rightarrow> Answered Hang
      | Ret g \<Rightarrow>
        if gg_root g = [] then Answered (Ret (rootless_verdict g))
        else (case verdict_signature g of
            Raise e \<Rightarrow> Answered (Raise e) | Hang \<Rightarrow> Answered Hang
          | Ret sig \<Rightarrow> if sig \<in> fst ` set cache then Hit g sig else Missed g sig))"
| "handler_step llm engine cache (Hit g sig) =
     (cache, Answered (case map_of cache sig of
        Some c \<Rightarrow> Ret (c\<lparr>vd_text := vd_text c @ forecast_tail g\<rparr>) | None \<Rightarrow> Raise KeyError))"
| "handler_step llm engine cache (Missed g sig) =
     (cache, case ollama llm (resource_word g) g of
        Some t \<Rightarrow> Rendered g sig t
      | None \<Rightarrow> Answered (Ret \<lparr>vd_text = template_narrative g @ forecast_tail g, vd_source = Fallback\<rparr>))"
| "handler_step llm engine cache (Rendered g sig t) = ([], Cleared g sig t)"
| "handler_step llm engine cache (Cleared g sig t) =
     (AList.update sig \<lparr>vd_text = t, vd_source = Llm\<rparr> cache,
      Answered (Ret \<lparr>vd_text = t @ forecast_tail g, vd_source = Llm\<rparr>))"
| "handler_step llm engine cache (Answered r) = (cache, Answered r)"

text \<open>The gateway: the dictionary, the handlers of all requests so far, each with what the engine told it, and,
  for the statements only, what the model has rendered so far.  The model may say something else at every
  call.\<close>

record gateway =
  gw_cache :: narrative_cache
  gw_handlers :: "(served option \<times> stage) list"
  gw_renders :: "(signature \<times> string) set"

definition gateway_start :: gateway where
  "gateway_start = \<lparr>gw_cache = [], gw_handlers = [], gw_renders = {}\<rparr>"

definition request :: "served option \<Rightarrow> gateway \<Rightarrow> gateway" where
  "request engine gw = gw\<lparr>gw_handlers := gw_handlers gw @ [(engine, Arrived)]\<rparr>"

definition schedule :: "(string \<Rightarrow> gateway_graph \<Rightarrow> string option) \<Rightarrow> nat \<Rightarrow> gateway \<Rightarrow> gateway" where
  "schedule llm i gw =
     (let (engine, stage) = gw_handlers gw ! i; (cache, stage') = handler_step llm engine (gw_cache gw) stage
      in \<lparr>gw_cache = cache, gw_handlers = (gw_handlers gw)[i := (engine, stage')],
          gw_renders = (case stage' of Rendered g sig t \<Rightarrow> insert (sig, t) (gw_renders gw) | _ \<Rightarrow> gw_renders gw)\<rparr>)"

inductive gateway_run :: "gateway \<Rightarrow> bool" where
  starts: "gateway_run gateway_start"
| requested: "gateway_run gw \<Longrightarrow> gateway_run (request engine gw)"
| scheduled: "gateway_run gw \<Longrightarrow> i < length (gw_handlers gw) \<Longrightarrow> gateway_run (schedule llm i gw)"

section \<open>One request alone\<close>

text \<open>A handler that is not disturbed behaves as the sequential model of the endpoint.\<close>

definition run_alone ::
    "(string \<Rightarrow> gateway_graph \<Rightarrow> string option) \<Rightarrow> served option \<Rightarrow> narrative_cache \<Rightarrow> narrative_cache \<times> stage" where
  "run_alone llm engine cache = ((\<lambda>(c, s). handler_step llm engine c s) ^^ 4) (cache, Arrived)"

lemma map_of_None_keys: "map_of al k = None \<longleftrightarrow> k \<notin> fst ` set al"
  by (rule map_of_eq_None_iff)

lemma run_alone_narrative:
  "run_alone llm engine cache =
     (fst (narrative llm engine cache), Answered (snd (narrative llm engine cache)))"
proof (cases "graph engine")
  case (Ret g)
  note g = this
  show ?thesis
  proof (cases "gg_root g = []")
    case True
    with g show ?thesis
      by (simp add: run_alone_def numeral_eq_Suc narrative_def rootless_verdict_def)
  next
    case False
    show ?thesis
    proof (cases "verdict_signature g")
      case (Ret sig)
      note sig = this
      show ?thesis
      proof (cases "map_of cache sig")
        case None
        then have "sig \<notin> fst ` set cache" by (simp add: map_of_None_keys)
        with g False sig None show ?thesis
          by (cases "ollama llm (resource_word g) g")
            (simp_all add: run_alone_def numeral_eq_Suc narrative_def forecast_tail_def Let_def)
      next
        case (Some c)
        then have "sig \<in> fst ` set cache" using map_of_None_keys [of cache sig] by auto
        with g False sig Some show ?thesis
          by (simp add: run_alone_def numeral_eq_Suc narrative_def forecast_tail_def Let_def)
      qed
    qed (use g False in \<open>simp_all add: run_alone_def numeral_eq_Suc narrative_def\<close>)
  qed
qed (simp_all add: run_alone_def numeral_eq_Suc narrative_def)


section \<open>All requests together\<close>

text \<open>A verdict with a cause, as the handler sees it.\<close>

definition incident :: "served option \<Rightarrow> gateway_graph \<Rightarrow> signature \<Rightarrow> bool" where
  "incident engine g sig \<longleftrightarrow> graph engine = Ret g \<and> gg_root g \<noteq> [] \<and> verdict_signature g = Ret sig"

text \<open>The answers a request may get: the failure of the engine or of the signature, the deterministic lines, a
  text the model rendered for this very verdict, and an index error.\<close>

definition fair_answer :: "(signature \<times> string) set \<Rightarrow> served option \<Rightarrow> verdict outcome \<Rightarrow> bool" where
  "fair_answer renders engine r \<longleftrightarrow>
     (case graph engine of
        Raise e \<Rightarrow> r = Raise e | Hang \<Rightarrow> r = Hang
      | Ret g \<Rightarrow>
        if gg_root g = [] then r = Ret (rootless_verdict g)
        else (case verdict_signature g of
            Raise e \<Rightarrow> r = Raise e | Hang \<Rightarrow> r = Hang
          | Ret sig \<Rightarrow>
              r = Ret \<lparr>vd_text = template_narrative g @ forecast_tail g, vd_source = Fallback\<rparr> \<or>
              (\<exists>t. (sig, t) \<in> renders \<and> r = Ret \<lparr>vd_text = t @ forecast_tail g, vd_source = Llm\<rparr>) \<or>
              r = Raise KeyError))"

lemma fair_answer_incident:
  "incident engine g sig \<Longrightarrow> fair_answer renders engine r \<longleftrightarrow>
     r = Ret \<lparr>vd_text = template_narrative g @ forecast_tail g, vd_source = Fallback\<rparr> \<or>
     (\<exists>t. (sig, t) \<in> renders \<and> r = Ret \<lparr>vd_text = t @ forecast_tail g, vd_source = Llm\<rparr>) \<or> r = Raise KeyError"
  by (simp add: incident_def fair_answer_def)

fun stage_ok :: "(signature \<times> string) set \<Rightarrow> served option \<Rightarrow> stage \<Rightarrow> bool" where
  "stage_ok renders engine Arrived \<longleftrightarrow> True"
| "stage_ok renders engine (Hit g sig) \<longleftrightarrow> incident engine g sig"
| "stage_ok renders engine (Missed g sig) \<longleftrightarrow> incident engine g sig"
| "stage_ok renders engine (Rendered g sig t) \<longleftrightarrow> incident engine g sig \<and> (sig, t) \<in> renders"
| "stage_ok renders engine (Cleared g sig t) \<longleftrightarrow> incident engine g sig \<and> (sig, t) \<in> renders"
| "stage_ok renders engine (Answered r) \<longleftrightarrow> fair_answer renders engine r"

definition cached_ok :: "(signature \<times> string) set \<Rightarrow> narrative_cache \<Rightarrow> bool" where
  "cached_ok renders cache \<longleftrightarrow> (\<forall>(sig, v) \<in> set cache. vd_source v = Llm \<and> (sig, vd_text v) \<in> renders)"

definition gateway_ok :: "gateway \<Rightarrow> bool" where
  "gateway_ok gw \<longleftrightarrow> cached_ok (gw_renders gw) (gw_cache gw) \<and>
     list_all (\<lambda>(engine, stage). stage_ok (gw_renders gw) engine stage) (gw_handlers gw)"

lemma fair_answer_mono: "fair_answer renders engine r \<Longrightarrow> renders \<subseteq> renders' \<Longrightarrow> fair_answer renders' engine r"
  unfolding fair_answer_def by (auto split: outcome.splits if_splits)

lemma stage_ok_mono: "stage_ok renders engine s \<Longrightarrow> renders \<subseteq> renders' \<Longrightarrow> stage_ok renders' engine s"
  by (cases s) (auto intro: fair_answer_mono)

lemma cached_ok_mono: "cached_ok renders cache \<Longrightarrow> renders \<subseteq> renders' \<Longrightarrow> cached_ok renders' cache"
  by (fastforce simp: cached_ok_def)

text \<open>What one step adds to the texts rendered.\<close>

definition renders_after :: "stage \<Rightarrow> (signature \<times> string) set \<Rightarrow> (signature \<times> string) set" where
  "renders_after s renders = (case s of Rendered g sig t \<Rightarrow> insert (sig, t) renders | _ \<Rightarrow> renders)"

lemma renders_after_mono: "renders \<subseteq> renders_after s renders"
  by (auto simp: renders_after_def split: stage.split)

lemma handler_step_ok:
  assumes "handler_step llm engine cache s = (cache', s')" and "cached_ok renders cache" and "stage_ok renders engine s"
  shows "cached_ok (renders_after s' renders) cache' \<and> stage_ok (renders_after s' renders) engine s'"
proof (cases s)
  case Arrived
  with assms show ?thesis
    by (auto simp: renders_after_def incident_def fair_answer_def split: outcome.splits if_splits)
next
  case (Hit g sig)
  show ?thesis
  proof (cases "map_of cache sig")
    case None
    with Hit assms show ?thesis by (auto simp: renders_after_def fair_answer_incident)
  next
    case (Some c)
    with assms(2) obtain t where "c = \<lparr>vd_text = t, vd_source = Llm\<rparr>" "(sig, t) \<in> renders"
      by (cases c) (auto simp: cached_ok_def dest!: map_of_SomeD)
    with Hit Some assms show ?thesis by (auto simp: renders_after_def fair_answer_incident)
  qed
next
  case (Missed g sig)
  with assms show ?thesis
    by (cases "ollama llm (resource_word g) g")
      (auto simp: renders_after_def fair_answer_incident intro: cached_ok_mono)
next
  case (Rendered g sig t)
  with assms show ?thesis by (auto simp: renders_after_def cached_ok_def)
next
  case (Cleared g sig t)
  with assms show ?thesis
    by (auto simp: renders_after_def cached_ok_def fair_answer_incident dest!: update_mem)
next
  case (Answered r)
  with assms show ?thesis by (auto simp: renders_after_def)
qed

lemma schedule_ok:
  assumes "gateway_ok gw" and "i < length (gw_handlers gw)"
  shows "gateway_ok (schedule llm i gw)"
proof -
  obtain engine s where h: "gw_handlers gw ! i = (engine, s)" by (cases "gw_handlers gw ! i")
  obtain cache' s' where st: "handler_step llm engine (gw_cache gw) s = (cache', s')"
    by (cases "handler_step llm engine (gw_cache gw) s")
  have "stage_ok (gw_renders gw) engine s" using assms h by (force simp: gateway_ok_def list_all_length)
  with handler_step_ok [OF st] assms(1)
  have new: "cached_ok (renders_after s' (gw_renders gw)) cache'" "stage_ok (renders_after s' (gw_renders gw)) engine s'"
    by (simp_all add: gateway_ok_def)
  have gw': "schedule llm i gw = \<lparr>gw_cache = cache', gw_handlers = (gw_handlers gw)[i := (engine, s')],
      gw_renders = renders_after s' (gw_renders gw)\<rparr>"
    by (simp add: schedule_def h st renders_after_def)
  have "list_all (\<lambda>(engine, stage). stage_ok (renders_after s' (gw_renders gw)) engine stage) (gw_handlers gw)"
    using assms(1) stage_ok_mono [OF _ renders_after_mono] by (fastforce simp: gateway_ok_def list_all_iff)
  with new assms(2) show ?thesis by (auto simp: gw' gateway_ok_def list_all_length nth_list_update)
qed

lemma gateway_run_ok: "gateway_run gw \<Longrightarrow> gateway_ok gw"
proof (induction rule: gateway_run.induct)
  case starts
  show ?case by (simp add: gateway_ok_def gateway_start_def cached_ok_def)
next
  case (requested gw engine)
  then show ?case by (simp add: gateway_ok_def request_def)
next
  case (scheduled gw i llm)
  from scheduled.IH scheduled.hyps(2) show ?case by (rule schedule_ok)
qed

section \<open>Every request is answered\<close>

fun steps_left :: "stage \<Rightarrow> nat" where
  "steps_left Arrived = 4"
| "steps_left (Missed g sig) = 3"
| "steps_left (Rendered g sig t) = 2"
| "steps_left (Cleared g sig t) = 1"
| "steps_left (Hit g sig) = 1"
| "steps_left (Answered r) = 0"

lemma handler_step_left: "steps_left (snd (handler_step llm engine cache s)) \<le> steps_left s - 1"
  by (cases s) (auto split: outcome.split option.split)

lemma steps_left_0: "steps_left s = 0 \<longleftrightarrow> (\<exists>r. s = Answered r)"
  by (cases s) auto

text \<open>The steps of one handler among any others: the dictionary each of them meets is arbitrary.\<close>

definition handler_run ::
    "(string \<Rightarrow> gateway_graph \<Rightarrow> string option) \<Rightarrow> served option \<Rightarrow> narrative_cache list \<Rightarrow> stage \<Rightarrow> stage" where
  "handler_run llm engine caches s = foldl (\<lambda>s cache. snd (handler_step llm engine cache s)) s caches"

lemma handler_run_left: "steps_left (handler_run llm engine caches s) \<le> steps_left s - length caches"
proof (induction caches arbitrary: s)
  case (Cons cache caches)
  from Cons.IH [of "snd (handler_step llm engine cache s)"] handler_step_left [of llm engine cache s]
  show ?case by (simp add: handler_run_def)
qed (simp add: handler_run_def)

lemma handler_run_answers: "4 \<le> length caches \<Longrightarrow> \<exists>r. handler_run llm engine caches Arrived = Answered r"
  using handler_run_left [of llm engine caches Arrived] by (simp flip: steps_left_0)

text \<open>The race exists for every incident the model can render: one handler has found the verdict in the cache, a
  second one that missed it earlier clears the cache, and the first one's read fails.\<close>

definition race :: "(string \<Rightarrow> gateway_graph \<Rightarrow> string option) \<Rightarrow> served option \<Rightarrow> gateway" where
  "race llm engine = foldl (\<lambda>gw i. schedule llm i gw)
     (request engine (request engine (request engine gateway_start))) [0, 1, 0, 0, 0, 2, 1, 1, 2]"

lemma schedule_run: "gateway_run gw \<Longrightarrow> list_all (\<lambda>i. i < length (gw_handlers gw)) is \<Longrightarrow>
    gateway_run (foldl (\<lambda>gw i. schedule llm i gw) gw is)"
proof (induction "is" arbitrary: gw)
  case (Cons i "is")
  have "length (gw_handlers (schedule llm i gw)) = length (gw_handlers gw)"
    by (simp add: schedule_def split: prod.split)
  with Cons show ?case by (simp add: gateway_run.scheduled)
qed simp

lemma narrative_race:
  assumes "incident engine g sig" and "ollama llm (resource_word g) g = Some t"
  shows "gateway_run (race llm engine) \<and> (engine, Answered (Raise KeyError)) \<in> set (gw_handlers (race llm engine))"
proof
  show "gateway_run (race llm engine)"
    unfolding race_def
    by (intro schedule_run gateway_run.requested gateway_run.starts) (simp add: request_def gateway_start_def)
  have "gw_handlers (race llm engine) ! 2 = (engine, Answered (Raise KeyError))" "length (gw_handlers (race llm engine)) = 3"
    using assms by (simp_all add: race_def schedule_def request_def gateway_start_def incident_def Let_def)
  then show "(engine, Answered (Raise KeyError)) \<in> set (gw_handlers (race llm engine))"
    by (metis nth_mem less_add_same_cancel1 numeral_2_eq_2 numeral_3_eq_3 lessI)
qed

text \<open>C32 (safety).  The narrative under concurrent requests: however the handlers interleave on the unlocked
  cache and whatever the model says, a handler answers within four steps, and every answer is fair to
  the graph its own request was given - the failure of the engine, the deterministic line, the template,
  or a text the model rendered for that very verdict, never one for another verdict - except for the
  index error of a cache emptied between the test and the read, which some interleaving reaches for
  every incident the model can render.\<close>

theorem narrative_answers_fair:
  assumes "gateway_run gw"
  shows "list_all (\<lambda>(engine, stage). case stage of Answered r \<Rightarrow> fair_answer (gw_renders gw) engine r | _ \<Rightarrow> True) (gw_handlers gw) \<and>
    (4 \<le> length caches \<longrightarrow> (\<exists>r. handler_run llm engine caches Arrived = Answered r)) \<and>
    (incident engine g sig \<and> ollama llm (resource_word g) g = Some t \<longrightarrow>
      (\<exists>gw'. gateway_run gw' \<and> (engine, Answered (Raise KeyError)) \<in> set (gw_handlers gw')))"
proof -
  have "case s of Answered r \<Rightarrow> fair_answer (gw_renders gw) engine r | _ \<Rightarrow> True"
    if "stage_ok (gw_renders gw) engine s" for engine s
    using that by (cases s) simp_all
  with gateway_run_ok [OF assms] have fair: "list_all (\<lambda>(engine, stage). case stage of
      Answered r \<Rightarrow> fair_answer (gw_renders gw) engine r | _ \<Rightarrow> True) (gw_handlers gw)"
    by (auto simp: gateway_ok_def list_all_iff)
  then show ?thesis using handler_run_answers narrative_race by blast
qed

definition one_answer :: gateway where
  "one_answer = schedule (\<lambda>r g. None) 0 (request None gateway_start)"

theorem narrative_answers_fair_witness:
  "gw_handlers one_answer = [(None, Answered (Raise SERVICE_UNAVAILABLE))] \<and>
   fair_answer {} None (Raise SERVICE_UNAVAILABLE) \<and> (\<exists>r. handler_run (\<lambda>r g. None) None (replicate 4 []) Arrived = Answered r)"
proof -
  have "gateway_run one_answer"
    unfolding one_answer_def by (intro gateway_run.intros) (simp add: request_def gateway_start_def)
  moreover have "gw_handlers one_answer = [(None, Answered (Raise SERVICE_UNAVAILABLE))]" "gw_renders one_answer = {}"
    by (simp_all add: one_answer_def schedule_def request_def gateway_start_def graph_def)
  ultimately show ?thesis
    using narrative_answers_fair [of one_answer "replicate 4 []" "\<lambda>r g. None" None] by simp
qed

end
