(* ===== verification/Soak.thy ===== *)
theory Soak
  imports Text
begin

text \<open>
  \<open>soak/record.py\<close>, the recorder of the soak runs: \<open>append\<close> flattens one answer of the gateway into a
  line of \<open>samples.jsonl\<close> and a row of \<open>timeline.csv\<close>, \<open>meta\<close> writes the configuration, \<open>report\<close> rolls the
  samples up per scenario.  The files of a run are one record; a line that does not parse is
  \<open>None\<close>.  The rows of the samples are those \<open>append\<close> writes.  The clock, \<open>strftime\<close> (\<open>stamp\<close>) and the JSON
  printer (\<open>dumps\<close>) are parameters.
\<close>

section \<open>What the gateway answered\<close>

text \<open>A JSON scalar; a missing key reads as \<open>Null\<close>.\<close>

datatype scalar = Null | Text_of string | Num real | Flag bool

record snap_root =
  sr_pod :: "string option"
  sr_score :: scalar
  sr_onset :: scalar

record snap_edge =
  sn_src :: "string option"
  sn_dst :: "string option"
  sn_r :: "real option"
  sn_evidence :: "string list"

record snap_warning =
  sw_pod :: "string option"
  sw_eta :: "real option"

record snapshot =
  sn_root :: "snap_root list"
  sn_edges :: "snap_edge list"
  sn_findings :: nat
  sn_incipient :: "snap_warning list"
  sn_active :: scalar
  sn_pods :: scalar

text \<open>A number that may be missing.\<close>

definition scalar_of :: "real option \<Rightarrow> scalar" where
  "scalar_of x = (case x of None \<Rightarrow> Null | Some r \<Rightarrow> Num r)"

section \<open>One sample\<close>

record sample_row =
  so_t :: string
  so_epoch :: int
  so_phase :: string
  so_cycle :: string
  so_ok :: bool
  so_root :: string
  so_root_score :: scalar
  so_onset :: scalar
  so_edges :: scalar
  so_findings :: scalar
  so_incipient :: scalar
  so_active :: scalar
  so_pods :: scalar
  so_victim :: string
  so_evidence :: string
  so_oom_pod :: string
  so_oom_eta :: scalar
  so_narrative :: string
  so_source :: string

text \<open>What one call of \<open>append\<close> finds in its environment.\<close>

record tick_env =
  te_now :: int
  te_phase :: string
  te_cycle :: string
  te_graph :: "snapshot option"
  te_narrative :: "(string \<times> string) option"

definition blank_row :: "(int \<Rightarrow> string) \<Rightarrow> tick_env \<Rightarrow> sample_row" where
  "blank_row stamp te =
     (let none = Text_of '''' in
      \<lparr>so_t = stamp (te_now te), so_epoch = te_now te, so_phase = te_phase te, so_cycle = te_cycle te,
       so_ok = (te_graph te \<noteq> None), so_root = '''', so_root_score = none, so_onset = none, so_edges = none,
       so_findings = none, so_incipient = none, so_active = none, so_pods = none, so_victim = '''',
       so_evidence = '''', so_oom_pod = '''', so_oom_eta = none, so_narrative = '''', so_source = ''''\<rparr>)"

definition with_root :: "snapshot \<Rightarrow> sample_row \<Rightarrow> sample_row" where
  "with_root g r = (case sn_root g of [] \<Rightarrow> r
     | first # _ \<Rightarrow> r\<lparr>so_root := or_empty (sr_pod first), so_root_score := sr_score first, so_onset := sr_onset first\<rparr>)"

definition with_counts :: "snapshot \<Rightarrow> sample_row \<Rightarrow> sample_row" where
  "with_counts g r = r\<lparr>so_edges := Num (real (length (sn_edges g))), so_findings := Num (real (sn_findings g)),
     so_incipient := Num (real (length (sn_incipient g))), so_active := sn_active g, so_pods := sn_pods g\<rparr>"

definition strongest_edge :: "snapshot \<Rightarrow> string \<Rightarrow> snap_edge" where
  "strongest_edge g cause =
     (let leaving = filter (\<lambda>e. sn_src e = Some cause) (sn_edges g);
          src = (if leaving = [] then sn_edges g else leaving)
      in the (max_by (\<lambda>e. \<bar>case sn_r e of None \<Rightarrow> 0 | Some x \<Rightarrow> x\<bar>) src))"

definition with_edge :: "snapshot \<Rightarrow> sample_row \<Rightarrow> sample_row" where
  "with_edge g r =
     (if sn_edges g = [] then r
      else let e = strongest_edge g (so_root r)
           in r\<lparr>so_victim := or_empty (sn_dst e), so_evidence := join_with ''|'' (sn_evidence e)\<rparr>)"

definition soonest :: "snap_warning list \<Rightarrow> snap_warning" where
  "soonest incip = the (min_by (\<lambda>w. case sw_eta w of None \<Rightarrow> 10 ^ 9 | Some t \<Rightarrow> t) incip)"

definition with_warning :: "snapshot \<Rightarrow> sample_row \<Rightarrow> sample_row" where
  "with_warning g r =
     (if sn_incipient g = [] then r
      else let f = soonest (sn_incipient g)
           in r\<lparr>so_oom_pod := or_empty (sw_pod f), so_oom_eta := scalar_of (sw_eta f)\<rparr>)"

definition sample_of :: "(int \<Rightarrow> string) \<Rightarrow> tick_env \<Rightarrow> sample_row" where
  "sample_of stamp te =
     (let r = blank_row stamp te;
          r = (case te_graph te of None \<Rightarrow> r
            | Some g \<Rightarrow> with_warning g (with_edge g (with_counts g (with_root g r))))
      in (case te_narrative te of None \<Rightarrow> r | Some (txt, src) \<Rightarrow> r\<lparr>so_narrative := txt, so_source := src\<rparr>))"

text \<open>The row as the dictionary \<open>rec\<close>, and the columns of the timeline.\<close>

definition row_fields :: "sample_row \<Rightarrow> (string \<times> scalar) list" where
  "row_fields r =
     [(''t'', Text_of (so_t r)), (''epoch'', Num (of_int (so_epoch r))), (''phase'', Text_of (so_phase r)),
      (''cycle'', Text_of (so_cycle r)), (''ok'', Flag (so_ok r)), (''root'', Text_of (so_root r)),
      (''root_score'', so_root_score r), (''onset_s'', so_onset r), (''n_edges'', so_edges r),
      (''n_findings'', so_findings r), (''n_incipient'', so_incipient r), (''active'', so_active r),
      (''pods'', so_pods r), (''top_victim'', Text_of (so_victim r)), (''evidence'', Text_of (so_evidence r)),
      (''oom_pod'', Text_of (so_oom_pod r)), (''oom_eta_s'', so_oom_eta r), (''narrative'', Text_of (so_narrative r)),
      (''narr_source'', Text_of (so_source r))]"

definition COLS :: "string list" where
  "COLS = [''t'', ''epoch'', ''phase'', ''cycle'', ''ok'', ''root'', ''root_score'', ''onset_s'', ''n_edges'',
     ''n_findings'', ''n_incipient'', ''active'', ''pods'', ''top_victim'', ''evidence'', ''oom_pod'',
     ''oom_eta_s'', ''narr_source'']"

definition cells :: "sample_row \<Rightarrow> scalar list" where
  "cells r = map (\<lambda>c. case map_of (row_fields r) c of None \<Rightarrow> Text_of '''' | Some v \<Rightarrow> v) COLS"

section \<open>The files of a run\<close>

record run_meta =
  rm_run_id :: string
  rm_started_epoch :: int
  rm_started_iso :: string
  rm_scenarios :: string
  rm_config :: "(string \<times> string) list"

datatype meta_file = NoMeta | BadMeta | Meta run_meta

record run_dir =
  rd_samples :: "sample_row option list"
  rd_timeline :: "scalar list list"
  rd_meta :: meta_file
  rd_report :: "string option"

definition empty_run :: run_dir where
  "empty_run = \<lparr>rd_samples = [], rd_timeline = [], rd_meta = NoMeta, rd_report = None\<rparr>"

definition cmd_append :: "(int \<Rightarrow> string) \<Rightarrow> tick_env \<Rightarrow> run_dir \<Rightarrow> run_dir" where
  "cmd_append stamp te d =
     (let rec = sample_of stamp te;
          header = (if rd_timeline d = [] then [map Text_of COLS] else [])
      in d\<lparr>rd_samples := rd_samples d @ [Some rec], rd_timeline := rd_timeline d @ header @ [cells rec]\<rparr>)"

definition basename :: "string \<Rightarrow> string" where
  "basename rundir =
     last (split_on CHR ''/'' (rev (dropWhile (\<lambda>c. c = CHR ''/'' \<or> c = CHR 0x5C) (rev rundir))))"

definition cmd_meta :: "(int \<Rightarrow> string) \<Rightarrow> int \<Rightarrow> (string \<Rightarrow> string option) \<Rightarrow> string \<Rightarrow> run_dir \<Rightarrow> run_dir" where
  "cmd_meta stamp now environ rundir d =
     (let env = (\<lambda>k. or_empty (environ k)) in
      d\<lparr>rd_meta := Meta \<lparr>rm_run_id = basename rundir, rm_started_epoch = now, rm_started_iso = stamp now,
         rm_scenarios = env ''SCENARIOS'',
         rm_config = [(''duration_h'', env ''DURATION_H''), (''sample_s'', env ''SAMPLE_S''),
           (''observe_s'', env ''OBSERVE_S''), (''cooldown_s'', env ''COOLDOWN_S''), (''host'', env ''HOSTNAME'')]\<rparr>\<rparr>)"

definition read_samples :: "run_dir \<Rightarrow> sample_row list" where
  "read_samples d = List.map_filter (\<lambda>line. line) (rd_samples d)"

section \<open>The report\<close>

text \<open>The dash U+2014, the check mark U+2713 and the middle dot U+00B7 as UTF-8 bytes.\<close>

definition EM_DASH :: string where "EM_DASH = [CHR 0xE2, CHR 0x80, CHR 0x94]"
definition CHECK :: string where "CHECK = [CHR 0xE2, CHR 0x9C, CHR 0x93]"
definition DOT :: string where "DOT = [CHR 0xC2, CHR 0xB7]"

definition EXPECT :: "(string \<times> string option) list" where
  "EXPECT = [(''S1'', Some ''cooling-monitor''), (''S2'', Some ''log-archiver''), (''S3'', Some ''analytics-batch''),
     (''S5'', None)]"

definition SCEN_ORDER :: "string list" where "SCEN_ORDER = [''S1'', ''S2'', ''S3'', ''S5'']"

text \<open>\<open>EXPECT[s]\<close>, for a phase of the run.\<close>

definition expected :: "string \<Rightarrow> string option" where
  "expected s = (case map_of EXPECT s of None \<Rightarrow> None | Some e \<Rightarrow> e)"

definition number :: "scalar \<Rightarrow> real option" where
  "number x = (case x of Null \<Rightarrow> None | Text_of s \<Rightarrow> parse_float (strip s) | Num r \<Rightarrow> Some r
     | Flag b \<Rightarrow> Some (if b then 1 else 0))"

record series_point =
  sp_epoch :: int
  sp_t :: string
  sp_phase :: string
  sp_cycle :: string
  sp_edges :: real
  sp_findings :: real
  sp_root :: string
  sp_matched :: "bool option"
  sp_oom :: "real option"

definition number_or_0 :: "scalar \<Rightarrow> real" where
  "number_or_0 x = (case number x of None \<Rightarrow> 0 | Some r \<Rightarrow> r)"

definition matched :: "sample_row \<Rightarrow> bool option" where
  "matched r =
     (case expected (so_phase r) of
        None \<Rightarrow> None | Some e \<Rightarrow> if so_root r = '''' then None else Some (so_root r = e))"

definition point_of :: "sample_row \<Rightarrow> series_point" where
  "point_of r =
     \<lparr>sp_epoch = so_epoch r, sp_t = so_t r, sp_phase = so_phase r, sp_cycle = so_cycle r,
      sp_edges = number_or_0 (so_edges r), sp_findings = number_or_0 (so_findings r), sp_root = so_root r,
      sp_matched = matched r, sp_oom = number (so_oom_eta r)\<rparr>"

record rollup =
  ru_cycles :: nat
  ru_samples :: nat
  ru_detect_rate :: real
  ru_correct_rate :: real
  ru_dominant :: string
  ru_dominant_n :: nat
  ru_expected :: string
  ru_oom_cycle_rate :: real
  ru_min_eta :: "real option"
  ru_median_ttd :: "int option"

definition rooted :: "sample_row \<Rightarrow> bool" where "rooted r \<longleftrightarrow> so_root r \<noteq> ''''"

definition correct_root :: "string \<Rightarrow> string" where
  "correct_root s = (case expected s of None \<Rightarrow> [CHR 0x00] | Some e \<Rightarrow> e)"

definition count_root :: "(string \<times> nat) list \<Rightarrow> sample_row \<Rightarrow> (string \<times> nat) list" where
  "count_root counts r =
     AList.update (so_root r) ((case map_of counts (so_root r) of None \<Rightarrow> 0 | Some n \<Rightarrow> n) + 1) counts"

definition dominant :: "sample_row list \<Rightarrow> string \<times> nat" where
  "dominant obs =
     (case max_by snd (foldl count_root [] (filter rooted obs)) of None \<Rightarrow> (EM_DASH, 0) | Some kv \<Rightarrow> kv)"

definition oom_step :: "string set \<times> real option \<Rightarrow> sample_row \<Rightarrow> string set \<times> real option" where
  "oom_step st r =
     (case number (so_oom_eta r) of
        None \<Rightarrow> st
      | Some e \<Rightarrow> (insert (so_cycle r) (fst st),
          case snd st of None \<Rightarrow> Some e | Some m \<Rightarrow> if e < m then Some e else Some m))"

definition is_hit :: "string \<Rightarrow> sample_row \<Rightarrow> bool" where
  "is_hit s r \<longleftrightarrow> (if s = ''S5'' then number (so_oom_eta r) \<noteq> None else rooted r)"

definition cycle_ttd :: "string \<Rightarrow> sample_row list \<Rightarrow> string \<Rightarrow> int option" where
  "cycle_ttd s obs c =
     (let cr = filter (\<lambda>r. so_cycle r = c) obs; hits = filter (is_hit s) cr
      in if cr = [] \<or> hits = [] then None
         else Some (Min (so_epoch ` set hits) - Min (so_epoch ` set cr)))"

definition rate :: "nat \<Rightarrow> nat \<Rightarrow> real" where
  "rate k n = (if n = 0 then 0 else py_round 3 (real k / real n))"

definition scenario_rollup :: "sample_row list \<Rightarrow> string \<Rightarrow> rollup" where
  "scenario_rollup rows s =
     (let obs = filter (\<lambda>r. so_phase r = s) rows;
          cycles = sorted_set (map so_cycle obs);
          found = filter rooted obs;
          correct = filter (\<lambda>r. so_root r = correct_root s) obs;
          (oom_cycles, min_eta) = foldl oom_step ({}, None) obs;
          ttds = sort (List.map_filter (cycle_ttd s obs) cycles)
      in \<lparr>ru_cycles = length cycles, ru_samples = length obs,
          ru_detect_rate = rate (length found) (length obs),
          ru_correct_rate = rate (length correct) (length obs),
          ru_dominant = fst (dominant obs), ru_dominant_n = snd (dominant obs),
          ru_expected = (case expected s of None \<Rightarrow> ''(no root '' @ EM_DASH @ '' OOM forecast)'' | Some e \<Rightarrow> e),
          ru_oom_cycle_rate = rate (card oom_cycles) (length cycles),
          ru_min_eta = min_eta,
          ru_median_ttd = (if ttds = [] then None else Some (ttds ! (length ttds div 2)))\<rparr>)"

record summary =
  su_run_id :: string
  su_started_iso :: string
  su_ended_iso :: string
  su_duration_min :: real
  su_samples :: nat
  su_cycles :: nat
  su_scenarios :: string

definition summarise :: "(int \<Rightarrow> string) \<Rightarrow> string \<Rightarrow> run_meta option \<Rightarrow> sample_row list \<Rightarrow> summary" where
  "summarise stamp rundir meta rows =
     (let epochs = filter (\<lambda>e. e \<noteq> 0) (map so_epoch rows);
          (t0, t1) = (if epochs = [] then (0, 0) else (Min (set epochs), Max (set epochs)))
      in \<lparr>su_run_id = (case meta of None \<Rightarrow> basename rundir | Some m \<Rightarrow> rm_run_id m),
          su_started_iso = (case meta of None \<Rightarrow> '''' | Some m \<Rightarrow> rm_started_iso m),
          su_ended_iso = (if t1 = 0 then '''' else stamp t1),
          su_duration_min = (if t1 = 0 then 0 else py_round 1 (of_int (t1 - t0) / 60)),
          su_samples = length rows,
          su_cycles = length (sorted_set (map so_cycle (filter (\<lambda>r. so_phase r \<in> set SCEN_ORDER) rows))),
          su_scenarios = (case meta of None \<Rightarrow> join_with '' '' SCEN_ORDER | Some m \<Rightarrow> rm_scenarios m)\<rparr>)"

datatype event_kind = Detect | Oom

record report_event =
  ev_t :: string
  ev_kind :: event_kind
  ev_text :: string

definition verdict_mark :: "string \<Rightarrow> string \<Rightarrow> string" where
  "verdict_mark ph cause = (case expected ph of None \<Rightarrow> DOT | Some e \<Rightarrow> if cause = e then CHECK else ''?'')"

definition detect_step ::
    "sample_row \<Rightarrow> report_event list \<times> (string \<times> string) set \<Rightarrow> report_event list \<times> (string \<times> string) set" where
  "detect_step r st =
     (let key = (so_cycle r, so_phase r) in
      if so_phase r \<in> fst ` set EXPECT \<and> rooted r \<and> key \<notin> snd st
      then (fst st @ [\<lparr>ev_t = so_t r, ev_kind = Detect, ev_text = so_phase r @ '' cycle '' @ so_cycle r @ '': root = '' @
              so_root r @ '' '' @ verdict_mark (so_phase r) (so_root r)\<rparr>], insert key (snd st))
      else st)"

definition oom_event_step ::
    "sample_row \<Rightarrow> report_event list \<times> (string \<times> string) set \<Rightarrow> report_event list \<times> (string \<times> string) set" where
  "oom_event_step r st =
     (let key = (''oom'', so_cycle r) in
      case number (so_oom_eta r) of
        None \<Rightarrow> st
      | Some e \<Rightarrow>
          if key \<notin> snd st
          then (fst st @ [\<lparr>ev_t = so_t r, ev_kind = Oom, ev_text = so_phase r @ '' cycle '' @ so_cycle r @
                  '': OOM forecast '' @ EM_DASH @ '' '' @ so_oom_pod r @ '' in ~'' @ show_int (py_int e) @ ''s''\<rparr>],
                insert key (snd st))
          else st)"

definition report_events :: "sample_row list \<Rightarrow> report_event list" where
  "report_events rows =
     tail_slice 40 (fst (foldl (\<lambda>st r. oom_event_step r (detect_step r st)) ([], {}) rows))"

record report =
  rp_summary :: summary
  rp_scenarios :: "(string \<times> rollup) list"
  rp_series :: "series_point list"
  rp_events :: "report_event list"

text \<open>\<open>s.replace(old, new)\<close> for a non-empty \<open>old\<close>: left to right, occurrences do not overlap.\<close>

function replace_all :: "string \<Rightarrow> string \<Rightarrow> string \<Rightarrow> string" where
  "replace_all old new s =
     (if s = [] then []
      else if old \<noteq> [] \<and> take (length old) s = old then new @ replace_all old new (drop (length old) s)
      else hd s # replace_all old new (tl s))"
  by auto

termination replace_all
  by (relation "measure (\<lambda>(old, new, s). length s)") auto

declare replace_all.simps [simp del]

definition embed :: "string \<Rightarrow> string \<Rightarrow> string" where
  "embed html blob = replace_all ''__SOAK_DATA__'' blob html"

definition script_safe :: "string \<Rightarrow> string" where
  "script_safe json = replace_all ''</'' [CHR ''<'', CHR 0x5C, CHR ''/''] json"

definition build_report :: "(int \<Rightarrow> string) \<Rightarrow> string \<Rightarrow> run_meta option \<Rightarrow> sample_row list \<Rightarrow> report" where
  "build_report stamp rundir meta rows =
     \<lparr>rp_summary = summarise stamp rundir meta rows,
      rp_scenarios = map (\<lambda>s. (s, scenario_rollup rows s)) SCEN_ORDER,
      rp_series = map point_of rows, rp_events = report_events rows\<rparr>"

definition cmd_report ::
    "(int \<Rightarrow> string) \<Rightarrow> (report \<Rightarrow> string) \<Rightarrow> string \<Rightarrow> string option \<Rightarrow> run_dir \<Rightarrow> run_dir outcome" where
  "cmd_report stamp dumps rundir template d =
     (let make = (\<lambda>meta. case template of
            None \<Rightarrow> Raise (OtherError ''FileNotFoundError'')
          | Some html \<Rightarrow> Ret (d\<lparr>rd_report :=
              Some (embed html (script_safe (dumps (build_report stamp rundir meta (read_samples d)))))\<rparr>))
      in (case rd_meta d of
            NoMeta \<Rightarrow> make None | Meta m \<Rightarrow> make (Some m) | BadMeta \<Rightarrow> Raise (OtherError ''AttributeError'')))"

section \<open>The command line\<close>

datatype command = Append string string | Write_meta string | Make_report string string

definition parse_args :: "string list \<Rightarrow> command outcome" where
  "parse_args argv =
     (let arg = (\<lambda>i. if i < length argv then Ret (argv ! i) else Raise IndexError) in
      if length argv < 2 then Raise (OtherError ''usage: record.py append|meta|report ...'')
      else if argv ! 1 = ''append'' then and_then (arg 2) (\<lambda>a. and_then (arg 3) (\<lambda>b. Ret (Append a b)))
      else if argv ! 1 = ''meta'' then and_then (arg 2) (\<lambda>a. Ret (Write_meta a))
      else if argv ! 1 = ''report'' then and_then (arg 2) (\<lambda>a. and_then (arg 3) (\<lambda>b. Ret (Make_report a b)))
      else Raise (OtherError (''unknown command: '' @ argv ! 1)))"

section \<open>What is recorded is what is reported\<close>

lemma cmd_append_samples [simp]: "rd_samples (cmd_append stamp te d) = rd_samples d @ [Some (sample_of stamp te)]"
  by (simp add: cmd_append_def Let_def)

lemma cmd_append_timeline: "rd_timeline (cmd_append stamp te d) =
    (if rd_timeline d = [] then [map Text_of COLS] else rd_timeline d) @ [cells (sample_of stamp te)]"
  by (simp add: cmd_append_def Let_def)

definition record_run :: "(int \<Rightarrow> string) \<Rightarrow> tick_env list \<Rightarrow> run_dir" where
  "record_run stamp ticks = foldl (\<lambda>d te. cmd_append stamp te d) empty_run ticks"

lemma record_run_samples: "rd_samples (record_run stamp ticks) = map (\<lambda>te. Some (sample_of stamp te)) ticks"
  by (induction ticks rule: rev_induct) (simp_all add: record_run_def empty_run_def)

lemma record_run_timeline: "rd_timeline (record_run stamp ticks) =
    (if ticks = [] then [] else map Text_of COLS # map (\<lambda>te. cells (sample_of stamp te)) ticks)"
  by (induction ticks rule: rev_induct) (simp_all add: record_run_def empty_run_def cmd_append_timeline)

text \<open>C35 (roundtrip).  Recording loses nothing: after any sequence of ticks the report reads back exactly
  the samples taken, in order; the timeline is one header followed by one row per sample, a row
  holds every field of its sample except the narrative text, and the report plots one point per
  sample.\<close>

theorem record_run_roundtrip:
  "read_samples (record_run stamp ticks) = map (sample_of stamp) ticks \<and>
   rd_timeline (record_run stamp ticks) =
     (if ticks = [] then [] else map Text_of COLS # map (\<lambda>te. cells (sample_of stamp te)) ticks) \<and>
   length (cells r) = length COLS \<and> set (zip COLS (cells r)) = {(c, v) \<in> set (row_fields r). c \<noteq> ''narrative''} \<and>
   rp_series (build_report stamp rundir meta (read_samples (record_run stamp ticks))) =
     map (\<lambda>te. point_of (sample_of stamp te)) ticks"
proof -
  have "read_samples (record_run stamp ticks) = map (sample_of stamp) ticks"
    by (simp add: read_samples_def record_run_samples List.map_filter_def comp_def)
  moreover have "zip COLS (cells r) = filter (\<lambda>(c, v). c \<noteq> ''narrative'') (row_fields r)"
    by (simp add: cells_def COLS_def row_fields_def)
  then have "set (zip COLS (cells r)) = {(c, v) \<in> set (row_fields r). c \<noteq> ''narrative''}" by auto
  ultimately show ?thesis
    by (simp add: record_run_timeline build_report_def cells_def comp_def)
qed

section \<open>The rollup of a scenario is honest\<close>

lemma count_roots:
  "map_of (foldl count_root [] rs) x =
     (if filter (\<lambda>r. so_root r = x) rs = [] then None else Some (length (filter (\<lambda>r. so_root r = x) rs)))"
  by (induction rs rule: rev_induct) (auto simp: count_root_def update_conv' filter_empty_conv)

lemma count_roots_distinct: "distinct (map fst (foldl count_root [] rs))"
  by (induction rs rule: rev_induct) (simp_all add: count_root_def distinct_update)

lemma dominant_spec:
  assumes "filter rooted obs \<noteq> []"
  shows "fst (dominant obs) \<noteq> '''' \<and> snd (dominant obs) = length (filter (\<lambda>r. so_root r = fst (dominant obs)) obs) \<and>
    (\<forall>x. x \<noteq> '''' \<longrightarrow> length (filter (\<lambda>r. so_root r = x) obs) \<le> snd (dominant obs))"
proof -
  let ?found = "filter rooted obs" and ?counts = "foldl count_root [] (filter rooted obs)"
  have at: "filter (\<lambda>r. rooted r \<and> so_root r = y) obs = (if y = '''' then [] else filter (\<lambda>r. so_root r = y) obs)" for y
    by (auto simp: rooted_def intro!: filter_cong)
  from assms obtain r where r: "r \<in> set obs" "rooted r" by (auto simp: filter_empty_conv)
  then have "map_of ?counts (so_root r) \<noteq> None" by (auto simp: count_roots at rooted_def filter_empty_conv)
  then obtain kv where kv: "max_by snd ?counts = Some kv" by (cases "max_by snd ?counts") auto
  have dom: "dominant obs = kv" by (simp add: dominant_def kv)
  have "map_of ?counts (fst kv) = Some (snd kv)"
    using max_by_mem [OF kv] count_roots_distinct [of ?found] by (intro map_of_is_SomeI) simp_all
  then have k: "fst kv \<noteq> ''''" "snd kv = length (filter (\<lambda>r. so_root r = fst kv) obs)"
    by (auto simp: count_roots at split: if_splits)
  have "length (filter (\<lambda>r. so_root r = x) obs) \<le> snd kv" if "x \<noteq> ''''" for x
  proof (cases "filter (\<lambda>r. so_root r = x) obs = []")
    case False
    with that have "map_of ?counts x = Some (length (filter (\<lambda>r. so_root r = x) obs))" by (simp add: count_roots at)
    from max_by_ge [OF kv map_of_SomeD [OF this]] show ?thesis by simp
  qed simp
  with k show ?thesis by (simp add: dom)
qed

lemma oom_fold:
  "case foldl oom_step ({}, None) obs of (cs, m) \<Rightarrow>
     cs = so_cycle ` {r \<in> set obs. number (so_oom_eta r) \<noteq> None} \<and>
     (case m of None \<Rightarrow> \<forall>r \<in> set obs. number (so_oom_eta r) = None
      | Some e \<Rightarrow> (\<exists>r \<in> set obs. number (so_oom_eta r) = Some e) \<and>
          (\<forall>r \<in> set obs. \<forall>x. number (so_oom_eta r) = Some x \<longrightarrow> e \<le> x))"
proof (induction obs rule: rev_induct)
  case (snoc r obs)
  obtain cs m where st: "foldl oom_step ({}, None) obs = (cs, m)" by fastforce
  with snoc show ?case
    by (cases "number (so_oom_eta r)"; cases m) (force simp: oom_step_def)+
qed simp

lemma rate_bounds: "k \<le> n \<Longrightarrow> 0 \<le> rate k n \<and> rate k n \<le> 1"
  by (auto simp: rate_def intro!: bounds_intro)

lemma rate_mono: "k \<le> m \<Longrightarrow> rate k n \<le> rate m n"
  by (auto simp: rate_def divide_right_mono intro!: py_round_mono)

lemma correct_is_rooted: "so_root r = correct_root s \<Longrightarrow> rooted r"
  by (auto simp: correct_root_def expected_def EXPECT_def rooted_def split: option.splits if_splits)

lemma cycle_ttd_nonneg: "cycle_ttd s obs c = Some d \<Longrightarrow> 0 \<le> d"
  by (auto simp: cycle_ttd_def Let_def filter_empty_conv split: if_splits intro!: Min_antimono)

lemma median_ttd_nonneg:
  assumes "\<forall>x \<in> set xs. 0 \<le> x" and "xs \<noteq> []" shows "0 \<le> sort xs ! (length (sort xs) div 2)"
proof -
  from assms(2) have "length xs div 2 < length xs" by (cases xs) auto
  then have "sort xs ! (length (sort xs) div 2) \<in> set (sort xs)" by (intro nth_mem) simp
  with assms(1) show ?thesis by simp
qed

text \<open>The samples of a scenario, and how many of them name a cause.\<close>

definition observed :: "sample_row list \<Rightarrow> string \<Rightarrow> sample_row list" where
  "observed rows s = filter (\<lambda>r. so_phase r = s) rows"

definition votes :: "sample_row list \<Rightarrow> string \<Rightarrow> string \<Rightarrow> nat" where
  "votes rows s x = length (filter (\<lambda>r. so_root r = x) (observed rows s))"

lemma length_filter_mono: "\<forall>x \<in> set xs. P x \<longrightarrow> Q x \<Longrightarrow> length (filter P xs) \<le> length (filter Q xs)"
  by (induction xs) auto

lemma votes_le: "votes rows s x \<le> length (observed rows s)"
  by (simp add: votes_def)

lemma correct_votes_le: "votes rows s (correct_root s) \<le> length (filter rooted (observed rows s))"
  unfolding votes_def by (rule length_filter_mono) (simp add: correct_is_rooted)

lemma scenario_rollup_fields:
  "scenario_rollup rows s =
     \<lparr>ru_cycles = length (sorted_set (map so_cycle (observed rows s))), ru_samples = length (observed rows s),
      ru_detect_rate = rate (length (filter rooted (observed rows s))) (length (observed rows s)),
      ru_correct_rate = rate (votes rows s (correct_root s)) (length (observed rows s)),
      ru_dominant = fst (dominant (observed rows s)), ru_dominant_n = snd (dominant (observed rows s)),
      ru_expected = (case expected s of None \<Rightarrow> ''(no root '' @ EM_DASH @ '' OOM forecast)'' | Some e \<Rightarrow> e),
      ru_oom_cycle_rate = rate (card (fst (foldl oom_step ({}, None) (observed rows s))))
        (length (sorted_set (map so_cycle (observed rows s)))),
      ru_min_eta = snd (foldl oom_step ({}, None) (observed rows s)),
      ru_median_ttd = (let ttds = sort (List.map_filter (cycle_ttd s (observed rows s))
          (sorted_set (map so_cycle (observed rows s))))
        in if ttds = [] then None else Some (ttds ! (length ttds div 2)))\<rparr>"
  by (simp add: scenario_rollup_def observed_def votes_def Let_def case_prod_beta)

text \<open>C38 (bounds).  The report does not flatter: the rates of a scenario are proportions, the rate of
  correct verdicts never exceeds the rate of verdicts, the root shown as dominant is one the
  engine named and named most often, the best early warning is the least forecast made and is
  there exactly when one was made, and a time to detection is never negative.\<close>

theorem scenario_rollup_honest:
  "0 \<le> ru_correct_rate (scenario_rollup rows s) \<and>
   ru_correct_rate (scenario_rollup rows s) \<le> ru_detect_rate (scenario_rollup rows s) \<and>
   ru_detect_rate (scenario_rollup rows s) \<le> 1 \<and>
   0 \<le> ru_oom_cycle_rate (scenario_rollup rows s) \<and> ru_oom_cycle_rate (scenario_rollup rows s) \<le> 1 \<and>
   (if list_ex rooted (observed rows s)
    then ru_dominant (scenario_rollup rows s) \<noteq> '''' \<and>
      ru_dominant_n (scenario_rollup rows s) = votes rows s (ru_dominant (scenario_rollup rows s)) \<and>
      (\<forall>x. x \<noteq> '''' \<longrightarrow> votes rows s x \<le> ru_dominant_n (scenario_rollup rows s))
    else ru_dominant (scenario_rollup rows s) = EM_DASH \<and> ru_dominant_n (scenario_rollup rows s) = 0) \<and>
   (case ru_min_eta (scenario_rollup rows s) of
      None \<Rightarrow> \<forall>r \<in> set (observed rows s). number (so_oom_eta r) = None
    | Some e \<Rightarrow> (\<exists>r \<in> set (observed rows s). number (so_oom_eta r) = Some e) \<and>
        (\<forall>r \<in> set (observed rows s). \<forall>x. number (so_oom_eta r) = Some x \<longrightarrow> e \<le> x)) \<and>
   (case ru_median_ttd (scenario_rollup rows s) of None \<Rightarrow> True | Some d \<Rightarrow> 0 \<le> d)"
proof -
  let ?obs = "observed rows s" and ?u = "scenario_rollup rows s"
  let ?cycles = "sorted_set (map so_cycle ?obs)" and ?ooms = "foldl oom_step ({}, None) ?obs"
  have rates: "0 \<le> ru_correct_rate ?u" "ru_correct_rate ?u \<le> ru_detect_rate ?u" "ru_detect_rate ?u \<le> 1"
    using rate_bounds [of "votes rows s (correct_root s)" "length ?obs"] rate_bounds [of "length (filter rooted ?obs)" "length ?obs"]
      correct_votes_le [of rows s] votes_le [of rows s "correct_root s"]
    by (simp_all add: scenario_rollup_fields rate_mono)
  have "fst ?ooms \<subseteq> set ?cycles" using oom_fold [of ?obs] by (auto split: prod.splits)
  then have "card (fst ?ooms) \<le> length ?cycles"
    by (metis card_mono distinct_card finite_set sorted_set_simps(2))
  then have oom: "0 \<le> ru_oom_cycle_rate ?u" "ru_oom_cycle_rate ?u \<le> 1"
    using rate_bounds [of "card (fst ?ooms)" "length ?cycles"] by (simp_all add: scenario_rollup_fields)
  have dom: "if list_ex rooted ?obs
    then ru_dominant ?u \<noteq> '''' \<and> ru_dominant_n ?u = votes rows s (ru_dominant ?u) \<and>
      (\<forall>x. x \<noteq> '''' \<longrightarrow> votes rows s x \<le> ru_dominant_n ?u)
    else ru_dominant ?u = EM_DASH \<and> ru_dominant_n ?u = 0"
  proof (cases "filter rooted ?obs = []")
    case True
    then show ?thesis by (auto simp: list_ex_iff filter_empty_conv scenario_rollup_fields dominant_def)
  next
    case False
    then have "list_ex rooted ?obs" by (auto simp: list_ex_iff filter_empty_conv)
    with dominant_spec [OF False] show ?thesis by (auto simp: scenario_rollup_fields votes_def)
  qed
  have eta: "case ru_min_eta ?u of None \<Rightarrow> \<forall>r \<in> set ?obs. number (so_oom_eta r) = None
    | Some e \<Rightarrow> (\<exists>r \<in> set ?obs. number (so_oom_eta r) = Some e) \<and>
        (\<forall>r \<in> set ?obs. \<forall>x. number (so_oom_eta r) = Some x \<longrightarrow> e \<le> x)"
    using oom_fold [of ?obs] by (simp add: scenario_rollup_fields split: prod.splits)
  have "\<forall>x \<in> set (List.map_filter (cycle_ttd s ?obs) ?cycles). 0 \<le> x"
    by (auto simp: List.map_filter_def cycle_ttd_nonneg)
  then have ttd: "case ru_median_ttd ?u of None \<Rightarrow> True | Some d \<Rightarrow> 0 \<le> d"
    using median_ttd_nonneg [of "List.map_filter (cycle_ttd s ?obs) ?cycles"] by (simp add: scenario_rollup_fields Let_def)
  show ?thesis using rates oom dom eta ttd by (intro conjI)
qed

definition one_sample :: sample_row where
  "one_sample = (blank_row (\<lambda>_. ''t'') \<lparr>te_now = 7, te_phase = ''S1'', te_cycle = ''1'', te_graph = None,
     te_narrative = None\<rparr>)\<lparr>so_root := ''cooling-monitor''\<rparr>"

theorem scenario_rollup_honest_witness:
  "ru_dominant (scenario_rollup [one_sample] ''S1'') = ''cooling-monitor''"
proof -
  let ?u = "scenario_rollup [one_sample] ''S1''"
  have obs: "observed [one_sample] ''S1'' = [one_sample]" "rooted one_sample"
    by (simp_all add: observed_def one_sample_def blank_row_def rooted_def Let_def)
  have named: "list_ex rooted (observed [one_sample] ''S1'') = True" by (simp add: obs)
  have votes: "votes [one_sample] ''S1'' x = (if x = ''cooling-monitor'' then 1 else 0)" for x
    unfolding votes_def obs by (simp add: one_sample_def)
  have "ru_dominant_n ?u = votes [one_sample] ''S1'' (ru_dominant ?u)"
    "votes [one_sample] ''S1'' ''cooling-monitor'' \<le> ru_dominant_n ?u"
    using scenario_rollup_honest [of "[one_sample]" "''S1''"] unfolding named if_True by blast+
  then show ?thesis unfolding votes by (simp split: if_splits)
qed

section \<open>The embedded data cannot close the script\<close>

lemma replace_all_Nil [simp]: "replace_all old new [] = []"
  by (simp add: replace_all.simps)

lemma replace_all_Cons:
  "old \<noteq> [] \<Longrightarrow> replace_all old new (c # s) =
     (if take (length old) (c # s) = old then new @ replace_all old new (drop (length old) (c # s))
      else c # replace_all old new s)"
  by (subst replace_all.simps) simp

definition closes_tag :: "string \<Rightarrow> bool" where
  "closes_tag s \<longleftrightarrow> (\<exists>a b. s = a @ ''</'' @ b)"

lemma closes_tag_Cons: "closes_tag (c # s) \<longleftrightarrow> (c = CHR ''<'' \<and> (\<exists>t. s = CHR ''/'' # t)) \<or> closes_tag s"
  unfolding closes_tag_def by (auto simp: Cons_eq_append_conv)

lemma script_safe_tag:
  "script_safe (CHR ''<'' # CHR ''/'' # t) = CHR ''<'' # CHR 0x5C # CHR ''/'' # script_safe t"
  by (simp add: script_safe_def replace_all_Cons)

lemma script_safe_other:
  "c \<noteq> CHR ''<'' \<or> (\<forall>u. s \<noteq> CHR ''/'' # u) \<Longrightarrow> script_safe (c # s) = c # script_safe s"
  by (cases s) (auto simp: script_safe_def replace_all_Cons)

lemma script_safe_Nil [simp]: "script_safe [] = []"
  by (simp add: script_safe_def)

lemma script_safe_slash: "script_safe s = CHR ''/'' # t \<Longrightarrow> \<exists>u. s = CHR ''/'' # u"
proof (cases s)
  case (Cons c u)
  assume "script_safe s = CHR ''/'' # t"
  with Cons show ?thesis by (cases "c = CHR ''<'' \<and> (\<exists>v. u = CHR ''/'' # v)") (auto simp: script_safe_tag script_safe_other)
qed simp

lemma script_safe_closed: "\<not> closes_tag (script_safe s)"
proof (induction s rule: length_induct)
  case (1 s)
  show ?case
  proof (cases s)
    case Nil
    then show ?thesis by (simp add: closes_tag_def)
  next
    case (Cons c t)
    show ?thesis
    proof (cases "c = CHR ''<'' \<and> (\<exists>u. t = CHR ''/'' # u)")
      case True
      then obtain u where "s = CHR ''<'' # CHR ''/'' # u" using Cons by blast
      moreover from this 1 have "\<not> closes_tag (script_safe u)" by simp
      ultimately show ?thesis by (simp add: script_safe_tag closes_tag_Cons)
    next
      case False
      then have "script_safe s = c # script_safe t" using Cons by (auto simp: script_safe_other)
      moreover have "\<not> closes_tag (script_safe t)" using 1 Cons by simp
      ultimately show ?thesis using False script_safe_slash [of t] by (auto simp: closes_tag_Cons)
    qed
  qed
qed

text \<open>Whatever the samples hold, the data embedded in the page cannot end the script element
  it stands in: the escaped text contains no closing tag.\<close>

theorem script_safe_never_closes:
  "\<not> closes_tag (script_safe (dumps (build_report stamp rundir meta rows)))"
  by (rule script_safe_closed)

end
