(* ===== verification/Soak_Files.thy ===== *)
theory Soak_Files
  imports Json_Text Soak
begin

text \<open>
  The files of a soak run as texts (\<open>soak/record.py\<close>): the lines of \<open>samples.jsonl\<close> as \<open>append\<close> writes and
  \<open>_read_samples\<close> reads them, and the data embedded in the page of the report.  The texts carry what the rows
  of \<open>Soak\<close> carry.  A number is printed by \<open>show\<close>, a character outside ASCII is its UTF-8 bytes.
\<close>

section \<open>The lines of the samples\<close>

definition scalar_json :: "scalar \<Rightarrow> json" where
  "scalar_json v = (case v of Null \<Rightarrow> JNull | Text_of s \<Rightarrow> JStr s | Num x \<Rightarrow> JNum x | Flag b \<Rightarrow> JBool b)"

definition row_json :: "sample_row \<Rightarrow> json" where
  "row_json r = JObj (map (\<lambda>(k, v). (k, scalar_json v)) (row_fields r))"

definition append_line :: "(real \<Rightarrow> string) \<Rightarrow> (int \<Rightarrow> string) \<Rightarrow> tick_env \<Rightarrow> string \<Rightarrow> string" where
  "append_line show stamp te samples = samples @ dumps (plain show) (row_json (sample_of stamp te)) @ [CHR 0x0A]"

text \<open>The lines of an open text file: line ends are normalised, each line keeps its own.\<close>

definition file_lines :: "string \<Rightarrow> string list" where
  "file_lines s =
     (let parts = split_on CHR 0x0A (replace_all [CHR 0x0D] [CHR 0x0A] (replace_all [CHR 0x0D, CHR 0x0A] [CHR 0x0A] s))
      in map (\<lambda>l. l @ [CHR 0x0A]) (butlast parts) @ (if last parts = [] then [] else [last parts]))"

definition json_true :: "json \<Rightarrow> bool" where
  "json_true v = (case v of JNull \<Rightarrow> False | JBool b \<Rightarrow> b | JNum x \<Rightarrow> x \<noteq> 0 | JStr s \<Rightarrow> s \<noteq> ''''
     | JArr xs \<Rightarrow> xs \<noteq> [] | JObj kvs \<Rightarrow> kvs \<noteq> [])"

definition read_sample_file :: "string option \<Rightarrow> json list" where
  "read_sample_file f = (case f of None \<Rightarrow> [] | Some s \<Rightarrow> filter json_true (map jload (file_lines s)))"

text \<open>The row of \<open>Soak\<close> that a dictionary with the fields of \<open>rec\<close> stands for.\<close>

definition scalar_value :: "json \<Rightarrow> scalar option" where
  "scalar_value v = (case v of JNull \<Rightarrow> Some Null | JStr s \<Rightarrow> Some (Text_of s) | JNum x \<Rightarrow> Some (Num x)
     | JBool b \<Rightarrow> Some (Flag b) | _ \<Rightarrow> None)"

definition json_get :: "string \<Rightarrow> json \<Rightarrow> scalar option" where
  "json_get k v = (case v of JObj kvs \<Rightarrow> Option.bind (map_of kvs k) scalar_value | _ \<Rightarrow> None)"

text \<open>An object with those fields and no others.\<close>

definition is_row_of :: "json \<Rightarrow> sample_row \<Rightarrow> bool" where
  "is_row_of v r \<longleftrightarrow> (\<forall>k. json_get k v = map_of (row_fields r) k)"

section \<open>What is appended is read back\<close>

lemma replace_all_absent: "c \<notin> set s \<Longrightarrow> replace_all (c # cs) new s = s"
  by (induction s) (auto simp: replace_all_Cons)

lemma file_lines_plain:
  assumes "CHR 0x0D \<notin> set s"
  shows "file_lines s = (let parts = split_on CHR 0x0A s
     in map (\<lambda>l. l @ [CHR 0x0A]) (butlast parts) @ (if last parts = [] then [] else [last parts]))"
  by (simp add: file_lines_def replace_all_absent [OF assms])

lemma file_lines_of_lines:
  assumes "list_all (\<lambda>l. CHR 0x0A \<notin> set l \<and> CHR 0x0D \<notin> set l) ls"
  shows "file_lines (concat (map (\<lambda>l. l @ [CHR 0x0A]) ls)) = map (\<lambda>l. l @ [CHR 0x0A]) ls"
proof -
  have parts: "split_on CHR 0x0A (concat (map (\<lambda>l. l @ [CHR 0x0A]) ls)) = ls @ [[]]"
    using assms by (induction ls) (simp_all add: split_on_append)
  have "CHR 0x0D \<notin> set (concat (map (\<lambda>l. l @ [CHR 0x0A]) ls))" using assms by (auto simp: list_all_iff)
  from file_lines_plain [OF this] show ?thesis by (simp add: parts)
qed

text \<open>The printer never writes a line end: control characters are escaped.\<close>

definition one_line :: "string \<Rightarrow> bool" where
  "one_line s \<longleftrightarrow> CHR 0x0A \<notin> set s \<and> CHR 0x0D \<notin> set s"

lemma one_line_append [simp]: "one_line (a @ b) \<longleftrightarrow> one_line a \<and> one_line b" "one_line []"
  by (auto simp: one_line_def)

lemma one_line_Cons: "one_line (c # s) \<longleftrightarrow> c \<noteq> CHR 0x0A \<and> c \<noteq> CHR 0x0D \<and> one_line s"
  by (auto simp: one_line_def)

lemma one_line_join: "one_line sep \<Longrightarrow> list_all one_line ts \<Longrightarrow> one_line (join_with sep ts)"
  by (induction sep ts rule: join_with.induct) auto

lemma one_line_escape: "one_line (escape s)"
proof -
  have "one_line (escape_char c)" for c
    using high_half [of c] hex_digit_not [of "of_char c div 16"] hex_digit_not [of "of_char c mod 16"]
    by (auto simp: escape_char_def one_line_Cons hex_val_def is_digit_def)
  then show ?thesis by (induction s) (simp_all add: escape_def)
qed

lemma one_line_dumps: "printable (plain show) v \<Longrightarrow> one_line (dumps (plain show) v)"
proof (induction v)
  case (JNum x)
  then have "list_all number_char (show x)" using json_number_chars(1) by (simp add: plain_def)
  then show ?case by (auto simp: plain_def one_line_def list_all_iff number_char_def is_digit_def)
next
  case (JStr s)
  then show ?case using one_line_escape [of s] by (simp add: quoted_def plain_def one_line_Cons)
next
  case (JArr xs)
  then have "list_all one_line (map (dumps (plain show)) xs)" by (simp add: list_all_iff)
  from one_line_join [OF _ this, of "pr_item (plain show)"] show ?case by (simp add: one_line_Cons plain_def)
next
  case (JObj kvs)
  have "one_line (member_text (plain show) kv)" if "kv \<in> set kvs" for kv
    using JObj.IH [OF that, of "snd kv"] JObj.prems that one_line_escape [of "fst kv"]
    by (cases kv) (auto simp: member_text_def list_all_iff quoted_def one_line_Cons plain_def snds.simps)
  then have "list_all one_line (map (member_text (plain show)) kvs)" by (simp add: list_all_iff)
  from one_line_join [OF _ this, of "pr_item (plain show)"] show ?case
    by (simp add: dumps_JObj one_line_Cons plain_def)
qed (simp_all add: one_line_def)


lemma jload_line: "printable (plain show) v \<Longrightarrow> jload (dumps (plain show) v @ [CHR 0x0A]) = v"
proof -
  assume v: "printable (plain show) v"
  obtain c t where ct: "dumps (plain show) v = c # t" "\<not> is_space c" using plain.dumps_head [OF v] by blast
  have "loads (dumps (plain show) v @ [CHR 0x0A]) = Ret v"
    using plain.loads_dumps_space [OF v, of "[CHR 0x0A]"] by (simp add: plain_def json_space_def)
  moreover have "strip (dumps (plain show) v @ [CHR 0x0A]) \<noteq> []"
    using ct by (simp add: strip_def dropWhile_eq_Nil_conv)
  ultimately show ?thesis by (simp add: jload_def)
qed

lemma row_json_facts: "json_true (row_json r)" "is_row_of (row_json r) r"
proof -
  have "scalar_value (scalar_json x) = Some x" for x by (cases x) (simp_all add: scalar_value_def scalar_json_def)
  then have "Option.bind (map_of (map (\<lambda>(k, v). (k, scalar_json v)) l) k) scalar_value = map_of l k" for k :: string and l
    by (induction l) auto
  then show "is_row_of (row_json r) r" by (simp add: is_row_of_def json_get_def row_json_def)
  show "json_true (row_json r)" by (simp add: json_true_def row_json_def row_fields_def)
qed

lemma line_ends:
  "s = '''' \<or> last s = CHR 0x0A \<Longrightarrow>
     \<exists>ls. list_all (\<lambda>l. CHR 0x0A \<notin> set l) ls \<and> s = concat (map (\<lambda>l. l @ [CHR 0x0A]) ls)"
proof (induction s)
  case Nil
  show ?case by (rule exI [of _ "[]"]) simp
next
  case (Cons x s)
  from Cons obtain ls where ls: "list_all (\<lambda>l. CHR 0x0A \<notin> set l) ls" "s = concat (map (\<lambda>l. l @ [CHR 0x0A]) ls)"
    by (auto split: if_splits)
  show ?case
  proof (cases "x = CHR 0x0A")
    case True
    with ls show ?thesis by (intro exI [of _ "[] # ls"]) simp
  next
    case False
    with Cons.prems have "s \<noteq> []" by auto
    with ls obtain l ls' where "ls = l # ls'" by (cases ls) auto
    with ls False show ?thesis by (intro exI [of _ "(x # l) # ls'"]) auto
  qed
qed

lemma file_lines_append:
  assumes "CHR 0x0D \<notin> set old" and "old = '''' \<or> last old = CHR 0x0A" and "list_all one_line ls"
  shows "file_lines (old @ concat (map (\<lambda>l. l @ [CHR 0x0A]) ls)) = file_lines old @ map (\<lambda>l. l @ [CHR 0x0A]) ls"
proof -
  obtain os where os: "list_all (\<lambda>l. CHR 0x0A \<notin> set l) os" "old = concat (map (\<lambda>l. l @ [CHR 0x0A]) os)"
    using line_ends [OF assms(2)] by blast
  then have os': "list_all (\<lambda>l. CHR 0x0A \<notin> set l \<and> CHR 0x0D \<notin> set l) os"
    using assms(1) by (force simp: list_all_iff split: if_splits)
  have "old @ concat (map (\<lambda>l. l @ [CHR 0x0A]) ls) = concat (map (\<lambda>l. l @ [CHR 0x0A]) (os @ ls))" by (simp add: os(2))
  moreover have "list_all (\<lambda>l. CHR 0x0A \<notin> set l \<and> CHR 0x0D \<notin> set l) (os @ ls)"
    using os' assms(3) unfolding one_line_def list_all_append by blast
  ultimately show ?thesis using file_lines_of_lines [OF os'] file_lines_of_lines [of "os @ ls"] by (simp add: os(2))
qed

definition append_lines :: "(real \<Rightarrow> string) \<Rightarrow> (int \<Rightarrow> string) \<Rightarrow> tick_env list \<Rightarrow> string \<Rightarrow> string" where
  "append_lines show stamp ticks old = foldl (\<lambda>s te. append_line show stamp te s) old ticks"

lemma append_lines_concat:
  "append_lines show stamp ticks old =
     old @ concat (map (\<lambda>l. l @ [CHR 0x0A]) (map (\<lambda>te. dumps (plain show) (row_json (sample_of stamp te))) ticks))"
  by (induction ticks arbitrary: old) (simp_all add: append_lines_def append_line_def)

text \<open>C36 (roundtrip).  The samples file: after any ticks, appended to whatever lines the file had, reading gives
  what it gave before followed by one dictionary per tick, in order, with every field of the
  sample as it was taken; so a garbled line is skipped and harms no other, and the texts hold what
  the report is built from.\<close>

theorem sample_file_roundtrip:
  assumes "list_all (\<lambda>te. printable (plain show) (row_json (sample_of stamp te))) ticks"
    and "CHR 0x0D \<notin> set old" and "old = '''' \<or> last old = CHR 0x0A"
  shows "read_sample_file (Some (append_lines show stamp ticks old)) =
      read_sample_file (Some old) @ map (\<lambda>te. row_json (sample_of stamp te)) ticks \<and>
    list_all2 is_row_of (map (\<lambda>te. row_json (sample_of stamp te)) ticks) (read_samples (record_run stamp ticks))"
proof
  let ?ls = "map (\<lambda>te. dumps (plain show) (row_json (sample_of stamp te))) ticks"
  have "list_all one_line ?ls" using assms(1) one_line_dumps by (simp add: list_all_iff)
  note lines = file_lines_append [OF assms(2,3) this]
  have "filter json_true (map (jload \<circ> (\<lambda>l. l @ [CHR 0x0A])) ?ls) = map (\<lambda>te. row_json (sample_of stamp te)) ticks"
    using assms(1) by (induction ticks) (simp_all add: jload_line row_json_facts(1))
  then have "filter json_true (map jload (file_lines old @ map (\<lambda>l. l @ [CHR 0x0A]) ?ls)) =
      filter json_true (map jload (file_lines old)) @ map (\<lambda>te. row_json (sample_of stamp te)) ticks"
    by (simp only: map_append map_map filter_append o_assoc)
  then show "read_sample_file (Some (append_lines show stamp ticks old)) =
      read_sample_file (Some old) @ map (\<lambda>te. row_json (sample_of stamp te)) ticks"
    unfolding read_sample_file_def append_lines_concat lines option.case .
  have "read_samples (record_run stamp ticks) = map (sample_of stamp) ticks"
    by (simp add: read_samples_def record_run_samples List.map_filter_def comp_def)
  then show "list_all2 is_row_of (map (\<lambda>te. row_json (sample_of stamp te)) ticks) (read_samples (record_run stamp ticks))"
    by (simp add: list_all2_map1 list_all2_map2 list_all2_same row_json_facts(2))
qed


definition short_tick :: tick_env where
  "short_tick = \<lparr>te_now = 7, te_phase = ''S1'', te_cycle = ''1'', te_graph = None, te_narrative = None\<rparr>"

theorem sample_file_roundtrip_witness:
  "read_sample_file (Some (append_lines show_round2 (\<lambda>_. ''t'') [short_tick, short_tick] (''garbled'' @ [CHR 0x0A]))) =
     read_sample_file (Some (''garbled'' @ [CHR 0x0A])) @ replicate 2 (row_json (sample_of (\<lambda>_. ''t'') short_tick))"
proof -
  have "sample_of (\<lambda>_. ''t'') short_tick = blank_row (\<lambda>_. ''t'') short_tick"
    by (simp add: sample_of_def short_tick_def)
  then have "printable (plain show_round2) (row_json (sample_of (\<lambda>_. ''t'') short_tick))"
    using show_round2_readable [of 700]
    by (simp add: row_json_def row_fields_def blank_row_def short_tick_def scalar_json_def plain_def Let_def)
  then have "list_all (\<lambda>te. printable (plain show_round2) (row_json (sample_of (\<lambda>_. ''t'') te))) [short_tick, short_tick]"
    by simp
  from sample_file_roundtrip [OF this, of "''garbled'' @ [CHR 0x0A]"] show ?thesis
    by (simp add: numeral_2_eq_2)
qed


section \<open>The data of the page\<close>

text \<open>The meta data of a run that could be read.\<close>

definition meta_of :: "run_dir \<Rightarrow> run_meta option" where
  "meta_of d = (case rd_meta d of Meta m \<Rightarrow> Some m | _ \<Rightarrow> None)"

definition NOTE :: "(string \<times> string) list" where
  "NOTE =
     [(''S1'', ''Hero path '' @ EM_DASH @ '' expect root = cooling-monitor.''),
      (''S2'', ''Known gap: may mis-root to a held backbone edge (a no-baseline CronJob source). See BOOK '' @
         [CHR 0xC2, CHR 0xA7] @ ''4.2.''),
      (''S3'', ''Out of scope on this box (CPU physics can'' @ [CHR 0x27] @ ''t starve co-residents) '' @ EM_DASH @
         '' the engine stays honestly quiet.''),
      (''S5'', ''Self-caused leak '' @ EM_DASH @
         '' success = OOM forecast fires BEFORE the kill (no causal root expected).'')]"

definition number_json :: "real option \<Rightarrow> json" where
  "number_json x = (case x of None \<Rightarrow> JNull | Some r \<Rightarrow> JNum r)"

definition summary_json :: "string \<Rightarrow> summary \<Rightarrow> json" where
  "summary_json generated s = JObj
     [(''run_id'', JStr (su_run_id s)), (''started_iso'', JStr (su_started_iso s)), (''ended_iso'', JStr (su_ended_iso s)),
      (''duration_min'', JNum (su_duration_min s)), (''n_samples'', JNum (real (su_samples s))),
      (''n_cycles'', JNum (real (su_cycles s))), (''scenarios'', JStr (su_scenarios s)),
      (''generated_iso'', JStr generated)]"

definition rollup_json :: "string \<Rightarrow> rollup \<Rightarrow> json" where
  "rollup_json s u = JObj
     [(''cycles'', JNum (real (ru_cycles u))), (''samples'', JNum (real (ru_samples u))),
      (''detect_rate'', JNum (ru_detect_rate u)), (''correct_rate'', JNum (ru_correct_rate u)),
      (''dominant_root'', JStr (ru_dominant u)), (''dominant_n'', JNum (real (ru_dominant_n u))),
      (''expected'', JStr (ru_expected u)), (''oom_cycle_rate'', JNum (ru_oom_cycle_rate u)),
      (''min_oom_eta_s'', number_json (ru_min_eta u)),
      (''median_ttd_s'', number_json (map_option of_int (ru_median_ttd u))),
      (''note'', JStr (the (map_of NOTE s)))]"

definition point_json :: "series_point \<Rightarrow> json" where
  "point_json x = JObj
     [(''epoch'', JNum (of_int (sp_epoch x))), (''t'', JStr (sp_t x)), (''phase'', JStr (sp_phase x)),
      (''cycle'', JStr (sp_cycle x)), (''n_edges'', JNum (sp_edges x)), (''n_findings'', JNum (sp_findings x)),
      (''root'', JStr (sp_root x)), (''matched'', (case sp_matched x of None \<Rightarrow> JNull | Some b \<Rightarrow> JBool b)),
      (''oom'', number_json (sp_oom x))]"

definition event_json :: "report_event \<Rightarrow> json" where
  "event_json e = JObj [(''t'', JStr (ev_t e)),
     (''kind'', JStr (case ev_kind e of Detect \<Rightarrow> ''detect'' | Oom \<Rightarrow> ''oom'')), (''text'', JStr (ev_text e))]"

definition report_json :: "string \<Rightarrow> report \<Rightarrow> json" where
  "report_json generated r = JObj
     [(''summary'', summary_json generated (rp_summary r)),
      (''per_scenario'', JObj (map (\<lambda>(s, u). (s, rollup_json s u)) (rp_scenarios r))),
      (''series'', JArr (map point_json (rp_series r))), (''events'', JArr (map event_json (rp_events r))),
      (''scen_order'', JArr (map JStr SCEN_ORDER))]"

definition report_blob :: "(real \<Rightarrow> string) \<Rightarrow> string \<Rightarrow> report \<Rightarrow> string" where
  "report_blob show generated r = script_safe (dumps (plain show) (report_json generated r))"

text \<open>Escaping the texts of a page is printing with another encoding of strings.\<close>

definition page_printer :: "(real \<Rightarrow> string) \<Rightarrow> printer" where
  "page_printer show = (plain show)\<lparr>pr_text := \<lambda>s. script_safe (escape s)\<rparr>"

lemma script_safe_append:
  "a = [] \<or> last a \<noteq> CHR ''<'' \<or> (\<forall>u. b \<noteq> CHR ''/'' # u) \<Longrightarrow> script_safe (a @ b) = script_safe a @ script_safe b"
proof (induction a rule: length_induct)
  case (1 a)
  show ?case
  proof (cases a)
    case (Cons c t)
    show ?thesis
    proof (cases "c = CHR ''<'' \<and> (\<exists>u. t = CHR ''/'' # u)")
      case True
      then obtain u where u: "a = CHR ''<'' # CHR ''/'' # u" using Cons by blast
      with 1 have "script_safe (u @ b) = script_safe u @ script_safe b" by (auto split: if_splits)
      with u show ?thesis by (simp add: script_safe_tag)
    next
      case False
      have ih: "script_safe (t @ b) = script_safe t @ script_safe b" using 1 Cons by (auto split: if_splits)
      have "c \<noteq> CHR ''<'' \<or> (\<forall>u. t @ b \<noteq> CHR ''/'' # u)" using False 1(2) Cons by (cases t) auto
      then have "script_safe (c # t @ b) = c # script_safe (t @ b)" by (rule script_safe_other)
      moreover from False have "script_safe (c # t) = c # script_safe t" by (intro script_safe_other) blast
      ultimately show ?thesis using ih Cons by simp
    qed
  qed simp
qed

lemma script_safe_id: "CHR ''<'' \<notin> set s \<Longrightarrow> script_safe s = s"
  by (induction s) (auto simp: script_safe_other)

lemma escape_char_lt: "c \<noteq> CHR ''<'' \<Longrightarrow> CHR ''<'' \<notin> set (escape_char c)"
  using hex_digit_not [of "of_char c div 16" "CHR ''<''"] hex_digit_not [of "of_char c mod 16" "CHR ''<''"]
    high_half [of c] by (auto simp: escape_char_def hex_val_def is_digit_def)

lemma escape_slash: "escape s = CHR ''/'' # u \<Longrightarrow> \<exists>t. s = CHR ''/'' # t"
  by (cases s) (auto simp: escape_def escape_char_def split: if_splits)

lemma escape_Cons: "escape (c # s) = escape_char c @ escape s"
  by (simp add: escape_def)

interpretation script_safe: string_codec "\<lambda>s. script_safe (escape s)"
proof
  show "read_string (script_safe (escape s) @ CHR 0x22 # r) = Some (s, r)" for s r
  proof (induction s rule: length_induct)
    case (1 s)
    show ?case
    proof (cases s)
      case Nil
      then show ?thesis by (simp add: escape_def)
    next
      case (Cons c t)
      have ih: "read_string (script_safe (escape u) @ CHR 0x22 # r) = Some (u, r)" if "length u < length s" for u
        using 1 that by blast
      have lt: "escape_char (CHR ''<'') = ''<''" "escape_char (CHR ''/'') = ''/''" by (simp_all add: escape_char_def)
      consider "c \<noteq> CHR ''<''" | "c = CHR ''<''" "\<forall>u. escape t \<noteq> CHR ''/'' # u" | u where "c = CHR ''<''" "t = CHR ''/'' # u"
        using escape_slash by blast
      then show ?thesis
      proof cases
        case 1
        then have "script_safe (escape s) = escape_char c @ script_safe (escape t)"
          using escape_char_lt [OF 1] script_safe_append [of "escape_char c" "escape t"]
          by (simp add: Cons escape_Cons script_safe_id) (metis last_in_set)
        then show ?thesis using ih [of t] Cons by (simp add: read_escape_char)
      next
        case 2
        then have "script_safe (escape s) = CHR ''<'' # script_safe (escape t)"
          by (simp add: Cons escape_Cons lt script_safe_other)
        then show ?thesis using ih [of t] Cons 2(1) by simp
      next
        case 3
        then have "script_safe (escape s) = CHR ''<'' # CHR 0x5C # CHR ''/'' # script_safe (escape u)"
          by (simp add: Cons escape_Cons lt script_safe_tag)
        then show ?thesis using ih [of u] Cons 3 by (simp add: unescape_def)
      qed
    qed
  qed
qed

interpretation page: json_printer "page_printer show" for "show"
  by unfold_locales (simp_all add: page_printer_def plain_def script_safe.read_enc json_space_def)


lemma page_printers [simp]:
  "pr_show (plain show) = show" "pr_text (plain show) = escape" "pr_item (plain show) = '', ''"
  "pr_key (plain show) = '': ''" "\<not> pr_sorted (plain show)"
  "pr_show (page_printer show) = show" "pr_text (page_printer show) = (\<lambda>s. script_safe (escape s))" "pr_item (page_printer show) = '', ''"
  "pr_key (page_printer show) = '': ''" "\<not> pr_sorted (page_printer show)"
  by (simp_all add: plain_def page_printer_def)

definition open_end :: "string \<Rightarrow> bool" where
  "open_end s \<longleftrightarrow> s \<noteq> [] \<and> last s = CHR ''<''"

lemma script_safe_append_closed: "\<not> open_end a \<Longrightarrow> script_safe (a @ b) = script_safe a @ script_safe b"
  by (rule script_safe_append) (auto simp: open_end_def)

lemma script_safe_Cons: "c \<noteq> CHR ''<'' \<Longrightarrow> script_safe (c # s) = c # script_safe s"
  by (simp add: script_safe_other)

lemma script_safe_quoted:
  "script_safe (quoted (plain show) s @ b) = quoted (page_printer show) s @ script_safe b"
proof -
  have "script_safe (escape s @ CHR 0x22 # b) = script_safe (escape s) @ CHR 0x22 # script_safe b"
    by (subst script_safe_append) (simp_all add: script_safe_Cons)
  then show ?thesis by (simp add: quoted_def script_safe_Cons)
qed

lemma script_safe_join:
  "CHR ''<'' \<notin> set sep \<Longrightarrow> list_all (\<lambda>t. \<not> open_end t) ts \<Longrightarrow> script_safe (join_with sep ts @ b) =
    (if ts = [] then script_safe b else join_with sep (map script_safe ts) @ script_safe b)"
proof (induction sep ts rule: join_with.induct)
  case (2 sep s)
  then show ?case by (simp add: script_safe_append_closed)
next
  case (3 sep s t ts)
  from 3(2) have "\<not> open_end sep" using last_in_set by (fastforce simp: open_end_def)
  with 3 show ?case by (simp add: script_safe_append_closed script_safe_id)
qed simp

lemma dumps_closed: "printable (plain show) v \<Longrightarrow> \<not> open_end (dumps (plain show) v)"
proof (cases v)
  case (JNum x)
  assume "printable (plain show) v"
  then have "list_all number_char (show x)" using json_number_chars(1) JNum by simp
  then have "show x \<noteq> [] \<Longrightarrow> number_char (last (show x))" by (simp add: list_all_iff)
  then show ?thesis using JNum by (auto simp: open_end_def number_char_def is_digit_def)
qed (auto simp: open_end_def quoted_def dumps_JObj)

lemma script_safe_dumps: "printable (plain show) v \<Longrightarrow> script_safe (dumps (plain show) v) = dumps (page_printer show) v"
proof (induction v)
  case (JNum x)
  then have "list_all number_char (show x)" using json_number_chars(1) by simp
  then have "CHR ''<'' \<notin> set (show x)" by (auto simp: list_all_iff number_char_def is_digit_def)
  then show ?case by (simp add: script_safe_id)
next
  case (JStr s)
  show ?case using script_safe_quoted [of "show" s "[]"] by simp
next
  case (JArr xs)
  have "list_all (\<lambda>t. \<not> open_end t) (map (dumps (plain show)) xs)"
    using JArr.prems dumps_closed by (simp add: list_all_iff)
  moreover have "map script_safe (map (dumps (plain show)) xs) = map (dumps (page_printer show)) xs"
    using JArr by (simp add: list_all_iff)
  ultimately show ?case
    by (simp add: script_safe_Cons script_safe_join del: map_map)
next
  case (JObj kvs)
  have "script_safe (member_text (plain show) kv) = member_text (page_printer show) kv \<and> \<not> open_end (member_text (plain show) kv)"
    if "kv \<in> set kvs" for kv
  proof -
    have p: "printable (plain show) (snd kv)" using JObj.prems that by (simp add: list_all_iff)
    then have ih: "script_safe (dumps (plain show) (snd kv)) = dumps (page_printer show) (snd kv)"
      using JObj.IH [OF that, of "snd kv"] by (cases kv) (simp add: snds.simps)
    have "script_safe (member_text (plain show) kv) = quoted (page_printer show) (fst kv) @ script_safe (pr_key (plain show) @ dumps (plain show) (snd kv))"
      by (simp add: member_text_def script_safe_quoted)
    also have "script_safe (pr_key (plain show) @ dumps (plain show) (snd kv)) = pr_key (page_printer show) @ dumps (page_printer show) (snd kv)"
      using ih by (simp add: script_safe_Cons)
    finally have "script_safe (member_text (plain show) kv) = member_text (page_printer show) kv" by (simp add: member_text_def)
    moreover obtain c t where "dumps (plain show) (snd kv) = c # t" using plain.dumps_head [OF p] by blast
    then have "\<not> open_end (member_text (plain show) kv)"
      using dumps_closed [OF p] by (simp add: member_text_def open_end_def)
    ultimately show ?thesis by blast
  qed
  then have "list_all (\<lambda>t. \<not> open_end t) (map (member_text (plain show)) kvs)"
    "map script_safe (map (member_text (plain show)) kvs) = map (member_text (page_printer show)) kvs"
    by (simp_all add: list_all_iff)
  then show ?case
    by (simp add: dumps_JObj script_safe_Cons script_safe_join del: map_map)
qed (simp_all add: script_safe_Cons)

lemma printable_page: "printable (page_printer show) v = printable (plain show) v"
  by (induction v) (auto simp: list_all_iff)

lemma loads_script_safe: "printable (plain show) v \<Longrightarrow> loads (script_safe (dumps (plain show) v)) = Ret v"
  using page.loads_dumps [of "show" v] by (simp add: script_safe_dumps printable_page)


text \<open>C37 (roundtrip).  The page of the report: whatever text the samples hold, the data put into the page cannot
  end the script element it stands in, and the page reads back exactly the report that was built -
  the escaping changes no value.\<close>

theorem report_page_faithful:
  assumes "cmd_report stamp (\<lambda>r. dumps (plain show) (report_json generated r)) rundir (Some html) d = Ret d'"
    and "printable (plain show) (report_json generated (build_report stamp rundir (meta_of d) (read_samples d)))"
  shows "\<exists>blob. rd_report d' = Some (embed html blob) \<and> \<not> closes_tag blob \<and>
    loads blob = Ret (report_json generated (build_report stamp rundir (meta_of d) (read_samples d)))"
proof -
  let ?r = "build_report stamp rundir (meta_of d) (read_samples d)"
  have "rd_report d' = Some (embed html (report_blob show generated ?r))"
    using assms(1) by (auto simp: cmd_report_def report_blob_def meta_of_def Let_def split: meta_file.splits)
  moreover have "\<not> closes_tag (report_blob show generated ?r)"
    unfolding report_blob_def by (rule script_safe_closed)
  moreover have "loads (report_blob show generated ?r) = Ret (report_json generated ?r)"
    unfolding report_blob_def by (rule loads_script_safe [OF assms(2)])
  ultimately show ?thesis by blast
qed

lemma report_of_nothing:
  "build_report stamp rundir None [] = \<lparr>rp_summary = summarise stamp rundir None [],
     rp_scenarios = map (\<lambda>s. (s, scenario_rollup [] s)) SCEN_ORDER, rp_series = [], rp_events = []\<rparr>"
  by (simp add: build_report_def report_events_def tail_slice_def)

theorem report_page_faithful_witness:
  "\<exists>d' blob. cmd_report (\<lambda>_. ''t'') (\<lambda>r. dumps (plain show_round2) (report_json ''now'' r)) ''runs/a''
      (Some ''__SOAK_DATA__'') empty_run = Ret d' \<and> rd_report d' = Some (embed ''__SOAK_DATA__'' blob) \<and> \<not> closes_tag blob"
proof -
  have zero: "json_number (show_round2 0)" "parse_float (show_round2 0) = Some 0"
    using show_round2_readable [of 0] by simp_all
  have rollup: "scenario_rollup [] s = \<lparr>ru_cycles = 0, ru_samples = 0, ru_detect_rate = 0, ru_correct_rate = 0,
      ru_dominant = EM_DASH, ru_dominant_n = 0,
      ru_expected = (case expected s of None \<Rightarrow> ''(no root '' @ EM_DASH @ '' OOM forecast)'' | Some e \<Rightarrow> e),
      ru_oom_cycle_rate = 0, ru_min_eta = None, ru_median_ttd = None\<rparr>" for s
    by (simp add: scenario_rollup_def sorted_set_def dominant_def rate_def)
  have empty_facts: "meta_of empty_run = None" "read_samples empty_run = []"
    by (simp_all add: meta_of_def empty_run_def read_samples_def)
  have "printable (plain show_round2) (report_json ''now'' (build_report (\<lambda>_. ''t'') ''runs/a'' None []))"
    unfolding report_of_nothing
    by (simp add: report_json_def summary_json_def rollup_json_def summarise_def sorted_set_def rollup
        number_json_def SCEN_ORDER_def zero)
  then have p: "printable (plain show_round2) (report_json ''now''
      (build_report (\<lambda>_. ''t'') ''runs/a'' (meta_of empty_run) (read_samples empty_run)))"
    unfolding empty_facts .
  obtain d' where d: "cmd_report (\<lambda>_. ''t'') (\<lambda>r. dumps (plain show_round2) (report_json ''now'' r)) ''runs/a''
      (Some ''__SOAK_DATA__'') empty_run = Ret d'"
    by (simp add: cmd_report_def empty_run_def)
  from report_page_faithful [OF d p] d show ?thesis by blast
qed

end
