(* ===== verification/Workloads.thy ===== *)
theory Workloads
  imports Text "HOL-Library.Sublist"
begin

text \<open>
  The simulated factory (\<open>workloads/\<close>), the programs whose faults the engine has to explain:
  \<open>telemetry-ingest\<close> with its bounded queue, \<open>vision-qc\<close> with its cache, \<open>cooling-monitor\<close> with its flush
  flag, \<open>analytics-batch\<close> with its timed burst.  Threads are interleaved as lists of events, the clock
  is part of the event or a parameter.  The MQTT and database connections, the Prometheus server
  and the prints are outside the model.
\<close>

section \<open>The queue of the standard library\<close>

text \<open>\<open>queue.Queue(maxsize)\<close> as its clients see it: \<open>put_nowait\<close> fails (\<open>queue.Full\<close>) on a full queue, \<open>get\<close> and
  \<open>get_nowait\<close> take the oldest element, if there is one.\<close>

locale bounded_fifo =
  fixes put :: "'a \<Rightarrow> 'q \<Rightarrow> 'q option" and get :: "'q \<Rightarrow> ('a \<times> 'q) option"
    and contents :: "'q \<Rightarrow> 'a list" and room :: nat
  assumes put_iff: "put x q = None \<longleftrightarrow> room \<le> length (contents q)"
    and put_last: "put x q = Some q' \<Longrightarrow> contents q' = contents q @ [x]"
    and get_iff: "get q = None \<longleftrightarrow> contents q = []"
    and get_first: "get q = Some (x, q') \<Longrightarrow> contents q = x # contents q'"
begin

definition offer :: "'a \<Rightarrow> 'q \<Rightarrow> 'q" where
  "offer x q = (case put x q of None \<Rightarrow> q | Some q' \<Rightarrow> q')"

lemma offer_contents: "contents (offer x q) = contents q @ (if length (contents q) < room then [x] else [])"
  using put_iff [of x q] put_last [of x q] by (cases "put x q") (auto simp: offer_def)

lemma offer_bounded: "length (contents q) \<le> room \<Longrightarrow> length (contents (offer x q)) \<le> room"
  by (simp add: offer_contents)

lemma get_bounded: "get q = Some (x, q') \<Longrightarrow> length (contents q) \<le> room \<Longrightarrow> length (contents q') < room"
  using get_first [of q x q'] by simp

end

definition put_nowait :: "nat \<Rightarrow> 'a \<Rightarrow> 'a list \<Rightarrow> 'a list option" where
  "put_nowait maxsize x q = (if length q < maxsize then Some (q @ [x]) else None)"

definition get_nowait :: "'a list \<Rightarrow> ('a \<times> 'a list) option" where
  "get_nowait q = (case q of [] \<Rightarrow> None | x # q' \<Rightarrow> Some (x, q'))"

interpretation fifo: bounded_fifo "put_nowait maxsize" get_nowait "\<lambda>q. q" maxsize for maxsize
  by unfold_locales (auto simp: put_nowait_def get_nowait_def split: list.splits if_splits)

section \<open>telemetry-ingest\<close>

definition QUEUE_MAX :: nat where "QUEUE_MAX = 50000"
definition BATCH_MAX :: nat where "BATCH_MAX = 500"

record reading =
  rg_time :: real
  rg_topic :: string
  rg_payload :: string

text \<open>The queue shared by the MQTT callback and the writer thread, the batch the writer holds (empty while
  it waits in the first \<open>Q.get()\<close>), the table and the two metrics.\<close>

record ingest_state =
  ig_queue :: "reading list"
  ig_batch :: "reading list"
  ig_table :: "reading list"
  ig_inserted :: nat
  ig_depth :: nat

definition ingest_start :: ingest_state where
  "ingest_start = \<lparr>ig_queue = [], ig_batch = [], ig_table = [], ig_inserted = 0, ig_depth = 0\<rparr>"

text \<open>\<open>on_msg\<close>: a payload that does not decode raises in the callback; a full queue drops the message.\<close>

definition on_msg :: "real \<Rightarrow> string \<Rightarrow> string option \<Rightarrow> ingest_state \<Rightarrow> ingest_state outcome" where
  "on_msg now topic payload st =
     (case payload of
        None \<Rightarrow> Raise (OtherError ''UnicodeDecodeError'')
      | Some p \<Rightarrow>
          (case put_nowait QUEUE_MAX \<lparr>rg_time = now, rg_topic = topic, rg_payload = p\<rparr> (ig_queue st) of
             None \<Rightarrow> Ret st
           | Some q \<Rightarrow> Ret (st\<lparr>ig_queue := q\<rparr>)))"

text \<open>\<open>Q.get()\<close> for the first row of a batch, \<open>Q.get_nowait()\<close> for the others; the writer waits or stops
  filling when the queue is empty.\<close>

definition take_row :: "ingest_state \<Rightarrow> ingest_state" where
  "take_row st =
     (if length (ig_batch st) < BATCH_MAX
      then (case get_nowait (ig_queue st) of
              None \<Rightarrow> st
            | Some (r, q) \<Rightarrow> st\<lparr>ig_queue := q, ig_batch := ig_batch st @ [r]\<rparr>)
      else st)"

text \<open>\<open>executemany\<close>, \<open>commit\<close> and the metrics, once a batch is full, the queue is empty or a second is over.\<close>

definition commit_batch :: "ingest_state \<Rightarrow> ingest_state" where
  "commit_batch st =
     (if ig_batch st = [] then st
      else st\<lparr>ig_batch := [], ig_table := ig_table st @ ig_batch st,
              ig_inserted := ig_inserted st + length (ig_batch st), ig_depth := length (ig_queue st)\<rparr>)"

text \<open>An exception of the database: reconnect, with the local \<open>batch\<close> gone.\<close>

definition writer_error :: "ingest_state \<Rightarrow> ingest_state" where
  "writer_error st = st\<lparr>ig_batch := []\<rparr>"

datatype ingest_event = Arrive real string "string option" | Take_row | Commit_batch | Writer_error

fun ingest_step :: "ingest_state \<Rightarrow> ingest_event \<Rightarrow> ingest_state" where
  "ingest_step st (Arrive now topic payload) = (case on_msg now topic payload st of Ret st' \<Rightarrow> st' | _ \<Rightarrow> st)"
| "ingest_step st Take_row = take_row st"
| "ingest_step st Commit_batch = commit_batch st"
| "ingest_step st Writer_error = writer_error st"

definition ingest_run :: "ingest_event list \<Rightarrow> ingest_state" where
  "ingest_run evs = foldl ingest_step ingest_start evs"

section \<open>vision-qc\<close>

definition lower_char :: "char \<Rightarrow> char" where
  "lower_char c = (if 65 \<le> (of_char c :: nat) \<and> (of_char c :: nat) \<le> 90 then char_of ((of_char c :: nat) + 32) else c)"

definition leak_enabled :: "string option \<Rightarrow> bool" where
  "leak_enabled environ = (map lower_char (case environ of None \<Rightarrow> ''false'' | Some s \<Rightarrow> s) = ''true'')"

definition CACHE_BOUND :: nat where "CACHE_BOUND = 64"

definition FRAME_BYTES :: nat where "FRAME_BYTES = 640 * 480"

text \<open>The cache is a list when the leak is on, else a \<open>deque\<close> that drops its oldest frame; the second
  component is the gauge.\<close>

definition cache_frame :: "bool \<Rightarrow> 'f \<Rightarrow> 'f list \<times> nat \<Rightarrow> 'f list \<times> nat" where
  "cache_frame leak frame st =
     (let cache = (if leak then fst st @ [frame] else tail_slice CACHE_BOUND (fst st @ [frame]))
      in (cache, length cache))"

definition feed :: "bool \<Rightarrow> 'f list \<Rightarrow> 'f list \<times> nat" where
  "feed leak frames = foldl (\<lambda>st f. cache_frame leak f st) ([], 0) frames"

section \<open>cooling-monitor\<close>

record cooling_config =
  cc_dir :: string
  cc_size :: string
  cc_jobs :: string
  cc_runtime :: string
  cc_fsync :: string
  cc_direct :: string
  cc_lines :: nat
  cc_period :: real
  cc_fsync_every :: nat

definition cooling_default :: cooling_config where
  "cooling_default = \<lparr>cc_dir = ''/shared/cooling'', cc_size = ''512m'', cc_jobs = ''6'', cc_runtime = ''120'',
     cc_fsync = ''1'', cc_direct = ''1'', cc_lines = 10, cc_period = 10, cc_fsync_every = 0\<rparr>"

text \<open>The flag file, the journal file (time and temperature of each line), the counters of \<open>main\<close>, and what
  the process did to the disk: the fsyncs of the journal and the arguments of each \<open>fio\<close> run.\<close>

record cooling_state =
  cs_flag :: bool
  cs_journal :: "(real \<times> real) list"
  cs_writes :: nat
  cs_last :: real
  cs_fsyncs :: nat
  cs_storms :: "string list list"

definition cooling_start :: "bool \<Rightarrow> cooling_state" where
  "cooling_start flag = \<lparr>cs_flag = flag, cs_journal = [], cs_writes = 0, cs_last = 0, cs_fsyncs = 0, cs_storms = []\<rparr>"

definition do_POST :: "string \<Rightarrow> cooling_state \<Rightarrow> cooling_state \<times> nat" where
  "do_POST path st =
     (if rstrip_slash path = ''/flush'' then (st\<lparr>cs_flag := True\<rparr>, 202) else (st, 404))"

definition health_GET :: "string \<Rightarrow> nat" where
  "health_GET path = (if path = ''/healthz'' then 200 else 404)"

definition fio_args :: "cooling_config \<Rightarrow> string list" where
  "fio_args cfg =
     [''fio'', ''--name=thermalflush'', ''--directory='' @ cc_dir cfg, ''--rw=write'', ''--bs=1M'',
      ''--size='' @ cc_size cfg, ''--numjobs='' @ cc_jobs cfg, ''--fsync='' @ cc_fsync cfg,
      ''--direct='' @ cc_direct cfg, ''--ioengine=libaio'', ''--time_based'', ''--runtime='' @ cc_runtime cfg,
      ''--group_reporting'', ''--unlink=1'']"

definition mod_7 :: "real \<Rightarrow> real" where "mod_7 x = x - 7 * of_int \<lfloor>x / 7\<rfloor>"

definition journal :: "cooling_config \<Rightarrow> real \<Rightarrow> cooling_state \<Rightarrow> cooling_state" where
  "journal cfg now st =
     (if now - cs_last st \<ge> cc_period cfg
      then let writes = cs_writes st + 1
           in st\<lparr>cs_journal := replicate (cc_lines cfg) (now, 42 + mod_7 now), cs_writes := writes,
                 cs_fsyncs := cs_fsyncs st + (if cc_fsync_every cfg \<noteq> 0 \<and> writes mod cc_fsync_every cfg = 0 then 1 else 0),
                 cs_last := now\<rparr>
      else st)"

definition storm :: "cooling_config \<Rightarrow> cooling_state \<Rightarrow> cooling_state" where
  "storm cfg st = (if cs_flag st then st\<lparr>cs_flag := False, cs_storms := cs_storms st @ [fio_args cfg]\<rparr> else st)"

datatype cooling_event = Turn real | Post string

fun cooling_step :: "cooling_config \<Rightarrow> cooling_state \<Rightarrow> cooling_event \<Rightarrow> cooling_state" where
  "cooling_step cfg st (Turn now) = storm cfg (journal cfg now st)"
| "cooling_step cfg st (Post path) = fst (do_POST path st)"

definition cooling_run :: "cooling_config \<Rightarrow> bool \<Rightarrow> cooling_event list \<Rightarrow> cooling_state" where
  "cooling_run cfg flag evs = foldl (cooling_step cfg) (cooling_start flag) evs"

section \<open>analytics-batch\<close>

text \<open>The burst multiplies until \<open>BURST_S\<close> have passed; the clock is read before each product.\<close>

definition burst :: "real \<Rightarrow> (nat \<Rightarrow> real) \<Rightarrow> ('m \<Rightarrow> 'm) \<Rightarrow> 'm \<Rightarrow> (nat \<times> 'm) option" where
  "burst burst_s clock multiply a =
     while_option (\<lambda>(k, a). clock (Suc k) - clock 0 < burst_s) (\<lambda>(k, a). (Suc k, multiply a)) (0, a)"

section \<open>Ingest keeps the order and never invents a row\<close>

text \<open>The messages that reached the callback and decoded, in order.\<close>

fun arrivals :: "ingest_event list \<Rightarrow> reading list" where
  "arrivals [] = []"
| "arrivals (Arrive now topic (Some p) # evs) = \<lparr>rg_time = now, rg_topic = topic, rg_payload = p\<rparr> # arrivals evs"
| "arrivals (ev # evs) = arrivals evs"

lemma arrivals_append [simp]: "arrivals (evs @ evs') = arrivals evs @ arrivals evs'"
  by (induction evs rule: arrivals.induct) simp_all

definition rows_held :: "ingest_state \<Rightarrow> reading list" where
  "rows_held st = ig_table st @ ig_batch st @ ig_queue st"

definition ingest_ok :: "ingest_state \<Rightarrow> bool" where
  "ingest_ok st \<longleftrightarrow> length (ig_queue st) \<le> QUEUE_MAX \<and> length (ig_batch st) \<le> BATCH_MAX \<and>
     ig_inserted st = length (ig_table st)"

lemma on_msg_queue:
  "on_msg now topic (Some p) st =
     Ret (st\<lparr>ig_queue := fifo.offer QUEUE_MAX \<lparr>rg_time = now, rg_topic = topic, rg_payload = p\<rparr> (ig_queue st)\<rparr>)"
  by (simp add: on_msg_def fifo.offer_def split: option.split)

lemma on_msg_undecodable: "on_msg now topic None st = Raise (OtherError ''UnicodeDecodeError'')"
  by (simp add: on_msg_def)

lemmas on_msg_simps = on_msg_queue on_msg_undecodable

lemma take_row_cases:
  "take_row st = st \<or> (\<exists>r q. ig_queue st = r # q \<and> length (ig_batch st) < BATCH_MAX \<and>
     take_row st = st\<lparr>ig_queue := q, ig_batch := ig_batch st @ [r]\<rparr>)"
  by (auto simp: take_row_def dest: fifo.get_first split: option.split)

lemma ingest_step_ok:
  assumes "ingest_ok st" shows "ingest_ok (ingest_step st ev)"
proof (cases ev)
  case (Arrive now topic payload)
  with assms show ?thesis
    by (cases payload) (simp_all add: ingest_ok_def on_msg_simps fifo.offer_bounded)
next
  case Take_row
  with assms take_row_cases [of st] show ?thesis by (auto simp: ingest_ok_def)
qed (use assms in \<open>auto simp: ingest_ok_def commit_batch_def writer_error_def\<close>)

lemma ingest_step_rows:
  "rows_held (ingest_step st ev) = rows_held st @ arrivals [ev] \<or> rows_held (ingest_step st ev) = rows_held st \<or>
   rows_held (ingest_step st ev) = ig_table st @ ig_queue st"
proof (cases ev)
  case (Arrive now topic payload)
  then show ?thesis by (cases payload) (simp_all add: on_msg_simps fifo.offer_contents rows_held_def)
next
  case Take_row
  with take_row_cases [of st] show ?thesis by (auto simp: rows_held_def)
qed (auto simp: rows_held_def commit_batch_def writer_error_def)

lemma ingest_step_subseq: "subseq (rows_held (ingest_step st ev)) (rows_held st @ arrivals [ev])"
proof -
  have "subseq (ig_table st @ ig_queue st) (rows_held st)"
    unfolding rows_held_def by (intro list_emb_append_mono) (auto simp: list_emb_append2)
  moreover have "subseq (rows_held st) (rows_held st @ arrivals [ev])" by (simp add: prefix_imp_subseq)
  ultimately show ?thesis using ingest_step_rows [of st ev] by (metis subseq_order.order_refl subseq_order.order_trans)
qed

lemma ingest_run_snoc: "ingest_run (evs @ [ev]) = ingest_step (ingest_run evs) ev"
  by (simp add: ingest_run_def)

lemma ingest_step_keeps:
  assumes "ev \<noteq> Writer_error" and "length (ig_queue st) < QUEUE_MAX \<or> arrivals [ev] = []"
  shows "rows_held (ingest_step st ev) = rows_held st @ arrivals [ev]"
proof (cases ev)
  case (Arrive now topic payload)
  with assms(2) show ?thesis
    by (cases payload) (simp_all add: on_msg_simps fifo.offer_contents rows_held_def)
next
  case Take_row
  with take_row_cases [of st] show ?thesis by (auto simp: rows_held_def)
qed (use assms in \<open>auto simp: rows_held_def commit_batch_def\<close>)

lemma ingest_lossless:
  "Writer_error \<notin> set evs \<Longrightarrow> length (arrivals evs) \<le> QUEUE_MAX \<Longrightarrow> rows_held (ingest_run evs) = arrivals evs"
proof (induction evs rule: rev_induct)
  case Nil
  show ?case by (simp add: ingest_run_def ingest_start_def rows_held_def)
next
  case (snoc ev evs)
  then have ih: "rows_held (ingest_run evs) = arrivals evs" by simp
  have "length (ig_queue (ingest_run evs)) \<le> length (arrivals evs)"
    unfolding ih [symmetric] by (simp add: rows_held_def)
  with snoc.prems(2) have "length (ig_queue (ingest_run evs)) < QUEUE_MAX \<or> arrivals [ev] = []"
    by (cases "arrivals [ev]") auto
  with ingest_step_keeps [of ev "ingest_run evs"] snoc.prems ih show ?case by (auto simp: ingest_run_snoc)
qed



text \<open>A batch taken from the queue does not survive a database error.\<close>

lemma writer_error_loses_batch:
  "rows_held (ingest_run [Arrive 1 ''sensors/a'' (Some ''20.5''), Take_row, Writer_error]) = []"
  by (simp add: ingest_run_def ingest_start_def on_msg_def QUEUE_MAX_def take_row_def BATCH_MAX_def writer_error_def rows_held_def
      put_nowait_def get_nowait_def)

section \<open>The cache is bounded exactly without the leak\<close>

lemma tail_slice_snoc: "0 < k \<Longrightarrow> tail_slice k (tail_slice k xs @ [x]) = tail_slice k (xs @ [x])"
  by (cases "k \<le> length xs") (auto simp: tail_slice_def Suc_diff_le)

theorem feed_cache:
  "feed True frames = (frames, length frames) \<and>
   feed False frames = (if frames = [] then [] else tail_slice CACHE_BOUND frames, min CACHE_BOUND (length frames))"
proof (induction frames rule: rev_induct)
  case (snoc f frames)
  then show ?case
    by (auto simp: feed_def cache_frame_def Let_def tail_slice_snoc CACHE_BOUND_def min_def) 
qed (simp add: feed_def)

section \<open>The cooling monitor is quiet until it is asked\<close>

definition flush_posts :: "cooling_event list \<Rightarrow> cooling_event list" where
  "flush_posts evs = filter (\<lambda>ev. case ev of Post path \<Rightarrow> rstrip_slash path = ''/flush'' | Turn _ \<Rightarrow> False) evs"

lemma cooling_run_snoc: "cooling_run cfg flag (evs @ [ev]) = cooling_step cfg (cooling_run cfg flag evs) ev"
  by (simp add: cooling_run_def)

lemma journal_fields [simp]:
  "cs_flag (journal cfg now st) = cs_flag st" "cs_storms (journal cfg now st) = cs_storms st"
  by (simp_all add: journal_def Let_def)

lemma cooling_run_counts:
  "length (cs_journal (cooling_run cfg flag evs)) \<le> cc_lines cfg \<and>
   length (cs_storms (cooling_run cfg flag evs)) + (if cs_flag (cooling_run cfg flag evs) then 1 else 0)
     \<le> length (flush_posts evs) + (if flag then 1 else 0) \<and>
   set (cs_storms (cooling_run cfg flag evs)) \<subseteq> {fio_args cfg} \<and>
   (cc_fsync_every cfg = 0 \<longrightarrow> cs_fsyncs (cooling_run cfg flag evs) = 0)"
proof (induction evs rule: rev_induct)
  case Nil
  show ?case by (simp add: cooling_run_def cooling_start_def flush_posts_def)
next
  case (snoc ev evs)
  then show ?case
    unfolding cooling_run_snoc
    by (cases ev) (auto simp: storm_def journal_def do_POST_def flush_posts_def Let_def split: if_splits)
qed

text \<open>The cooling monitor is no idle writer: in any interleaving its journal never exceeds its
  lines, with the default configuration it never fsyncs, it runs at most one storm per accepted
  flush request - none at all without one - each with the configured arguments, and a flush
  request is answered by exactly one storm at the next turn of the loop.\<close>

theorem cooling_quiet_until_flush:
  "length (cs_journal (cooling_run cfg flag evs)) \<le> cc_lines cfg \<and>
   (cc_fsync_every cfg = 0 \<longrightarrow> cs_fsyncs (cooling_run cfg flag evs) = 0) \<and>
   length (cs_storms (cooling_run cfg flag evs)) \<le> length (flush_posts evs) + (if flag then 1 else 0) \<and>
   set (cs_storms (cooling_run cfg flag evs)) \<subseteq> {fio_args cfg} \<and>
   (rstrip_slash path = ''/flush'' \<longrightarrow>
      cs_storms (cooling_run cfg flag (evs @ [Post path, Turn now])) =
        cs_storms (cooling_run cfg flag evs) @ [fio_args cfg])"
proof -
  have "cs_storms (cooling_run cfg flag (evs @ [Post path, Turn now])) =
      cs_storms (cooling_run cfg flag evs) @ [fio_args cfg]" if "rstrip_slash path = ''/flush''"
    using that cooling_run_snoc [of cfg flag "evs @ [Post path]" "Turn now"]
    by (simp add: cooling_run_snoc storm_def do_POST_def)
  with cooling_run_counts [of cfg flag evs] show ?thesis by simp
qed

theorem cooling_quiet_until_flush_witness:
  "cs_storms (cooling_run cooling_default False [Turn 0, Post ''/flush/'', Turn 1]) = [fio_args cooling_default]"
proof -
  have "cs_storms (cooling_run cooling_default False [Turn 0]) = []"
    using cooling_quiet_until_flush [of cooling_default False "[Turn 0]"] by (simp add: flush_posts_def)
  moreover have "rstrip_slash ''/flush/'' = ''/flush''" by (simp add: rstrip_slash_def)
  ultimately show ?thesis
    using cooling_quiet_until_flush [of cooling_default False "[Turn 0]" "''/flush/''" 1] by simp
qed

section \<open>The burst ends with its time\<close>

lemma burst_returns:
  assumes "burst_s \<le> clock (Suc n) - clock 0"
  shows "\<exists>k b. burst burst_s clock multiply a = Some (k, b) \<and> k \<le> n \<and> b = (multiply ^^ k) a"
proof -
  define c where "c = (\<lambda>(k :: nat, a :: 'a). clock (Suc k) - clock 0 < burst_s)"
  define f where "f = (\<lambda>(k :: nat, a). (Suc k, multiply a))"
  have it: "(f ^^ k) (0, a) = (k, (multiply ^^ k) a)" for k
    by (induction k) (simp_all add: f_def)
  define k where "k = (LEAST k. \<not> c ((f ^^ k) (0, a)))"
  have stop: "\<not> c ((f ^^ n) (0, a))" using assms by (simp add: it c_def)
  then have "k \<le> n" unfolding k_def by (rule Least_le)
  moreover have "while_option c f (0, a) = Some ((f ^^ k) (0, a))"
    using stop by (auto simp: while_option_def k_def)
  ultimately show ?thesis unfolding burst_def c_def [symmetric] f_def [symmetric] by (simp add: it)
qed

end
