(* ===== verification/Edge_Workloads.thy ===== *)
theory Edge_Workloads
  imports Prelude
begin

text \<open>
  The two workloads of the factory with a protocol of their own: \<open>safety-interlock\<close>, which watches the heartbeat of
  the control relay from two goroutines, and \<open>alert-dispatcher\<close> with its immediate retries.  MQTT, HTTP and the
  database are outside the model; the wall clock does not run backwards.
\<close>

section \<open>The safety interlock\<close>

text \<open>The watcher between two of its atomic accesses: it has read the clock; it has found the heartbeat stale; it has
  found the interlock armed.  The callback of a heartbeat: it has read the clock; it has stored it.\<close>

datatype watcher = Waiting | Clock_read int | Stale | Tripping

datatype callback = No_beat | Beat_read int | Beat_stored

text \<open>The last two fields are for the statements: the trips logged, and whether the stored heartbeat has ever been more
  than three seconds old.\<close>

record interlock =
  il_last :: int
  il_tripped :: bool
  il_now :: int
  il_watcher :: watcher
  il_callback :: callback
  il_trips :: nat
  il_late :: bool

definition interlock_start :: "int \<Rightarrow> interlock" where
  "interlock_start t = \<lparr>il_last = t, il_tripped = False, il_now = t, il_watcher = Waiting, il_callback = No_beat,
     il_trips = 0, il_late = False\<rparr>"

definition note_age :: "interlock \<Rightarrow> interlock" where
  "note_age s = s\<lparr>il_late := il_late s \<or> il_now s - il_last s > 3000\<rparr>"

inductive interlock_step :: "interlock \<Rightarrow> interlock \<Rightarrow> bool" where
  time_passes: "0 \<le> d \<Longrightarrow> interlock_step s (note_age (s\<lparr>il_now := il_now s + d\<rparr>))"
| beat_arrives: "il_callback s = No_beat \<Longrightarrow> interlock_step s (s\<lparr>il_callback := Beat_read (il_now s)\<rparr>)"
| beat_stores: "il_callback s = Beat_read t \<Longrightarrow> interlock_step s (note_age (s\<lparr>il_last := t, il_callback := Beat_stored\<rparr>))"
| beat_arms: "il_callback s = Beat_stored \<Longrightarrow> interlock_step s (s\<lparr>il_tripped := False, il_callback := No_beat\<rparr>)"
| watch_clock: "il_watcher s = Waiting \<Longrightarrow> interlock_step s (s\<lparr>il_watcher := Clock_read (il_now s)\<rparr>)"
| watch_last: "il_watcher s = Clock_read t \<Longrightarrow>
     interlock_step s (s\<lparr>il_watcher := (if t - il_last s > 3000 then Stale else Waiting)\<rparr>)"
| watch_tripped: "il_watcher s = Stale \<Longrightarrow>
     interlock_step s (s\<lparr>il_watcher := (if \<not> il_tripped s then Tripping else Waiting)\<rparr>)"
| watch_trips: "il_watcher s = Tripping \<Longrightarrow>
     interlock_step s (s\<lparr>il_tripped := True, il_watcher := Waiting, il_trips := il_trips s + 1\<rparr>)"

inductive interlock_run :: "int \<Rightarrow> interlock \<Rightarrow> bool" for t0 where
  starts: "interlock_run t0 (interlock_start t0)"
| steps: "interlock_run t0 s \<Longrightarrow> interlock_step s s' \<Longrightarrow> interlock_run t0 s'"

definition interlock_state :: "interlock \<Rightarrow> string" where
  "interlock_state s = (if il_tripped s then ''SAFE_MODE'' else ''ARMED'')"

definition interlock_ok :: "interlock \<Rightarrow> bool" where
  "interlock_ok s \<longleftrightarrow> (il_now s - il_last s > 3000 \<longrightarrow> il_late s) \<and>
     (case il_watcher s of Waiting \<Rightarrow> True | Clock_read t \<Rightarrow> t \<le> il_now s | _ \<Rightarrow> il_late s) \<and>
     (il_tripped s \<or> 0 < il_trips s \<longrightarrow> il_late s)"

lemma interlock_ok_step: "interlock_step s s' \<Longrightarrow> interlock_ok s \<Longrightarrow> interlock_ok s'"
  by (induction rule: interlock_step.induct) (auto simp: interlock_ok_def note_age_def split: watcher.splits)

lemma interlock_run_ok: "interlock_run t0 s \<Longrightarrow> interlock_ok s"
  by (induction rule: interlock_run.induct) (auto simp: interlock_ok_def interlock_start_def dest: interlock_ok_step)

text \<open>A whole round of the watcher trips the interlock exactly when the heartbeat is stale.\<close>

lemma watch_round:
  assumes "interlock_run t0 s" and "il_watcher s = Waiting"
  shows "\<exists>s'. interlock_run t0 s' \<and> il_watcher s' = Waiting \<and> il_last s' = il_last s \<and> il_callback s' = il_callback s \<and>
    il_now s' = il_now s \<and> (il_tripped s' \<longleftrightarrow> il_tripped s \<or> il_now s - il_last s > 3000)"
proof -
  let ?a = "s\<lparr>il_watcher := Clock_read (il_now s)\<rparr>"
  have a: "interlock_run t0 ?a" using interlock_run.steps [OF assms(1) interlock_step.watch_clock [OF assms(2)]] .
  let ?b = "?a\<lparr>il_watcher := (if il_now s - il_last ?a > 3000 then Stale else Waiting)\<rparr>"
  have b: "interlock_run t0 ?b" by (rule interlock_run.steps [OF a interlock_step.watch_last]) simp
  show ?thesis
  proof (cases "il_now s - il_last s > 3000")
    case False
    with b show ?thesis by (intro exI [of _ ?b]) simp
  next
    case True
    let ?c = "?b\<lparr>il_watcher := (if \<not> il_tripped ?b then Tripping else Waiting)\<rparr>"
    have c: "interlock_run t0 ?c" by (rule interlock_run.steps [OF b interlock_step.watch_tripped]) (simp add: True)
    show ?thesis
    proof (cases "il_tripped s")
      case True
      with c show ?thesis by (intro exI [of _ ?c]) simp
    next
      case False
      let ?d = "?c\<lparr>il_tripped := True, il_watcher := Waiting, il_trips := il_trips ?c + 1\<rparr>"
      have "interlock_run t0 ?d" by (rule interlock_run.steps [OF c interlock_step.watch_trips]) (simp add: False)
      with True show ?thesis by (intro exI [of _ ?d]) simp
    qed
  qed
qed

lemma interlock_state_cases [simp]: "interlock_state s = ''SAFE_MODE'' \<longleftrightarrow> il_tripped s" "interlock_state s = ''ARMED'' \<longleftrightarrow> \<not> il_tripped s"
  by (simp_all add: interlock_state_def)

text \<open>The test of \<open>tripped\<close> and its store are two accesses: a heartbeat handled between them is overruled, and the
  interlock stands in safe mode with a heartbeat that is not a millisecond old.\<close>

lemma interlock_trips_after_beat:
  "\<exists>s. interlock_run 0 s \<and> interlock_state s = ''SAFE_MODE'' \<and> il_last s = il_now s \<and> il_callback s = No_beat \<and> il_watcher s = Waiting"
proof -
  let ?s0 = "interlock_start 0"
  let ?s1 = "note_age (?s0\<lparr>il_now := il_now ?s0 + 3001\<rparr>)"
  have s1: "interlock_run 0 ?s1" by (rule interlock_run.steps [OF interlock_run.starts interlock_step.time_passes]) simp
  let ?s2 = "?s1\<lparr>il_watcher := Clock_read (il_now ?s1)\<rparr>"
  have s2: "interlock_run 0 ?s2"
    by (rule interlock_run.steps [OF s1 interlock_step.watch_clock]) (simp add: note_age_def interlock_start_def)
  let ?s3 = "?s2\<lparr>il_watcher := (if il_now ?s1 - il_last ?s2 > 3000 then Stale else Waiting)\<rparr>"
  have s3: "interlock_run 0 ?s3" by (rule interlock_run.steps [OF s2 interlock_step.watch_last]) simp
  let ?s4 = "?s3\<lparr>il_watcher := (if \<not> il_tripped ?s3 then Tripping else Waiting)\<rparr>"
  have s4: "interlock_run 0 ?s4"
    by (rule interlock_run.steps [OF s3 interlock_step.watch_tripped]) (simp add: note_age_def interlock_start_def)
  let ?s5 = "?s4\<lparr>il_callback := Beat_read (il_now ?s4)\<rparr>"
  have s5: "interlock_run 0 ?s5"
    by (rule interlock_run.steps [OF s4 interlock_step.beat_arrives]) (simp add: note_age_def interlock_start_def)
  let ?s6 = "note_age (?s5\<lparr>il_last := il_now ?s4, il_callback := Beat_stored\<rparr>)"
  have s6: "interlock_run 0 ?s6" by (rule interlock_run.steps [OF s5 interlock_step.beat_stores]) simp
  let ?s7 = "?s6\<lparr>il_tripped := False, il_callback := No_beat\<rparr>"
  have s7: "interlock_run 0 ?s7"
    by (rule interlock_run.steps [OF s6 interlock_step.beat_arms]) (simp add: note_age_def)
  let ?s8 = "?s7\<lparr>il_tripped := True, il_watcher := Waiting, il_trips := il_trips ?s7 + 1\<rparr>"
  have s8: "interlock_run 0 ?s8"
    by (rule interlock_run.steps [OF s7 interlock_step.watch_trips]) (simp add: note_age_def interlock_start_def)
  then show ?thesis by (intro exI [of _ ?s8]) (simp add: note_age_def interlock_start_def)
qed



section \<open>The alert dispatcher\<close>

datatype alert = Rate_low int | Rate_flood int | Db_unreachable

text \<open>Whether the \<open>k\<close>-th POST of the process is answered with a good status in time; and the POSTs made so far.\<close>

type_synonym posts = "(alert \<times> bool) list"

function send :: "(nat \<Rightarrow> bool) \<Rightarrow> alert \<Rightarrow> nat \<Rightarrow> posts \<Rightarrow> posts" where
  "send good body attempt posts =
     (let posts' = posts @ [(body, good (length posts))]
      in if good (length posts) then posts'
         else if attempt < 3 then send good body (attempt + 1) posts' else posts')"
  by pat_completeness auto
termination by (relation "measure (\<lambda>(_, _, attempt, _). 3 - attempt)") auto

declare send.simps [simp del]

text \<open>The count of the last minute, \<open>None\<close> when the database fails; \<open>send\<close> itself never throws.\<close>

definition dispatcher_poll :: "(nat \<Rightarrow> bool) \<Rightarrow> int option \<Rightarrow> posts \<Rightarrow> posts" where
  "dispatcher_poll good count posts = (case count of
     Some n \<Rightarrow>
       (let posts = (if n < 1000 then send good (Rate_low n) 1 posts else posts)
        in if n > 150000 then send good (Rate_flood n) 1 posts else posts)
   | None \<Rightarrow> send good Db_unreachable 1 posts)"

text \<open>One to three attempts at once, each after a failure of the one before, the last one good or the third.\<close>

lemma send_from:
  assumes "1 \<le> attempt" "attempt \<le> 3"
  shows "\<exists>k. send good body attempt posts = posts @ map (\<lambda>i. (body, good (length posts + i))) [0..<Suc k] \<and> attempt + k \<le> 3 \<and>
    (\<forall>i < k. \<not> good (length posts + i)) \<and> (good (length posts + k) \<or> attempt + k = 3)"
  using assms
proof (induction good body attempt posts rule: send.induct)
  case (1 good body attempt posts)
  show ?case
  proof (cases "good (length posts) \<or> attempt = 3")
    case True
    with 1(3) show ?thesis by (intro exI [of _ 0]) (auto simp: send.simps Let_def)
  next
    case False
    with 1(3) have lt: "\<not> good (length posts)" "attempt < 3" by auto
    let ?posts = "posts @ [(body, good (length posts))]"
    have "\<exists>k. send good body (attempt + 1) ?posts = ?posts @ map (\<lambda>i. (body, good (length ?posts + i))) [0..<Suc k] \<and> attempt + 1 + k \<le> 3 \<and>
        (\<forall>i < k. \<not> good (length ?posts + i)) \<and> (good (length ?posts + k) \<or> attempt + 1 + k = 3)"
      by (rule 1(1)) (use lt 1(2) in auto)
    then obtain k where k: "send good body (attempt + 1) ?posts = ?posts @ map (\<lambda>i. (body, good (length ?posts + i))) [0..<Suc k]"
      "attempt + 1 + k \<le> 3" "\<forall>i < k. \<not> good (length ?posts + i)" "good (length ?posts + k) \<or> attempt + 1 + k = 3" by blast
    have "[0..<Suc (Suc k)] = 0 # map Suc [0..<Suc k]" by (subst upt_conv_Cons) (simp_all add: map_Suc_upt del: upt_Suc)
    then have "send good body attempt posts = posts @ map (\<lambda>i. (body, good (length posts + i))) [0..<Suc (Suc k)]"
      using lt k(1) by (subst send.simps) (simp add: Let_def comp_def del: upt_Suc)
    moreover have "\<forall>i < Suc k. \<not> good (length posts + i)"
      using k(3) lt(1) by (auto simp: less_Suc_eq_0_disj)
    ultimately show ?thesis using k(2,4) by (intro exI [of _ "Suc k"]) auto
  qed
qed

text \<open>The amplification of one poll is at most three, whatever fails.\<close>

lemma poll_amplification:
  "\<exists>new body. dispatcher_poll good count posts = posts @ new \<and> length new \<le> 3 \<and> fst ` set new \<subseteq> {body}"
proof -
  have one: "\<exists>new body'. send good body 1 posts = posts @ new \<and> length new \<le> 3 \<and> fst ` set new \<subseteq> {body'}" for body
    using send_from [of 1 good body posts] by force
  have "\<exists>new body. posts = posts @ new \<and> length new \<le> 3 \<and> fst ` set new \<subseteq> {body}" by simp
  with one show ?thesis
    by (cases count) (simp_all add: dispatcher_poll_def)
qed

end
