(* ===== verification/Spec2Isabelle.thy ===== *)
theory Spec2Isabelle
  imports Prelude Text Json_Text Array_Lib Graph_Lib Sql_Table Detectors Forecast Lagcorr Causal_Graph Gate
    Ranking Pipeline Edge_Memory Baselines Case_Library Memory_Json Belief_Map Graph_Memory Merge Service_Inputs
    Service Service_Threads Service_Config Aggregator Aggregator_Service Gateway_Metrics Gateway Gateway_Threads Soak Soak_Files Workloads Edge_Workloads
begin

text \<open>
  A verification library for the causal AIOps prototype: telemetry of the pods of one node goes in,
  an explained root cause comes out.  The system is a chain of processes.  Simulated workloads
  (\<open>workloads/\<close>) stress shared resources; an aggregator (Go, \<open>aggregator/\<close>) keeps a window of samples
  per pod and signal; the correlation service (\<open>correlation/service.py\<close>) reads the window every few
  seconds, runs one correlation pass per signal (\<open>correlation/engine/\<close>), lets the memory of that
  signal observe the result, merges the signals and serves one graph; the gateway (\<open>api/main.py\<close>)
  turns that graph into the operator's views; the soak recorder (\<open>soak/record.py\<close>) samples the
  gateway during long runs and reports how the engine did.  The Python of these programs and the
  aggregator are what is modelled, with the two smaller workloads that have a protocol.

  \<^bold>\<open>Shared ground.\<close>  \<open>Prelude\<close>: outcomes of calls (return, raise, never return), first maximum and
  minimum, slices, dictionaries in insertion order, rounding, splitting.  \<open>Text\<close>: decimal numbers
  and string methods.  \<open>Json_Text\<close>: \<open>json.dumps\<close> and \<open>json.loads\<close> with the helpers \<open>_json\<close>, \<open>_load_json\<close> and \<open>jload\<close>;
  the locales \<open>string_codec\<close> and \<open>json_printer\<close>, under which a text reads back as the value, are interpreted on
  the printers of the memory, of the recorder and of the page.  \<open>Array_Lib\<close>: numpy and scipy as the record \<open>numlib\<close> with the laws of the locale
  \<open>numeric_library\<close>, interpreted on a concrete \<open>ref_np\<close>.  \<open>Graph_Lib\<close>: networkx as the record \<open>nxlib\<close>
  with the locale \<open>digraph_library\<close>, interpreted on \<open>dict_nx\<close>.  \<open>Sql_Table\<close>: tables with a primary key,
  the locale \<open>keyed_table\<close>, interpreted for the tables of edges, baselines and cases.  The configuration of a memory
  (\<open>sane_config\<close>), the witness (\<open>coupling_witness\<close>) and the bounded queue (\<open>bounded_fifo\<close>) are locales of the
  components that provide them.

  \<^bold>\<open>The engine.\<close>
  \<^item> \<open>Detectors\<close> (\<open>detectors.py\<close>): EWMA, robust sigma, CUSUM onsets, shapes, the linear forecast.
  \<^item> \<open>Forecast\<close> (\<open>forecast.py\<close>): the memory warning, over the samples after the last restart.
  \<^item> \<open>Lagcorr\<close> (\<open>lagcorr.py\<close>): lag profiles, the best direction, support of adjacent lags.
  \<^item> \<open>Causal_Graph\<close>: the JSON objects the engine passes around, as records.
  \<^item> \<open>Gate\<close> (\<open>gate.py\<close>): the physical witness and the three clauses an edge must pass.
  \<^item> \<open>Ranking\<close> (\<open>ranking.py\<close>): forward impact, the root-cause score, the blast radius.
  \<^item> \<open>Pipeline\<close> (\<open>pipeline.py\<close>): \<open>run_pass\<close> from vectors to a graph.
  \<^item> \<open>Edge_Memory\<close>, \<open>Baselines\<close>, \<open>Case_Library\<close>, \<open>Graph_Memory\<close> (\<open>state.py\<close>): the tables of one memory and
    all operations on them; \<open>reachable\<close> is the set of databases a service can ever hold.
  \<^item> \<open>Memory_Json\<close>: the JSON columns of the case table and the text that is hashed into a case id.
  \<^item> \<open>Belief_Map\<close>: the abstract specification of the edge table, a map from keys to beliefs.
  \<^item> \<open>Merge\<close> (\<open>merge.py\<close>): one graph out of the graphs of the signals.

  \<^bold>\<open>The processes.\<close>
  \<^item> \<open>Aggregator\<close> (\<open>aggregator/main.go\<close>): the pack of queries, the ring of samples, the threshold events and the two
    handlers, as a step relation over any answers of Prometheus.  \<open>Aggregator_Service\<close>: what the engine's
    inputs are when they come from any two moments of that process.
  \<^item> \<open>Service_Inputs\<close>, \<open>Service\<close> (\<open>service.py\<close>): the window resampled on a grid, the witness of a signal,
    the loop body with its exception handler, the handler of GET requests.
  \<^item> \<open>Service_Config\<close>, \<open>Service_Threads\<close> (\<open>service.py\<close>): the settings read when the module is loaded; the loop and
    the server as two threads over the locked graph.
  \<^item> \<open>Gateway_Metrics\<close>, \<open>Gateway\<close> (\<open>api/main.py\<close>): topology, right-sizing, fairness; the normalised
    graph, the narrative with its cache, live levels, the scenario console.
  \<^item> \<open>Gateway_Threads\<close>: the narrative endpoint under concurrent requests over the unlocked cache.
  \<^item> \<open>Soak\<close> (\<open>record.py\<close>): samples, timeline, rollups, events and the page of a run.  \<open>Soak_Files\<close>: the samples
    file and the data of the page as texts.
  \<^item> \<open>Workloads\<close>: the ingest queue, the frame cache, the flush flag, the timed burst.  \<open>Edge_Workloads\<close>: the
    safety interlock as two goroutines over its atomics, the retries of the alert dispatcher.
  \<^item> This theory: what the chain as a whole shows to the operator and to the record.

  \<^bold>\<open>What the lemmas show.\<close>  Every loop of the ranking ends: \<open>while_option\<close> loops whose measure is the
  cost of the frontier, each node being improved only while its decayed weight stays above \<open>CUT\<close>.
  Every edge reported has physical evidence and enough correlation; steady state is silent
  whatever is correlated; a root cause explains a symptom or is driven by nothing.  The memories
  keep their invariants in every reachable database and refine their specifications; a storm is
  never learnt as normal.  The aggregator serves the newest samples of every
  series and one event per breach, and the engine's vectors hold measured values only.  The service loop survives
  every answer it can be given and returns, and no request sees half an iteration.  A setting that cannot be read stops it before it
  starts.  The verdict does not depend on the language model; the console keeps the order of
  its cluster calls; right-sizing never advises below use; the soak report neither loses nor
  embellishes a sample, its files and its page read back as what was written; the ingest writer neither reorders nor
  invents a row; the interlock trips only when a heartbeat has been late.

  \<^bold>\<open>Correspondence.\<close>  Definitions keep the names of the functions, a class is a record of its fields,
  a dictionary an association list in insertion order, a call that can raise an \<open>outcome\<close>, a
  thread a list of events or, where threads share a variable, an inductive step relation whose steps are
  the atomic accesses.  Parameters: \<open>numlib\<close>, \<open>nxlib\<close>, the digest of case keys (sha1), the parser
  of time stamps (\<open>fromiso\<close>), the language model (\<open>llm\<close>), the replies of Prometheus and of the
  Kubernetes API, the clock, \<open>strftime\<close> and the printing of a number (\<open>show\<close>).  Fuel: the JSON reader takes
  twice the length of its text, which \<open>read_enough\<close> shows to be enough for every text.

  \<^bold>\<open>Not modelled.\<close>  Floats are real numbers, so rounding of IEEE arithmetic, infinities and NaN
  outside the places where the code tests for them are not covered.  The text of SQL, PromQL, of
  the prompt and of log lines, HTTP and FastAPI routing, sockets, sleeping and file
  durability are I/O.  A character of a JSON text is a code point below 256, and a number is printed
  without regard to whether Python holds it as an integer or a float.  The other
  workloads (\<open>plc-gateway\<close>, \<open>critical-control-relay\<close>, \<open>dcim-bridge\<close>, \<open>notify-gateway\<close>, \<open>log-archiver\<close>) only
  generate load; the dashboard is JavaScript over the gateway, the deployment YAML and shell; the Python
  that only connects a client and retries (the \<open>main\<close> blocks of the workloads) calls libraries only.
\<close>

section \<open>From the engine to the operator and the record\<close>

text \<open>The answer of \<open>/api/graph\<close> as the recorder reads it; \<open>active\<close> and \<open>npods\<close> of its meta data are passed
  through.\<close>

definition snapshot_of :: "scalar \<Rightarrow> scalar \<Rightarrow> gateway_graph \<Rightarrow> snapshot" where
  "snapshot_of active npods g =
     \<lparr>sn_root = map (\<lambda>r. \<lparr>sr_pod = Some (rc_pod r), sr_score = Num (rc_score r), sr_onset = scalar_of (rc_onset r)\<rparr>) (gg_root g),
      sn_edges = map (\<lambda>e. \<lparr>sn_src = Some (e_src e), sn_dst = Some (e_dst e), sn_r = Some (e_r e),
        sn_evidence = e_evidence e\<rparr>) (gg_edges g),
      sn_findings = length (gg_findings g),
      sn_incipient = map (\<lambda>w. \<lparr>sw_pod = Some (wn_pod w), sw_eta = Some (wn_eta w)\<rparr>) (gg_incipient g),
      sn_active = active, sn_pods = npods\<rparr>"

definition records :: "scalar \<Rightarrow> scalar \<Rightarrow> served \<Rightarrow> tick_env \<Rightarrow> bool" where
  "records active npods sv te \<longleftrightarrow> te_graph te = Some (snapshot_of active npods (engine_graph sv))"

lemma sample_root:
  assumes "records active npods sv te"
  shows "so_root (sample_of stamp te) = (case gg_root (engine_graph sv) of [] \<Rightarrow> '''' | r # _ \<Rightarrow> rc_pod r)"
  using assms by (auto simp: sample_of_def records_def snapshot_of_def with_warning_def with_edge_def with_counts_def
      with_root_def blank_row_def or_empty_def Let_def split: list.split option.split)

lemma sample_phase: "so_phase (sample_of stamp te) = te_phase te"
  by (auto simp: sample_of_def with_warning_def with_edge_def with_counts_def with_root_def blank_row_def Let_def
      split: list.split option.split)

lemma pods_step_cases:
  assumes "pods_step signals flagged ks (Ret out) = Ret out'"
  shows "out' = out \<or> (\<exists>w c. pl_anomalous c = (w \<in> flagged) \<and> out' = AList.update w c out)"
proof (cases "length (split_on CHR ''/'' (fst ks)) < 3 \<or> last (split_on CHR ''/'' (fst ks)) \<notin> set signals \<or> snd ks = []")
  case True
  with assms show ?thesis by (simp only: pods_step_def and_then.simps Let_def if_True) simp
next
  case False
  show ?thesis
  proof (cases "sm_value (last (snd ks))")
    case None
    with assms False show ?thesis by (simp only: pods_step_def and_then.simps Let_def if_False option.case) simp
  next
    case (Some val)
    let ?w = "stable_workload (split_on CHR ''/'' (fst ks) ! 1)"
    from assms obtain c where "out' = AList.update ?w (c\<lparr>pl_anomalous := ?w \<in> flagged\<rparr>) out"
      by (simp only: pods_step_def and_then.simps Let_def if_not_P [OF False] Some option.case outcome.inject) blast
    then show ?thesis by (intro disjI2 exI [of _ ?w] exI [of _ "c\<lparr>pl_anomalous := ?w \<in> flagged\<rparr>"]) simp
  qed
qed

lemma snd_update: "snd ` set (AList.update k v al) \<subseteq> insert v (snd ` set al)"
  by (induction al) auto

lemma pods_step_unflagged:
  assumes "pods_step signals {} ks (Ret out) = Ret out'" and "\<forall>p \<in> snd ` set out. \<not> pl_anomalous p"
  shows "\<forall>p \<in> snd ` set out'. \<not> pl_anomalous p"
  using pods_step_cases [OF assms(1)]
proof (elim disjE exE conjE)
  fix w c assume "pl_anomalous c = (w \<in> {})" "out' = AList.update w c out"
  with snd_update [of w c out] assms(2) show ?thesis by (auto simp only: empty_iff)
qed (use assms(2) in simp)

lemma pods_unflagged:
  assumes "fold (pods_step signals {}) window (Ret out) = Ret out'" and "\<forall>p \<in> snd ` set out. \<not> pl_anomalous p"
  shows "\<forall>p \<in> snd ` set out'. \<not> pl_anomalous p"
  using assms
proof (induction window arbitrary: out)
  case (Cons ks window)
  have stuck: "fold (pods_step signals {}) w (Raise e) \<noteq> Ret x" "fold (pods_step signals {}) w Hang \<noteq> Ret x" for w e x
    by (induction w) (simp_all add: pods_step_def)
  from Cons.prems(1) stuck obtain out1 where step: "pods_step signals {} ks (Ret out) = Ret out1"
    by (cases "pods_step signals {} ks (Ret out)") auto
  with Cons.prems(1) have "fold (pods_step signals {}) window (Ret out1) = Ret out'" by simp
  then show ?case by (rule Cons.IH [OF _ pods_step_unflagged [OF step Cons.prems(2)]])
qed simp



text \<open>C5 (functional).  An incident reads the same everywhere: when the served graph has a root cause, the
  graph endpoint, the deterministic verdict and the soak sample all name the same workload, the
  first of the ranking with its pod suffix dropped, and the sample is scored against the
  scenario's ground truth by exactly that name.\<close>

theorem incident_views_agree:
  assumes "mg_ranking m = r # rs" and "mg_edges m \<noteq> []" and "records active npods (Served m warn) te"
    and "expected (te_phase te) = Some truth"
  shows "rc_pod (hd (gg_root (engine_graph (Served m warn)))) = stable_workload (rc_pod r) \<and>
    startswith (template_narrative (engine_graph (Served m warn))) (stable_workload (rc_pod r)) \<and>
    so_root (sample_of stamp te) = stable_workload (rc_pod r) \<and>
    (stable_workload (rc_pod r) \<noteq> '''' \<longrightarrow>
       matched (sample_of stamp te) = Some (stable_workload (rc_pod r) = truth))"
proof -
  let ?g = "engine_graph (Served m warn)"
  have g: "gg_root ?g = r\<lparr>rc_pod := stable_workload (rc_pod r)\<rparr> # map (\<lambda>r. r\<lparr>rc_pod := stable_workload (rc_pod r)\<rparr>) rs"
    "gg_edges ?g \<noteq> []" using assms(1,2) by (simp_all add: engine_graph_def)
  have sample: "so_root (sample_of stamp te) = stable_workload (rc_pod r)"
    using sample_root [OF assms(3), of stamp] by (simp add: g)
  moreover have "startswith (template_narrative ?g) (stable_workload (rc_pod r))"
    using g by (simp add: template_narrative_def startswith_def Let_def)
  moreover have "matched (sample_of stamp te) = Some (stable_workload (rc_pod r) = truth)" if "stable_workload (rc_pod r) \<noteq> ''''"
    using that assms(4) by (simp add: matched_def sample sample_phase)
  ultimately show ?thesis using g by simp
qed


definition hog_incident_graph :: merged_graph where
  "hog_incident_graph = \<lparr>mg_findings = [],
     mg_edges = [\<lparr>e_src = ''cooling-monitor-66-x'', e_dst = ''timescaledb-0'', e_r = 9/10, e_lag = 5,
       e_evidence = [''write''], re_confidence = None, re_base_conf = None, re_state = Some Active, re_hits = None,
       re_weight = None, re_last_seen = None, re_source = None, re_signal = Some ''psi_io''\<rparr>],
     mg_ranking = [\<lparr>rc_pod = ''cooling-monitor-66-x'', rc_score = 1, rc_onset = None\<rparr>], mg_blast = [],
     mg_signals = [''psi_io''], mg_stats = None, mg_held = None, mg_case = None, mg_signal = Some ''psi_io'',
     mg_pods = 2, mg_active = 1, mg_accepted = 1\<rparr>"

definition hog_tick :: tick_env where
  "hog_tick = \<lparr>te_now = 60, te_phase = ''S1'', te_cycle = ''1'',
     te_graph = Some (snapshot_of Null Null (engine_graph (Served hog_incident_graph []))), te_narrative = None\<rparr>"

theorem incident_views_agree_witness:
  "so_root (sample_of show_int hog_tick) = ''cooling-monitor'' \<and> matched (sample_of show_int hog_tick) = Some True"
proof -
  have "stable_workload ''cooling-monitor-66-x'' = ''cooling-monitor''" by code_simp
  moreover have "records Null Null (Served hog_incident_graph []) hog_tick" by (simp add: records_def hog_tick_def)
  moreover have "expected (te_phase hog_tick) = Some ''cooling-monitor''" by (simp add: hog_tick_def expected_def EXPECT_def)
  ultimately show ?thesis
    using incident_views_agree [of hog_incident_graph "\<lparr>rc_pod = ''cooling-monitor-66-x'', rc_score = 1, rc_onset = None\<rparr>" "[]"
        Null Null "[]" hog_tick "''cooling-monitor''" show_int]
    by (simp add: hog_incident_graph_def)
qed

end
